(* ===== verification/Prelude.thy ===== *)
theory Prelude
  imports Main "HOL-Library.Sublist" "HOL-Library.AList"
begin

text \<open>
  Shared vocabulary of the development: the JavaScript (and, where they differ, Go) string
  operations the sources use, JavaScript objects with insertion-ordered keys, the
  operators \<open>??\<close> and \<open>||\<close>, and the generic list lemmas the component theories rely on.

  A JavaScript string is a list of code units. The development models the strings whose
  code units are below 256 (Latin-1), so that \<^typ>\<open>string\<close> represents them and
  \<open>toLowerCase\<close>, \<open>trim\<close> and the regular expression classes are exact: on Latin-1 the
  Unicode tables reduce to the ranges written out below. Numbers that are counts, lengths,
  milliseconds or status codes are \<^typ>\<open>int\<close> or \<^typ>\<open>nat\<close>; the sources never
  leave the exact range of a double with them.
\<close>

named_theorems js_eval \<open>equations that evaluate the string operations on literals\<close>
named_theorems js_object \<open>facts about insertion-ordered objects\<close>

section \<open>Characters\<close>

definition lower_char :: "char \<Rightarrow> char" where
  "lower_char c = (let n = (of_char c :: nat) in
     if (65 \<le> n \<and> n \<le> 90) \<or> (192 \<le> n \<and> n \<le> 222 \<and> n \<noteq> 215) then char_of (n + 32) else c)"

definition is_digit :: "char \<Rightarrow> bool" where
  [js_eval]: "is_digit c \<longleftrightarrow> (let n = (of_char c :: nat) in 48 \<le> n \<and> n \<le> 57)"

definition is_upper :: "char \<Rightarrow> bool" where
  [js_eval]: "is_upper c \<longleftrightarrow> (let n = (of_char c :: nat) in 65 \<le> n \<and> n \<le> 90)"

definition is_lower :: "char \<Rightarrow> bool" where
  [js_eval]: "is_lower c \<longleftrightarrow> (let n = (of_char c :: nat) in 97 \<le> n \<and> n \<le> 122)"

definition is_word :: "char \<Rightarrow> bool" where
  [js_eval]: "is_word c \<longleftrightarrow> is_digit c \<or> is_upper c \<or> is_lower c \<or> c = CHR ''_''"

text \<open>White space of \<open>String.prototype.trim\<close> and of \<open>\s\<close>, cut down to Latin-1.\<close>

definition is_space :: "char \<Rightarrow> bool" where
  [js_eval]: "is_space c \<longleftrightarrow> (let n = (of_char c :: nat) in (9 \<le> n \<and> n \<le> 13) \<or> n = 32 \<or> n = 160)"

text \<open>White space of Go's \<open>strings.TrimSpace\<close>: the same set and U+0085.\<close>

definition go_space :: "char \<Rightarrow> bool" where
  [js_eval]: "go_space c \<longleftrightarrow> is_space c \<or> (of_char c :: nat) = 133"

lemma of_char_lower_char:
  "(of_char (lower_char c) :: nat) =
     (let n = of_char c in
      if (65 \<le> n \<and> n \<le> 90) \<or> (192 \<le> n \<and> n \<le> 222 \<and> n \<noteq> 215) then n + 32 else n)"
  by (auto simp: lower_char_def Let_def)

lemma lower_char_idem [simp]: "lower_char (lower_char c) = lower_char c"
  by (subst (2) lower_char_def) (auto simp: Let_def lower_char_def)

text \<open>Lower-casing sets one bit of the code unit.\<close>

lemma lower_char_Char [js_eval]:
  "lower_char (Char b0 b1 b2 b3 b4 b5 b6 b7) =
     (if b6 \<and> \<not> b5 \<and>
         (if b7 then \<not> (b4 \<and> b2 \<and> b1 \<and> b0)
          else (b0 \<or> b1 \<or> b2 \<or> b3 \<or> b4) \<and> \<not> (b4 \<and> b3 \<and> (b2 \<or> (b1 \<and> b0))))
      then Char b0 b1 b2 b3 b4 True b6 b7 else Char b0 b1 b2 b3 b4 b5 b6 b7)"
  by (cases b0; cases b1; cases b2; cases b3; cases b4; cases b5; cases b6; cases b7;
      simp add: lower_char_def char_of_eq_iff take_bit_eq_mod)

section \<open>Strings\<close>

definition toLowerCase :: "string \<Rightarrow> string" where
  [js_eval]: "toLowerCase s = map lower_char s"

definition trimStart :: "string \<Rightarrow> string" where
  [js_eval]: "trimStart s = dropWhile is_space s"

definition trimEnd :: "string \<Rightarrow> string" where
  [js_eval]: "trimEnd s = rev (dropWhile is_space (rev s))"

definition trim :: "string \<Rightarrow> string" where
  [js_eval]: "trim s = trimEnd (trimStart s)"

definition TrimSpace :: "string \<Rightarrow> string" where
  [js_eval]: "TrimSpace s = rev (dropWhile go_space (rev (dropWhile go_space s)))"

definition startsWith :: "string \<Rightarrow> string \<Rightarrow> bool" where
  [js_eval]: "startsWith s p \<longleftrightarrow> take (length p) s = p"

definition endsWith :: "string \<Rightarrow> string \<Rightarrow> bool" where
  [js_eval]: "endsWith s p \<longleftrightarrow> startsWith (rev s) (rev p)"

fun includes_str :: "string \<Rightarrow> string \<Rightarrow> bool" where
  "includes_str [] n = (n = [])"
| "includes_str (c # s) n = (startsWith (c # s) n \<or> includes_str s n)"

fun join :: "string \<Rightarrow> string list \<Rightarrow> string" where
  "join sep [] = []"
| "join sep [x] = x"
| "join sep (x # y # xs) = x @ sep @ join sep (y # xs)"

text \<open>\<open>s.split(c)\<close> for a one-character separator: never the empty array.\<close>

fun split_on :: "char \<Rightarrow> string \<Rightarrow> string list" where
  "split_on c [] = [[]]"
| "split_on c (x # xs) =
     (if x = c then [] # split_on c xs
      else (case split_on c xs of [] \<Rightarrow> [[x]] | y # ys \<Rightarrow> (x # y) # ys))"

text \<open>\<open>Array.prototype.slice\<close> and \<open>String.prototype.slice\<close> with relative indices.\<close>

definition rel_index :: "nat \<Rightarrow> int \<Rightarrow> nat" where
  [js_eval]: "rel_index n i = (if i < 0 then nat (int n + i) else min (nat i) n)"

definition slice :: "'a list \<Rightarrow> int \<Rightarrow> int \<Rightarrow> 'a list" where
  [js_eval]: "slice xs i j = (let a = rel_index (length xs) i; b = rel_index (length xs) j
                   in take (b - a) (drop a xs))"

definition slice_from :: "'a list \<Rightarrow> int \<Rightarrow> 'a list" where
  [js_eval]: "slice_from xs i = drop (rel_index (length xs) i) xs"

text \<open>\<open>Array.prototype.find\<close>, \<open>findIndex\<close> and \<open>indexOf\<close> (\<open>-1\<close> when absent).\<close>

fun findIndex :: "('a \<Rightarrow> bool) \<Rightarrow> 'a list \<Rightarrow> int" where
  "findIndex p [] = -1"
| "findIndex p (x # xs) =
     (if p x then 0 else (let i = findIndex p xs in if i < 0 then -1 else i + 1))"

text \<open>Reading an array out of range gives \<open>undefined\<close>.\<close>

definition at_index :: "'a list \<Rightarrow> int \<Rightarrow> 'a option" where
  [js_eval]: "at_index xs i = (if 0 \<le> i \<and> i < int (length xs) then Some (xs ! nat i) else None)"

text \<open>\<open>a ?? b\<close> on possibly undefined values, \<open>s || t\<close> on strings.\<close>

definition nullish :: "'a option \<Rightarrow> 'a \<Rightarrow> 'a" where
  [simp]: "nullish a b = (case a of None \<Rightarrow> b | Some x \<Rightarrow> x)"

definition nullish_opt :: "'a option \<Rightarrow> 'a option \<Rightarrow> 'a option" where
  [simp]: "nullish_opt a b = (case a of None \<Rightarrow> b | Some x \<Rightarrow> Some x)"

definition or_str :: "string \<Rightarrow> string \<Rightarrow> string" where
  [simp]: "or_str s t = (if s = [] then t else s)"

text \<open>A possibly undefined string is truthy when it is present and not empty.\<close>

definition truthy :: "string option \<Rightarrow> bool" where
  [js_eval]: "truthy s \<longleftrightarrow> (case s of None \<Rightarrow> False | Some x \<Rightarrow> x \<noteq> [])"

section \<open>Numbers as text\<close>

definition digit_char :: "nat \<Rightarrow> char" where
  "digit_char d = char_of (48 + d)"

fun show_nat :: "nat \<Rightarrow> string" where
  "show_nat n = (if n < 10 then [digit_char n] else show_nat (n div 10) @ [digit_char (n mod 10)])"

declare show_nat.simps [simp del]

definition show_int :: "int \<Rightarrow> string" where
  [js_eval]: "show_int i = (if i < 0 then CHR ''-'' # show_nat (nat (- i)) else show_nat (nat i))"

fun read_nat_acc :: "nat \<Rightarrow> string \<Rightarrow> nat option" where
  "read_nat_acc a [] = Some a"
| "read_nat_acc a (c # cs) =
     (if is_digit c then read_nat_acc (10 * a + (of_char c - 48)) cs else None)"

text \<open>Decimal digits only, at least one.\<close>

definition read_nat :: "string \<Rightarrow> nat option" where
  [js_eval]: "read_nat s = (if s = [] then None else read_nat_acc 0 s)"

section \<open>JSON text\<close>

definition hex_char :: "nat \<Rightarrow> char" where
  [js_eval]: "hex_char d = (if d < 10 then char_of (48 + d) else char_of (87 + d))"

text \<open>One code unit inside \<open>JSON.stringify\<close> of a string: 34 is the quote, 92 the backslash.\<close>

definition json_char :: "char \<Rightarrow> string" where
  [js_eval]: "json_char c = (let n = (of_char c :: nat); bs = CHR 0x5C in
     if n = 34 \<or> n = 92 then [bs, c]
     else if n = 8 then [bs, CHR ''b'']
     else if n = 9 then [bs, CHR ''t'']
     else if n = 10 then [bs, CHR ''n'']
     else if n = 12 then [bs, CHR ''f'']
     else if n = 13 then [bs, CHR ''r'']
     else if n < 32 then [bs, CHR ''u'', CHR ''0'', CHR ''0'', hex_char (n div 16), hex_char (n mod 16)]
     else [c])"

definition json_string :: "string \<Rightarrow> string" where
  [js_eval]: "json_string s = CHR 0x22 # concat (map json_char s) @ [CHR 0x22]"

section \<open>Objects with insertion-ordered keys\<close>

text \<open>
  A JavaScript object literal is an association list: assigning an existing key keeps its
  place, a new key goes to the end. Reading is \<^const>\<open>map_of\<close>.
\<close>

fun obj_set :: "'k \<Rightarrow> 'v \<Rightarrow> ('k \<times> 'v) list \<Rightarrow> ('k \<times> 'v) list" where
  "obj_set k v [] = [(k, v)]"
| "obj_set k v ((k', v') # o') = (if k = k' then (k, v) # o' else (k', v') # obj_set k v o')"

definition obj_spread :: "('k \<times> 'v) list \<Rightarrow> ('k \<times> 'v) list \<Rightarrow> ('k \<times> 'v) list" where
  "obj_spread a b = fold (\<lambda>(k, v). obj_set k v) b a"

section \<open>Facts about strings\<close>

lemma startsWith_iff [simp]: "startsWith s p \<longleftrightarrow> prefix p s"
  by (auto simp: startsWith_def prefix_def) (metis append_take_drop_id)

lemma endsWith_iff: "endsWith s p \<longleftrightarrow> suffix p s"
  by (simp add: endsWith_def suffix_to_prefix)

lemma includes_str_sublist: "includes_str s n \<longleftrightarrow> sublist n s"
  by (induction s) (auto simp: sublist_Cons_right)

lemma includes_str_Nil [simp]: "includes_str s []"
  by (simp add: includes_str_sublist)

lemma includes_str_refl [simp]: "includes_str s s"
  by (simp add: includes_str_sublist)

lemma includes_str_trans: "includes_str s t \<Longrightarrow> includes_str t u \<Longrightarrow> includes_str s u"
  by (auto simp: includes_str_sublist)

lemma includes_str_appendI: "includes_str (a @ n @ b) n"
  by (auto simp: includes_str_sublist sublist_def)

lemma includes_str_map: "includes_str s n \<Longrightarrow> includes_str (map f s) (map f n)"
  by (auto simp: includes_str_sublist map_mono_sublist)

lemma toLowerCase_idem [simp]: "toLowerCase (toLowerCase s) = toLowerCase s"
  by (simp add: toLowerCase_def)

lemma toLowerCase_append [simp]: "toLowerCase (s @ t) = toLowerCase s @ toLowerCase t"
  by (simp add: toLowerCase_def)

lemma length_toLowerCase [simp]: "length (toLowerCase s) = length s"
  by (simp add: toLowerCase_def)

lemma toLowerCase_eq_Nil [simp]: "toLowerCase s = [] \<longleftrightarrow> s = []"
  by (simp add: toLowerCase_def)

lemma is_space_go_space: "is_space c \<Longrightarrow> go_space c"
  by (simp add: go_space_def)

text \<open>
  Go trims at least what JavaScript trims, so Go's trimmed text occurs in JavaScript's.
\<close>

lemma dropWhile_dropWhile_weaker:
  "(\<And>c. p c \<Longrightarrow> q c) \<Longrightarrow> dropWhile q (dropWhile p xs) = dropWhile q xs"
  by (induction xs) auto

lemma sublist_dropWhile: "sublist (dropWhile p xs) xs"
  by (metis dropWhile_eq_drop sublist_drop)

lemma sublist_dropWhile_mono:
  assumes "\<And>c. p c \<Longrightarrow> q c"
  shows "sublist (dropWhile q xs) (dropWhile p xs)"
  by (subst dropWhile_dropWhile_weaker [OF assms, symmetric]) (auto intro: sublist_dropWhile)

lemma TrimSpace_in_trim: "sublist (TrimSpace s) (trim s)"
proof -
  let ?j = "dropWhile is_space s" and ?g = "dropWhile go_space s"
  have "?g = dropWhile go_space ?j"
    by (rule dropWhile_dropWhile_weaker [symmetric]) (rule is_space_go_space)
  then obtain k where g: "?g = drop k ?j" by (metis dropWhile_eq_drop)
  have t: "trim s = rev (dropWhile is_space (rev ?j))" by (simp add: trim_def trimEnd_def trimStart_def)
  show ?thesis
  proof (cases "TrimSpace s = []")
    case False
    have "sublist (rev (dropWhile go_space (rev ?g))) (rev (dropWhile go_space (rev ?j)))"
    proof -
      have j: "?j = take k ?j @ ?g" by (simp add: g)
      have "dropWhile go_space (rev ?g) \<noteq> []" using False by (simp add: TrimSpace_def)
      then have "dropWhile go_space (rev ?g @ rev (take k ?j)) =
          dropWhile go_space (rev ?g) @ rev (take k ?j)"
        by (subst dropWhile_append) auto
      then have "dropWhile go_space (rev ?j) = dropWhile go_space (rev ?g) @ rev (take k ?j)"
        by (metis j rev_append)
      then show ?thesis by (simp add: sublist_rev)
    qed
    moreover have "sublist (rev (dropWhile go_space (rev ?j))) (rev (dropWhile is_space (rev ?j)))"
      by (simp add: sublist_rev sublist_dropWhile_mono is_space_go_space)
    ultimately show ?thesis unfolding t TrimSpace_def by (rule sublist_order.order.trans)
  qed simp
qed

lemma split_on_ne [simp]: "split_on c s \<noteq> []"
  by (induction s) (auto split: list.splits)

lemma join_Cons: "xs \<noteq> [] \<Longrightarrow> join sep (x # xs) = x @ sep @ join sep xs"
  by (cases xs) auto

text \<open>\<open>s.split(c).join(c)\<close> is \<open>s\<close>.\<close>

lemma join_split_on [simp]: "join [c] (split_on c s) = s"
proof (induction s)
  case Nil
  show ?case by simp
next
  case (Cons x xs)
  show ?case
  proof (cases "x = c")
    case True
    with Cons show ?thesis by (simp add: join_Cons)
  next
    case False
    obtain y ys where y: "split_on c xs = y # ys"
      using split_on_ne by (meson list.exhaust)
    with Cons have "join [c] (y # ys) = xs" by simp
    then have "join [c] ((x # y) # ys) = x # xs" by (cases ys) auto
    with False y show ?thesis by simp
  qed
qed

lemma split_on_no_sep: "c \<notin> set s \<Longrightarrow> split_on c s = [s]"
  by (induction s) auto

lemma split_on_append:
  "c \<notin> set s \<Longrightarrow> split_on c (s @ c # t) = s # split_on c t"
  by (induction s) auto

text \<open>Splitting what was joined gives the parts back when none holds the separator.\<close>

lemma split_on_join:
  "xs \<noteq> [] \<Longrightarrow> (\<forall>x \<in> set xs. c \<notin> set x) \<Longrightarrow> split_on c (join [c] xs) = xs"
proof (induction "[c]" xs rule: join.induct)
  case (3 x y xs)
  then show ?case using split_on_append [of c x "join [c] (y # xs)"] by simp
qed (auto simp: split_on_no_sep)

lemma map_of_obj_set [js_object]: "map_of (obj_set k v ob) = (map_of ob)(k \<mapsto> v)"
  by (induction ob) (auto simp: fun_eq_iff)

lemma obj_set_keys [js_object]: "fst ` set (obj_set k v ob) = insert k (fst ` set ob)"
  by (induction k v ob rule: obj_set.induct) (auto simp: image_iff)

lemma distinct_obj_set [js_object]:
  "distinct (map fst ob) \<Longrightarrow> distinct (map fst (obj_set k v ob))"
  by (induction ob) (auto simp: obj_set_keys)

lemma obj_spread_Nil [simp]: "obj_spread a [] = a"
  by (simp add: obj_spread_def)

lemma map_of_obj_spread [js_object]:
  "distinct (map fst b) \<Longrightarrow> map_of (obj_spread a b) = map_of a ++ map_of b"
proof (induction b arbitrary: a)
  case Nil
  show ?case by simp
next
  case (Cons p b)
  obtain k v where p: "p = (k, v)" by (cases p)
  have "map_of (obj_spread a (p # b)) = map_of (obj_set k v a) ++ map_of b"
    using Cons p by (simp add: obj_spread_def)
  also have "\<dots> = map_of a ++ map_of (p # b)"
    using Cons.prems p
    by (auto simp: map_of_obj_set fun_eq_iff map_add_def map_of_eq_None_iff [symmetric]
        split: option.splits)
  finally show ?case .
qed

section \<open>Facts about numbers as text\<close>

lemma digit_char_numeral [js_eval]:
  "digit_char 0 = CHR ''0''" "digit_char 1 = CHR ''1''" "digit_char (Suc 0) = CHR ''1''"
  "digit_char 2 = CHR ''2''" "digit_char 3 = CHR ''3''" "digit_char 4 = CHR ''4''"
  "digit_char 5 = CHR ''5''" "digit_char 6 = CHR ''6''" "digit_char 7 = CHR ''7''"
  "digit_char 8 = CHR ''8''" "digit_char 9 = CHR ''9''"
  by (simp_all add: digit_char_def char_of_eq_iff take_bit_eq_mod)

lemma show_nat_eval [js_eval]:
  "n < 10 \<Longrightarrow> show_nat n = [digit_char n]"
  "\<not> n < 10 \<Longrightarrow> show_nat n = show_nat (n div 10) @ [digit_char (n mod 10)]"
  by (subst show_nat.simps; simp)+

declare Let_def [js_eval]

lemma of_char_digit_char: "d < 10 \<Longrightarrow> (of_char (digit_char d) :: nat) = 48 + d"
  by (simp add: digit_char_def)

lemma is_digit_digit_char [simp]: "d < 10 \<Longrightarrow> is_digit (digit_char d)"
  by (simp add: is_digit_def of_char_digit_char Let_def)

lemma show_nat_ne [simp]: "show_nat n \<noteq> []"
  by (subst show_nat.simps) simp

lemma show_nat_digits: "c \<in> set (show_nat n) \<Longrightarrow> is_digit c"
proof (induction n rule: show_nat.induct)
  case (1 n)
  then show ?case by (subst (asm) (2) show_nat.simps) (auto split: if_splits)
qed

lemma read_nat_acc_append:
  "read_nat_acc a (s @ t) = Option.bind (read_nat_acc a s) (\<lambda>b. read_nat_acc b t)"
  by (induction s arbitrary: a) auto

lemma read_nat_acc_show_nat: "read_nat_acc 0 (show_nat n) = Some n"
proof (induction n rule: show_nat.induct)
  case (1 n)
  show ?case
  proof (cases "n < 10")
    case True
    then show ?thesis by (subst show_nat.simps) (simp add: of_char_digit_char)
  next
    case False
    with 1 have "read_nat_acc 0 (show_nat (n div 10)) = Some (n div 10)" by simp
    with False show ?thesis
      by (subst show_nat.simps) (simp add: read_nat_acc_append of_char_digit_char)
  qed
qed

lemma read_show_nat [simp]: "read_nat (show_nat n) = Some n"
  by (simp add: read_nat_def read_nat_acc_show_nat)

lemma show_nat_inj: "show_nat m = show_nat n \<longleftrightarrow> m = n"
  by (metis option.inject read_show_nat)

section \<open>Facts about lists\<close>

lemma rel_index_le: "rel_index n i \<le> n"
  by (auto simp: rel_index_def)

lemma slice_from_neg: "0 < k \<Longrightarrow> slice_from xs (- int k) = drop (length xs - k) xs"
  by (simp add: slice_from_def rel_index_def nat_minus_as_int)

lemma slice_take: "slice xs 0 (int n) = take n xs"
  by (simp add: slice_def rel_index_def min_def)

lemma rev_slice_from_neg: "0 < k \<Longrightarrow> rev (slice_from xs (- int k)) = take k (rev xs)"
  by (cases "k \<le> length xs") (simp_all add: slice_from_neg rev_drop)

lemma find_append_first:
  "(\<forall>y \<in> set ys. \<not> p y) \<Longrightarrow> p x \<Longrightarrow> find p (ys @ x # zs) = Some x"
  by (induction ys) auto

lemma find_Some_split:
  "find p xs = Some x \<Longrightarrow> \<exists>ys zs. xs = ys @ x # zs \<and> p x \<and> (\<forall>y \<in> set ys. \<not> p y)"
proof (induction xs)
  case (Cons a xs)
  show ?case
  proof (cases "p a")
    case True
    with Cons.prems have "a # xs = [] @ x # xs \<and> p x" by simp
    then show ?thesis by (metis empty_iff empty_set)
  next
    case False
    with Cons obtain ys zs where "xs = ys @ x # zs" "p x" "\<forall>y \<in> set ys. \<not> p y" by auto
    with False have "a # xs = (a # ys) @ x # zs \<and> p x \<and> (\<forall>y \<in> set (a # ys). \<not> p y)" by simp
    then show ?thesis by blast
  qed
qed simp

lemma findIndex_ge: "- 1 \<le> findIndex p xs"
  by (induction xs) (auto simp: Let_def)

lemma findIndex_lt: "findIndex p xs < int (length xs)"
  by (induction xs) (auto simp: Let_def)

lemma findIndex_neg: "findIndex p xs < 0 \<longleftrightarrow> (\<forall>x \<in> set xs. \<not> p x)"
  using findIndex_ge by (induction xs) (auto simp: Let_def)

lemma findIndex_split:
  "(\<forall>y \<in> set ys. \<not> p y) \<Longrightarrow> p x \<Longrightarrow> findIndex p (ys @ x # zs) = int (length ys)"
  by (induction ys) (auto simp: Let_def)

lemma at_index_nat: "at_index xs (int n) = (if n < length xs then Some (xs ! n) else None)"
  by (simp add: at_index_def)

end
