(* ===== verification/JS_Date.thy ===== *)
theory JS_Date
  imports Prelude
begin

text \<open>
  JavaScript dates as the sources use them: a time value in milliseconds since
  1970-01-01T00:00:00Z, \<open>toISOString\<close>, and \<open>Date.parse\<close> on the ISO 8601 format
  (\<open>YYYY-MM-DD\<close>, or date and time with fractional seconds and \<open>Z\<close> or an offset) that the
  server's timestamps and \<open>toISOString\<close> produce. Fractions finer than a millisecond are
  truncated. A string in another format, whose reading is implementation-defined or depends
  on the local time zone, parses to \<^const>\<open>None\<close>, JavaScript's invalid date.
\<close>

section \<open>Calendar\<close>

definition leap :: "int \<Rightarrow> bool" where
  "leap y \<longleftrightarrow> y mod 4 = 0 \<and> (y mod 100 \<noteq> 0 \<or> y mod 400 = 0)"

text \<open>Days from 0000-01-01 to the first day of year \<open>y\<close>.\<close>

definition days_before_year :: "int \<Rightarrow> int" where
  "days_before_year y = 365 * y + (y + 3) div 4 - (y + 99) div 100 + (y + 399) div 400"

definition month_lengths :: "int \<Rightarrow> int list" where
  "month_lengths y = [31, if leap y then 29 else 28, 31, 30, 31, 30, 31, 31, 30, 31, 30, 31]"

definition epoch_days :: int where
  "epoch_days = 719528"

definition year_of :: "int \<Rightarrow> int" where
  "year_of n = (let y = (400 * n) div 146097 in
     if days_before_year (y + 1) \<le> n then y + 1
     else if n < days_before_year y then y - 1 else y)"

text \<open>Month (from 0) and day (from 0) of a day of the year.\<close>

fun month_day :: "int list \<Rightarrow> int \<Rightarrow> nat \<times> int" where
  "month_day [] d = (0, d)"
| "month_day (l # ls) d = (if d < l then (0, d) else (let (m, k) = month_day ls (d - l) in (Suc m, k)))"

section \<open>Formatting\<close>

definition pad :: "nat \<Rightarrow> nat \<Rightarrow> string" where
  "pad w n = (let s = show_nat n in replicate (w - length s) CHR ''0'' @ s)"

text \<open>\<open>Date.prototype.toISOString\<close> for the years 0 to 9999.\<close>

definition toISOString :: "int \<Rightarrow> string" where
  "toISOString t =
     (let n = t div 86400000 + epoch_days; ms = t mod 86400000;
          y = year_of n; (m, d) = month_day (month_lengths y) (n - days_before_year y)
      in pad 4 (nat y) @ ''-'' @ pad 2 (m + 1) @ ''-'' @ pad 2 (nat d + 1) @ ''T'' @
         pad 2 (nat (ms div 3600000)) @ '':'' @ pad 2 (nat (ms div 60000 mod 60)) @ '':'' @
         pad 2 (nat (ms div 1000 mod 60)) @ ''.'' @ pad 3 (nat (ms mod 1000)) @ ''Z'')"

section \<open>Parsing\<close>

text \<open>Exactly \<open>w\<close> digits, then the rest.\<close>

definition digits :: "nat \<Rightarrow> string \<Rightarrow> (nat \<times> string) option" where
  "digits w s = (if length s < w then None
     else map_option (\<lambda>n. (n, drop w s)) (read_nat (take w s)))"

definition expect :: "char \<Rightarrow> string \<Rightarrow> string option" where
  "expect c s = (case s of [] \<Rightarrow> None | x # r \<Rightarrow> if x = c then Some r else None)"

definition valid_date :: "nat \<Rightarrow> nat \<Rightarrow> nat \<Rightarrow> bool" where
  "valid_date y m d \<longleftrightarrow> 1 \<le> m \<and> m \<le> 12 \<and> 1 \<le> d \<and> int d \<le> month_lengths (int y) ! (m - 1)"

definition days_of :: "nat \<Rightarrow> nat \<Rightarrow> nat \<Rightarrow> int" where
  "days_of y m d = days_before_year (int y) + sum_list (take (m - 1) (month_lengths (int y)))
     + int d - 1 - epoch_days"

text \<open>The fraction of a second in milliseconds: the first three digits, padded.\<close>

definition fraction_ms :: "string \<Rightarrow> int option" where
  "fraction_ms ds = (if ds = [] then None
     else map_option int (read_nat (take 3 (ds @ ''00''))))"

definition parse_zone :: "string \<Rightarrow> int option" where
  "parse_zone s =
     (if s = ''Z'' then Some 0
      else case s of
        [] \<Rightarrow> None
      | sg # r \<Rightarrow>
          if sg = CHR ''+'' \<or> sg = CHR ''-'' then
            Option.bind (digits 2 r) (\<lambda>(h, r).
            Option.bind (expect CHR '':'' r) (\<lambda>r.
            Option.bind (digits 2 r) (\<lambda>(m, r).
            if r = [] \<and> h < 24 \<and> m < 60
            then Some ((if sg = CHR ''+'' then 1 else - 1) * int (h * 60 + m) * 60000) else None)))
          else None)"

definition parse_date_part :: "string \<Rightarrow> (int \<times> string) option" where
  "parse_date_part s =
     Option.bind (digits 4 s) (\<lambda>(y, s). Option.bind (expect CHR ''-'' s) (\<lambda>s.
     Option.bind (digits 2 s) (\<lambda>(m, s). Option.bind (expect CHR ''-'' s) (\<lambda>s.
     Option.bind (digits 2 s) (\<lambda>(d, s).
     if valid_date y m d then Some (days_of y m d, s) else None)))))"

definition parse_time_part :: "string \<Rightarrow> (int \<times> string) option" where
  "parse_time_part s =
     Option.bind (digits 2 s) (\<lambda>(h, s). Option.bind (expect CHR '':'' s) (\<lambda>s.
     Option.bind (digits 2 s) (\<lambda>(m, s). Option.bind (expect CHR '':'' s) (\<lambda>s.
     Option.bind (digits 2 s) (\<lambda>(sec, s).
     let base = int ((h * 60 + m) * 60 + sec) * 1000 in
     if 24 \<le> h \<or> 60 \<le> m \<or> 60 \<le> sec then None
     else case expect CHR ''.'' s of
       None \<Rightarrow> Some (base, s)
     | Some s \<Rightarrow> map_option (\<lambda>f. (base + f, dropWhile is_digit s)) (fraction_ms (takeWhile is_digit s)))))))"

definition Date_parse :: "string \<Rightarrow> int option" where
  "Date_parse s = Option.bind (parse_date_part s) (\<lambda>(days, s).
     if s = [] then Some (days * 86400000)
     else Option.bind (expect CHR ''T'' s) (\<lambda>s.
          Option.bind (parse_time_part s) (\<lambda>(ms, s).
          Option.bind (parse_zone s) (\<lambda>off. Some (days * 86400000 + ms - off)))))"

section \<open>Formatting and parsing agree\<close>

lemma int_div_bounds: "0 < k \<Longrightarrow> k * (x div k) \<le> x \<and> x < k * (x div k) + (k :: int)"
  by (metis add.commute le_add_same_cancel2 mult_div_mod_eq pos_mod_bound pos_mod_sign add_less_cancel_left)

lemma days_before_year_bounds:
  "146097 * y - 399 \<le> 400 * days_before_year y \<and> 400 * days_before_year y \<le> 146097 * y + 699"
  using int_div_bounds [of 4 "y + 3"] int_div_bounds [of 100 "y + 99"] int_div_bounds [of 400 "y + 399"]
  by (simp add: days_before_year_def)

lemma year_of_bounds:
  "days_before_year (year_of n) \<le> n \<and> n < days_before_year (year_of n + 1)"
proof -
  define y where "y = (400 * n) div 146097"
  have y: "146097 * y \<le> 400 * n" "400 * n < 146097 * y + 146097"
    using int_div_bounds [of 146097 "400 * n"] by (simp_all add: y_def)
  have "days_before_year (y - 1) \<le> n" "n < days_before_year (y + 2)"
    using y days_before_year_bounds [of "y - 1"] days_before_year_bounds [of "y + 2"] by simp_all
  then show ?thesis by (auto simp: year_of_def y_def [symmetric] Let_def add.assoc)
qed

lemma div_Suc_step:
  assumes k: "k = j + 1" "0 < (k :: int)"
  shows "(y + k) div k = (y + j) div k + (if y mod k = 0 then 1 else 0)"
proof -
  have r: "0 \<le> y mod k" "y mod k < k" using k(2) by simp_all
  have "(y + j) div k = (k * (y div k) + (y mod k + j)) div k" by (simp only: add.assoc [symmetric] mult_div_mod_eq)
  also have "\<dots> = y div k + (y mod k + j) div k" using k(2) by (intro div_mult_self4) simp
  also have "(y mod k + j) div k = (if y mod k = 0 then 0 else 1)"
  proof (cases "y mod k = 0")
    case True
    with k have "(y mod k + j) div k = 0" by (intro div_pos_pos_trivial) auto
    with True show ?thesis by simp
  next
    case False
    have "(y mod k + j) div k = (y mod k - 1 + k) div k" by (simp only: k(1)) (simp add: algebra_simps)
    also have "\<dots> = (y mod k - 1) div k + 1" using k by (intro div_add_self2) simp
    also have "(y mod k - 1) div k = 0" using r False by (intro div_pos_pos_trivial) auto
    finally show ?thesis using False by (simp only: if_False)
  qed
  moreover have "(y + k) div k = y div k + 1" using k(2) by (intro div_add_self2) simp
  ultimately show ?thesis by (simp split: if_split)
qed

lemma leap_count:
  "(p400 \<Longrightarrow> p100) \<Longrightarrow> (p100 \<Longrightarrow> p4) \<Longrightarrow>
     (if p4 \<and> (\<not> p100 \<or> p400) then 1 else 0) =
     (if p4 then 1 else 0) - (if p100 then 1 else 0) + (if p400 then 1 else (0 :: int))"
  by (cases p400; cases p100; cases p4) simp_all

lemma days_before_year_Suc:
  "days_before_year (y + 1) - days_before_year y = (if leap y then 366 else 365)"
proof -
  have d1: "100 dvd y" if "400 dvd y"
    by (rule dvd_trans [OF _ that]) simp
  have d2: "4 dvd y" if "100 dvd y"
    by (rule dvd_trans [OF _ that]) simp
  have l: "(if leap y then 1 else 0) = (if y mod 4 = 0 then 1 else 0)
      - (if y mod 100 = 0 then 1 else 0) + (if y mod 400 = 0 then 1 else (0 :: int))"
    unfolding leap_def dvd_eq_mod_eq_0 [symmetric] by (rule leap_count [OF d1 d2])
  have e: "days_before_year (y + 1) =
      365 * y + 365 + (y + 4) div 4 - (y + 100) div 100 + (y + 400) div 400"
    by (simp add: days_before_year_def add.assoc)
  have q: "(y + 4) div 4 = (y + 3) div 4 + (if y mod 4 = 0 then 1 else 0)"
      "(y + 100) div 100 = (y + 99) div 100 + (if y mod 100 = 0 then 1 else 0)"
      "(y + 400) div 400 = (y + 399) div 400 + (if y mod 400 = 0 then 1 else 0)"
    by (rule div_Suc_step; simp)+
  have "days_before_year (y + 1) - days_before_year y = 365 + ((if y mod 4 = 0 then 1 else 0)
      - (if y mod 100 = 0 then 1 else 0) + (if y mod 400 = 0 then 1 else 0))"
    unfolding e q days_before_year_def [of y] by (simp only: algebra_simps)
  then show ?thesis unfolding l [symmetric] by (simp only: split: if_split) simp
qed

lemma month_day_split:
  "0 \<le> d \<Longrightarrow> d < sum_list ls \<Longrightarrow> month_day ls d = (m, k) \<Longrightarrow>
     m < length ls \<and> 0 \<le> k \<and> k < ls ! m \<and> sum_list (take m ls) + k = d"
proof (induction ls arbitrary: d m)
  case (Cons l ls)
  show ?case
  proof (cases "d < l")
    case False
    then obtain m' where m: "m = Suc m'" "month_day ls (d - l) = (m', k)"
      using Cons.prems(3) by (auto split: prod.splits)
    from Cons.IH [OF _ _ m(2)] Cons.prems False show ?thesis by (simp add: m(1))
  qed (use Cons.prems in auto)
qed simp

lemma sum_month_lengths: "sum_list (month_lengths y) = (if leap y then 366 else 365)"
  by (simp add: month_lengths_def)

lemma length_month_lengths [simp]: "length (month_lengths y) = 12"
  by (simp add: month_lengths_def)

lemma length_show_nat: "0 < w \<Longrightarrow> n < 10 ^ w \<Longrightarrow> length (show_nat n) \<le> w"
proof (induction n arbitrary: w rule: show_nat.induct)
  case (1 n)
  show ?case
  proof (cases "n < 10")
    case True
    with "1.prems" show ?thesis by (subst show_nat.simps) simp
  next
    case False
    with "1.prems" obtain w' where w: "w = Suc w'" "0 < w'"
      by (cases w; cases "w - 1") auto
    with "1.prems" have "n div 10 < 10 ^ w'" by auto
    from "1.IH" [OF False w(2) this] False w show ?thesis by (subst show_nat.simps) simp
  qed
qed

lemma read_nat_acc_zeros: "read_nat_acc 0 (replicate k CHR ''0'' @ s) = read_nat_acc 0 s"
  by (induction k) (simp_all add: is_digit_def)

lemma digits_pad [simp]: "0 < w \<Longrightarrow> n < 10 ^ w \<Longrightarrow> digits w (pad w n @ r) = Some (n, r)"
proof -
  assume w: "0 < w" "n < 10 ^ w"
  from length_show_nat [OF this] have l: "length (pad w n) = w" by (simp add: pad_def Let_def)
  moreover have "read_nat (pad w n) = Some n"
    using show_nat_ne [of n]
    by (auto simp: pad_def read_nat_def Let_def read_nat_acc_zeros read_nat_acc_show_nat)
  ultimately show ?thesis by (simp add: digits_def)
qed

lemma digits_pad_end: "0 < w \<Longrightarrow> n < 10 ^ w \<Longrightarrow> digits w (pad w n) = Some (n, [])"
  using digits_pad [of w n "[]"] by simp

lemma expect_Cons [simp]: "expect c (x # r) = (if x = c then Some r else None)"
  by (simp add: expect_def)

lemma year_of_range:
  assumes "0 \<le> n" "n < 3652425"
  shows "0 \<le> year_of n \<and> year_of n \<le> 9999"
proof -
  note b = year_of_bounds [of n]
  have "0 \<le> year_of n"
  proof (rule ccontr)
    assume "\<not> 0 \<le> year_of n"
    then consider "year_of n + 1 = 0" | "year_of n + 1 \<le> - 1" by linarith
    then have "days_before_year (year_of n + 1) \<le> 0"
      by cases (use days_before_year_bounds [of "year_of n + 1"] in \<open>simp_all add: days_before_year_def\<close>)
    with b assms show False by simp
  qed
  moreover have "year_of n \<le> 9999"
  proof (rule ccontr)
    assume "\<not> year_of n \<le> 9999"
    then consider "year_of n = 10000" | "10001 \<le> year_of n" by linarith
    then have "3652425 \<le> days_before_year (year_of n)"
      by cases (use days_before_year_bounds [of "year_of n"] in \<open>simp_all add: days_before_year_def\<close>)
    with b assms show False by simp
  qed
  ultimately show ?thesis ..
qed

text \<open>The calendar date of a day number, and back.\<close>

lemma civil_roundtrip:
  assumes n: "0 \<le> n" "n < 3652425"
    and md: "month_day (month_lengths (year_of n)) (n - days_before_year (year_of n)) = (m, d)"
  shows "valid_date (nat (year_of n)) (m + 1) (nat d + 1) \<and>
    days_of (nat (year_of n)) (m + 1) (nat d + 1) = n - epoch_days \<and>
    nat (year_of n) < 10 ^ 4 \<and> m + 1 < 10 ^ 2 \<and> nat d + 1 < 10 ^ 2"
proof -
  have y: "0 \<le> year_of n" "year_of n \<le> 9999" using year_of_range [OF n] by auto
  have "n - days_before_year (year_of n) < sum_list (month_lengths (year_of n))"
    using year_of_bounds [of n] days_before_year_Suc [of "year_of n"] by (simp add: sum_month_lengths)
  with year_of_bounds [of n] md have md': "m < 12" "0 \<le> d" "d < month_lengths (year_of n) ! m"
      "sum_list (take m (month_lengths (year_of n))) + d = n - days_before_year (year_of n)"
    by (auto dest!: month_day_split [rotated 2])
  have "\<forall>l \<in> set (month_lengths (year_of n)). l \<le> 31" by (simp add: month_lengths_def)
  with md'(1) have "month_lengths (year_of n) ! m \<le> 31" by simp
  with md' y show ?thesis by (auto simp: valid_date_def days_of_def nat_less_iff)
qed

lemma parse_date_part_pad:
  assumes "valid_date y m d" "y < 10 ^ 4" "m < 10 ^ 2" "d < 10 ^ 2"
  shows "parse_date_part (pad 4 y @ CHR ''-'' # pad 2 m @ CHR ''-'' # pad 2 d @ r) = Some (days_of y m d, r)"
  using assms by (simp add: parse_date_part_def)

lemma takeWhile_digit_pad:
  "takeWhile is_digit (pad w n @ CHR ''Z'' # r) = pad w n \<and>
   dropWhile is_digit (pad w n @ CHR ''Z'' # r) = CHR ''Z'' # r"
proof -
  have "c \<in> set (pad w n) \<Longrightarrow> is_digit c" for c
    by (auto simp: pad_def Let_def is_digit_def split: if_splits dest: show_nat_digits)
  moreover have "\<not> is_digit CHR ''Z''" by (simp add: is_digit_def)
  ultimately show ?thesis by (auto simp: takeWhile_append2 dropWhile_append2)
qed

lemma fraction_ms_pad: "f < 1000 \<Longrightarrow> fraction_ms (pad 3 f) = Some (int f)"
proof -
  assume f: "f < 1000"
  then have d: "digits 3 (pad 3 f) = Some (f, [])" by (intro digits_pad_end) auto
  then have "length (pad 3 f) = 3"
    by (auto simp: digits_def split: if_splits)
  with d show ?thesis by (auto simp: fraction_ms_def digits_def)
qed

lemma parse_time_part_pad:
  assumes "h < 24" "m < 60" "s < 60" "f < 1000"
  shows "parse_time_part (pad 2 h @ '':'' @ pad 2 m @ '':'' @ pad 2 s @ ''.'' @ pad 3 f @ ''Z'') =
    Some (int ((h * 60 + m) * 60 + s) * 1000 + int f, ''Z'')"
proof -
  have "fraction_ms (takeWhile is_digit (pad 3 f @ ''Z'')) = Some (int f)"
    "dropWhile is_digit (pad 3 f @ ''Z'') = ''Z''"
    using takeWhile_digit_pad [of 3 f "[]"] assms by (auto simp: fraction_ms_pad)
  with assms show ?thesis by (simp add: parse_time_part_def Let_def)
qed

lemma hms:
  "((ms div 3600000 * 60 + ms div 60000 mod 60) * 60 + ms div 1000 mod 60) * 1000 + ms mod 1000 = (ms :: int)"
proof -
  have e: "ms div 60000 = ms div 1000 div 60" "ms div 3600000 = ms div 1000 div 60 div 60"
    using zdiv_zmult2_eq [of 60 ms 1000] zdiv_zmult2_eq [of 60 "ms" "60000"] by simp_all
  show ?thesis by (simp only: e div_mult_mod_eq)
qed

lemma int_of_nats:
  "0 \<le> h \<Longrightarrow> 0 \<le> m \<Longrightarrow> 0 \<le> s \<Longrightarrow>
     int ((nat h * 60 + nat m) * 60 + nat s) = (h * 60 + m) * 60 + s"
  by simp

lemma parse_time_part_ms:
  assumes ms: "0 \<le> ms" "ms < 86400000"
  shows "parse_time_part (pad 2 (nat (ms div 3600000)) @ '':'' @ pad 2 (nat (ms div 60000 mod 60)) @ '':'' @
         pad 2 (nat (ms div 1000 mod 60)) @ ''.'' @ pad 3 (nat (ms mod 1000)) @ ''Z'') = Some (ms, ''Z'')"
proof -
  define h m s f where d: "h = ms div 3600000" "m = ms div 60000 mod 60" "s = ms div 1000 mod 60" "f = ms mod 1000"
  have "h < 24" using ms(2) int_div_bounds [of 3600000 ms] unfolding d by linarith
  moreover have "0 \<le> h" using ms(1) unfolding d by (intro pos_imp_zdiv_nonneg_iff [THEN iffD2]) simp_all
  ultimately have r: "0 \<le> h" "h < 24" "0 \<le> m" "m < 60" "0 \<le> s" "s < 60" "0 \<le> f" "f < 1000"
    unfolding d(2,3,4) by simp_all
  have "ms = ((h * 60 + m) * 60 + s) * 1000 + f" using hms [of ms] by (simp only: d)
  moreover have "int ((nat h * 60 + nat m) * 60 + nat s) * 1000 + int (nat f) =
      ((h * 60 + m) * 60 + s) * 1000 + f" using r by simp
  ultimately show ?thesis
    using parse_time_part_pad [of "nat h" "nat m" "nat s" "nat f"] r
    unfolding d [symmetric] by (simp add: nat_less_iff)
qed

lemma Date_parse_toISOString:
  assumes t: "- 62167219200000 \<le> t" "t < 253402300800000"
  shows "Date_parse (toISOString t) = Some t"
proof -
  define n where "n = t div 86400000 + epoch_days"
  define ms where "ms = t mod 86400000"
  obtain m d where md: "month_day (month_lengths (year_of n)) (n - days_before_year (year_of n)) = (m, d)"
    by fastforce
  have n: "0 \<le> n" "n < 3652425" using t by (simp_all add: n_def epoch_days_def)
  have ms: "0 \<le> ms" "ms < 86400000" by (simp_all add: ms_def)
  note civ = civil_roundtrip [OF n md]
  have p: "parse_time_part (pad 2 (nat (ms div 3600000)) @ '':'' @ pad 2 (nat (ms div 60000 mod 60)) @ '':'' @
         pad 2 (nat (ms div 1000 mod 60)) @ ''.'' @ pad 3 (nat (ms mod 1000)) @ ''Z'') = Some (ms, ''Z'')"
    using ms by (rule parse_time_part_ms)
  have "Date_parse (toISOString t) = Some ((n - epoch_days) * 86400000 + ms)"
    unfolding toISOString_def n_def [symmetric] ms_def [symmetric] Let_def md prod.case
    using civ p by (simp add: Date_parse_def parse_date_part_pad parse_zone_def)
  then show ?thesis by (simp add: n_def ms_def)
qed

section \<open>Go's time stamps\<close>

text \<open>
  Go's \<open>time.Time\<close> in UTC is a count of nanoseconds; \<open>encoding/json\<close> writes it in the
  RFC3339Nano layout, whose fraction drops trailing zeros and disappears when it is zero.
\<close>

definition trim_zeros :: "string \<Rightarrow> string" where
  "trim_zeros s = rev (dropWhile (\<lambda>c. c = CHR ''0'') (rev s))"

definition date_time_text :: "int \<Rightarrow> string" where
  "date_time_text sec =
     (let n = sec div 86400 + epoch_days; y = year_of n; r = sec mod 86400;
          (m, d) = month_day (month_lengths y) (n - days_before_year y)
      in pad 4 (nat y) @ ''-'' @ pad 2 (m + 1) @ ''-'' @ pad 2 (nat d + 1) @ ''T'' @
         pad 2 (nat (r div 3600)) @ '':'' @ pad 2 (nat (r div 60 mod 60)) @ '':'' @ pad 2 (nat (r mod 60)))"

definition rfc3339Nano :: "int \<Rightarrow> string" where
  "rfc3339Nano ns =
     (let f = nat (ns mod 1000000000) in
      date_time_text (ns div 1000000000) @ (if f = 0 then [] else ''.'' @ trim_zeros (pad 9 f)) @ ''Z'')"

text \<open>\<open>time.Parse(time.RFC3339Nano, s)\<close>, in nanoseconds.\<close>

definition fraction_ns :: "string \<Rightarrow> int option" where
  "fraction_ns ds = (if ds = [] then None
     else map_option int (read_nat (take 9 (ds @ replicate 8 CHR ''0''))))"

definition parse_time_ns :: "string \<Rightarrow> (int \<times> string) option" where
  "parse_time_ns s =
     Option.bind (digits 2 s) (\<lambda>(h, s). Option.bind (expect CHR '':'' s) (\<lambda>s.
     Option.bind (digits 2 s) (\<lambda>(m, s). Option.bind (expect CHR '':'' s) (\<lambda>s.
     Option.bind (digits 2 s) (\<lambda>(sec, s).
     let base = int ((h * 60 + m) * 60 + sec) * 1000000000 in
     if 24 \<le> h \<or> 60 \<le> m \<or> 60 \<le> sec then None
     else case expect CHR ''.'' s of
       None \<Rightarrow> Some (base, s)
     | Some s \<Rightarrow> map_option (\<lambda>f. (base + f, dropWhile is_digit s)) (fraction_ns (takeWhile is_digit s)))))))"

definition time_Parse :: "string \<Rightarrow> int option" where
  "time_Parse s = Option.bind (parse_date_part s) (\<lambda>(days, s).
     Option.bind (expect CHR ''T'' s) (\<lambda>s.
     Option.bind (parse_time_ns s) (\<lambda>(ns, s).
     Option.bind (parse_zone s) (\<lambda>off. Some (days * 86400000000000 + ns - off * 1000000)))))"

text \<open>Reading digits: the value lies in the interval its prefix fixes.\<close>

lemma read_nat_acc_bounds:
  "read_nat_acc a s = Some v \<Longrightarrow> a * 10 ^ length s \<le> v \<and> v < (a + 1) * 10 ^ length s"
proof (induction s arbitrary: a)
  case (Cons c s)
  then have d: "is_digit c" and r: "read_nat_acc (10 * a + (of_char c - 48)) s = Some v"
    by (auto split: if_splits)
  from d have c: "(of_char c :: nat) - 48 \<le> 9" by (auto simp: is_digit_def Let_def)
  have "(10 * a) * 10 ^ length s \<le> (10 * a + (of_char c - 48)) * 10 ^ length s"
    by (intro mult_le_mono1) simp
  moreover have "(10 * a + (of_char c - 48) + 1) * 10 ^ length s \<le> (10 * a + 10) * 10 ^ length s"
    using c by (intro mult_le_mono1) simp
  ultimately show ?case using Cons.IH [OF r] by (simp add: algebra_simps)
qed simp

lemma read_nat_pad: "0 < w \<Longrightarrow> n < 10 ^ w \<Longrightarrow> read_nat (pad w n) = Some n \<and> length (pad w n) = w"
  using digits_pad_end [of w n] by (auto simp: digits_def split: if_splits)

lemma read_nat_take_pad:
  assumes "f < 1000000000"
  shows "read_nat (take 3 (pad 9 f)) = Some (f div 1000000)"
proof -
  have p: "read_nat (pad 9 f) = Some f" "length (pad 9 f) = 9"
    using read_nat_pad [of 9 f] assms by simp_all
  then have "read_nat_acc 0 (take 3 (pad 9 f) @ drop 3 (pad 9 f)) = Some f"
    by (simp add: read_nat_def split: if_splits)
  then obtain a where a: "read_nat_acc 0 (take 3 (pad 9 f)) = Some a"
    and f: "read_nat_acc a (drop 3 (pad 9 f)) = Some f"
    by (subst (asm) read_nat_acc_append) (auto simp: bind_eq_Some_conv)
  from read_nat_acc_bounds [OF f] p have "a * 1000000 \<le> f \<and> f < (a + 1) * 1000000" by simp
  then have "f div 1000000 = a" by (intro div_nat_eqI) auto
  with a p show ?thesis by (auto simp: read_nat_def)
qed

lemma trim_zeros_split: "\<exists>k. s = trim_zeros s @ replicate k CHR ''0''"
proof -
  let ?z = "\<lambda>c. c = CHR ''0''"
  have "rev s = takeWhile ?z (rev s) @ dropWhile ?z (rev s)" by simp
  then have "s = trim_zeros s @ rev (takeWhile ?z (rev s))"
    unfolding trim_zeros_def by (metis rev_append rev_rev_ident)
  moreover have "takeWhile ?z (rev s) = replicate (length (takeWhile ?z (rev s))) CHR ''0''"
    by (rule replicate_eqI) (auto dest: set_takeWhileD)
  ultimately show ?thesis by (metis rev_replicate)
qed

lemma fraction_trim_zeros:
  assumes f: "f \<noteq> 0" "f < 1000000000"
  shows "fraction_ms (trim_zeros (pad 9 f)) = Some (int (f div 1000000)) \<and>
    (\<forall>c \<in> set (trim_zeros (pad 9 f)). is_digit c)"
proof -
  have p: "read_nat (pad 9 f) = Some f" "length (pad 9 f) = 9"
    using read_nat_pad [of 9 f] f by simp_all
  obtain k where k: "pad 9 f = trim_zeros (pad 9 f) @ replicate k CHR ''0''"
    using trim_zeros_split by blast
  have ne: "trim_zeros (pad 9 f) \<noteq> []"
  proof
    assume "trim_zeros (pad 9 f) = []"
    with k have "pad 9 f = replicate k CHR ''0'' @ []" by simp
    with p(1) f(1) show False using read_nat_acc_zeros [of k "[]"]
      by (auto simp: read_nat_def split: if_splits)
  qed
  have l: "length (trim_zeros (pad 9 f)) + k = 9" using k p(2) by (metis length_append length_replicate)
  have "take 3 (trim_zeros (pad 9 f) @ ''00'') = take 3 (pad 9 f)"
  proof (cases "3 \<le> length (trim_zeros (pad 9 f))")
    case True
    then show ?thesis by (subst (2) k) simp
  next
    case False
    moreover from ne have "0 < length (trim_zeros (pad 9 f))" by simp
    ultimately have "length (trim_zeros (pad 9 f)) = 1 \<and> k = 8 \<or> length (trim_zeros (pad 9 f)) = 2 \<and> k = 7"
      using l by linarith
    then show ?thesis by (subst (2) k) (auto simp: numeral_eq_Suc)
  qed
  moreover have "\<forall>c \<in> set (pad 9 f). is_digit c"
    by (auto simp: pad_def Let_def is_digit_def split: if_splits dest: show_nat_digits)
  ultimately show ?thesis
    using read_nat_take_pad [OF f(2)] ne k by (auto simp: fraction_ms_def) (metis UnI1 set_append)
qed

lemma date_time_text_parts:
  assumes sec: "- 62167219200 \<le> sec" "sec < 253402300800"
  shows "\<exists>y m d h mi s. date_time_text sec =
      pad 4 y @ CHR ''-'' # pad 2 m @ CHR ''-'' # pad 2 d @ CHR ''T'' #
      pad 2 h @ CHR '':'' # pad 2 mi @ CHR '':'' # pad 2 s \<and>
    valid_date y m d \<and> y < 10 ^ 4 \<and> m < 10 ^ 2 \<and> d < 10 ^ 2 \<and> h < 24 \<and> mi < 60 \<and> s < 60 \<and>
    days_of y m d * 86400 + int ((h * 60 + mi) * 60 + s) = sec"
proof -
  define n where "n = sec div 86400 + epoch_days"
  define r where "r = sec mod 86400"
  obtain m d where md: "month_day (month_lengths (year_of n)) (n - days_before_year (year_of n)) = (m, d)"
    by fastforce
  have n: "0 \<le> n" "n < 3652425" using sec by (simp_all add: n_def epoch_days_def)
  note civ = civil_roundtrip [OF n md]
  have r: "0 \<le> r" "r < 86400" by (simp_all add: r_def)
  have q: "r div 3600 = r div 60 div 60" using zdiv_zmult2_eq [of 60 r 60] by simp
  have hms: "(r div 3600 * 60 + r div 60 mod 60) * 60 + r mod 60 = r"
    by (simp only: q div_mult_mod_eq)
  have "r div 3600 < 24" using r(2) int_div_bounds [of 3600 r] by linarith
  moreover have "0 \<le> r div 3600" using r(1) by (intro pos_imp_zdiv_nonneg_iff [THEN iffD2]) simp_all
  ultimately have b: "0 \<le> r div 3600" "r div 3600 < 24" "0 \<le> r div 60 mod 60" "r div 60 mod 60 < 60"
    "0 \<le> r mod 60" "r mod 60 < 60" by simp_all
  have t: "int ((nat (r div 3600) * 60 + nat (r div 60 mod 60)) * 60 + nat (r mod 60)) = r"
    using int_of_nats [OF b(1,3,5)] hms by (rule trans)
  have e: "(n - epoch_days) * 86400 + r = sec" by (simp add: n_def r_def)
  have dt: "date_time_text sec = pad 4 (nat (year_of n)) @ CHR ''-'' # pad 2 (m + 1) @ CHR ''-'' #
      pad 2 (nat d + 1) @ CHR ''T'' # pad 2 (nat (r div 3600)) @ CHR '':'' #
      pad 2 (nat (r div 60 mod 60)) @ CHR '':'' # pad 2 (nat (r mod 60))"
    unfolding date_time_text_def n_def [symmetric] r_def [symmetric] Let_def md by simp
  have lt: "nat (r div 3600) < 24" "nat (r div 60 mod 60) < 60" "nat (r mod 60) < 60"
    using b by (simp_all only: nat_less_iff)
  have "days_of (nat (year_of n)) (m + 1) (nat d + 1) * 86400 +
      int ((nat (r div 3600) * 60 + nat (r div 60 mod 60)) * 60 + nat (r mod 60)) = sec"
    using civ t e by (simp only:)
  with dt civ lt show ?thesis by blast
qed

text \<open>JavaScript reads the server's time stamp as its millisecond.\<close>

lemma Date_parse_rfc3339Nano:
  assumes ns: "- 62167219200000000000 \<le> ns" "ns < 253402300800000000000"
  shows "Date_parse (rfc3339Nano ns) = Some (ns div 1000000)"
proof -
  define sec where "sec = ns div 1000000000"
  define f where "f = nat (ns mod 1000000000)"
  have f: "f < 1000000000" "int f = ns mod 1000000000" by (simp_all add: f_def nat_less_iff)
  have "- 62167219200 \<le> sec" "sec < 253402300800" using ns by (simp_all add: sec_def)
  from date_time_text_parts [OF this] obtain y m d h mi s where dt: "date_time_text sec =
      pad 4 y @ CHR ''-'' # pad 2 m @ CHR ''-'' # pad 2 d @ CHR ''T'' #
      pad 2 h @ CHR '':'' # pad 2 mi @ CHR '':'' # pad 2 s"
    and v: "valid_date y m d" "y < 10 ^ 4" "m < 10 ^ 2" "d < 10 ^ 2" "h < 24" "mi < 60" "s < 60"
    and e: "days_of y m d * 86400 + int ((h * 60 + mi) * 60 + s) = sec" by blast
  have ms: "ns div 1000000 = sec * 1000 + int (f div 1000000)"
  proof -
    have "ns = sec * 1000000000 + int f" by (simp add: sec_def f(2))
    also have "\<dots> = int f + (sec * 1000) * 1000000" by simp
    finally show ?thesis by (simp add: zdiv_int)
  qed
  have p: "parse_time_part (pad 2 h @ CHR '':'' # pad 2 mi @ CHR '':'' # pad 2 s @
      (if f = 0 then [] else ''.'' @ trim_zeros (pad 9 f)) @ ''Z'') =
      Some (int ((h * 60 + mi) * 60 + s) * 1000 + int (f div 1000000), ''Z'')"
  proof (cases "f = 0")
    case True
    with v show ?thesis by (simp add: parse_time_part_def Let_def)
  next
    case False
    note fr = fraction_trim_zeros [OF False f(1)]
    have "\<not> is_digit CHR ''Z''" by (simp add: is_digit_def)
    with fr have "takeWhile is_digit (trim_zeros (pad 9 f) @ ''Z'') = trim_zeros (pad 9 f)"
      "dropWhile is_digit (trim_zeros (pad 9 f) @ ''Z'') = ''Z''" by simp_all
    with False v fr show ?thesis by (simp add: parse_time_part_def Let_def)
  qed
  have "Date_parse (rfc3339Nano ns) =
      Some (days_of y m d * 86400000 + (int ((h * 60 + mi) * 60 + s) * 1000 + int (f div 1000000)))"
    unfolding rfc3339Nano_def sec_def [symmetric] f_def [symmetric] Let_def dt
    using v p by (simp add: Date_parse_def parse_date_part_pad parse_zone_def)
  also have "days_of y m d * 86400000 + (int ((h * 60 + mi) * 60 + s) * 1000 + int (f div 1000000)) =
      (days_of y m d * 86400 + int ((h * 60 + mi) * 60 + s)) * 1000 + int (f div 1000000)"
    by (simp add: algebra_simps)
  also have "\<dots> = ns div 1000000" by (simp only: e ms)
  finally show ?thesis .
qed

lemma read_nat_zeros: "s \<noteq> [] \<Longrightarrow> read_nat s = Some n \<Longrightarrow> read_nat (s @ replicate k CHR ''0'') = Some (n * 10 ^ k)"
proof (induction k)
  case (Suc k)
  then have "read_nat_acc 0 (s @ replicate k CHR ''0'') = Some (n * 10 ^ k)"
    by (simp add: read_nat_def)
  then have "read_nat_acc 0 ((s @ replicate k CHR ''0'') @ ''0'') = Some (n * 10 ^ Suc k)"
    unfolding read_nat_acc_append by (simp add: is_digit_def)
  then show ?case using Suc.prems by (simp add: read_nat_def replicate_append_same)
qed simp

lemma fraction_ns_pad: "f < 1000 \<Longrightarrow> fraction_ns (pad 3 f) = Some (int f * 1000000)"
proof -
  assume f: "f < 1000"
  then have p: "read_nat (pad 3 f) = Some f" "length (pad 3 f) = 3"
    using read_nat_pad [of 3 f] by simp_all
  then have ne: "pad 3 f \<noteq> []" by auto
  have "take 9 (pad 3 f @ replicate 8 CHR ''0'') = pad 3 f @ replicate 6 CHR ''0''"
    using p(2) by (simp add: numeral_eq_Suc)
  with read_nat_zeros [OF ne p(1), of 6] ne show ?thesis by (simp add: fraction_ns_def)
qed

lemma parse_time_ns_ms:
  assumes ms: "0 \<le> ms" "ms < 86400000"
  shows "parse_time_ns (pad 2 (nat (ms div 3600000)) @ '':'' @ pad 2 (nat (ms div 60000 mod 60)) @ '':'' @
         pad 2 (nat (ms div 1000 mod 60)) @ ''.'' @ pad 3 (nat (ms mod 1000)) @ ''Z'') = Some (ms * 1000000, ''Z'')"
proof -
  define h m s f where d: "h = ms div 3600000" "m = ms div 60000 mod 60" "s = ms div 1000 mod 60" "f = ms mod 1000"
  have "h < 24" using ms(2) int_div_bounds [of 3600000 ms] unfolding d by linarith
  moreover have "0 \<le> h" using ms(1) unfolding d by (intro pos_imp_zdiv_nonneg_iff [THEN iffD2]) simp_all
  ultimately have r: "0 \<le> h" "h < 24" "0 \<le> m" "m < 60" "0 \<le> s" "s < 60" "0 \<le> f" "f < 1000"
    unfolding d(2,3,4) by simp_all
  have e: "ms = ((h * 60 + m) * 60 + s) * 1000 + f" using hms [of ms] by (simp only: d)
  have n: "nat h < 24" "nat m < 60" "nat s < 60" "nat f < 1000" using r by (simp_all only: nat_less_iff)
  have "fraction_ns (takeWhile is_digit (pad 3 (nat f) @ ''Z'')) = Some (int (nat f) * 1000000)"
    "dropWhile is_digit (pad 3 (nat f) @ ''Z'') = ''Z''"
    using takeWhile_digit_pad [of 3 "nat f" "[]"] n by (auto simp: fraction_ns_pad)
  then have "parse_time_ns (pad 2 (nat h) @ '':'' @ pad 2 (nat m) @ '':'' @ pad 2 (nat s) @ ''.'' @ pad 3 (nat f) @ ''Z'') =
      Some (int ((nat h * 60 + nat m) * 60 + nat s) * 1000000000 + int (nat f) * 1000000, ''Z'')"
    using n by (simp add: parse_time_ns_def Let_def)
  moreover have "int ((nat h * 60 + nat m) * 60 + nat s) * 1000000000 + int (nat f) * 1000000 = ms * 1000000"
    unfolding int_of_nats [OF r(1,3,5)] using r e by simp
  ultimately show ?thesis unfolding d [symmetric] by simp
qed

text \<open>Go reads JavaScript's time stamp back to the millisecond.\<close>

lemma time_Parse_toISOString:
  assumes t: "- 62167219200000 \<le> t" "t < 253402300800000"
  shows "time_Parse (toISOString t) = Some (t * 1000000)"
proof -
  define n where "n = t div 86400000 + epoch_days"
  define ms where "ms = t mod 86400000"
  obtain m d where md: "month_day (month_lengths (year_of n)) (n - days_before_year (year_of n)) = (m, d)"
    by fastforce
  have n: "0 \<le> n" "n < 3652425" using t by (simp_all add: n_def epoch_days_def)
  have ms: "0 \<le> ms" "ms < 86400000" by (simp_all add: ms_def)
  note civ = civil_roundtrip [OF n md]
  note p = parse_time_ns_ms [OF ms]
  have "time_Parse (toISOString t) = Some ((n - epoch_days) * 86400000000000 + ms * 1000000)"
    unfolding toISOString_def n_def [symmetric] ms_def [symmetric] Let_def md prod.case
    using civ p by (simp add: time_Parse_def parse_date_part_pad parse_zone_def)
  moreover have "t = (n - epoch_days) * 86400000 + ms" by (simp add: n_def ms_def)
  ultimately show ?thesis by simp
qed

lemma pad_digits: "c \<in> set (pad w n) \<Longrightarrow> is_digit c"
  by (auto simp: pad_def Let_def is_digit_def split: if_splits dest: show_nat_digits)

lemma toISOString_not_digits:
  "\<exists>c r. toISOString t = c # r \<and> is_digit c \<and> read_nat (c # r) = None"
proof -
  let ?n = "t div 86400000 + epoch_days"
  obtain m d where md: "month_day (month_lengths (year_of ?n)) (?n - days_before_year (year_of ?n)) = (m, d)"
    by fastforce
  obtain b where ab: "toISOString t = pad 4 (nat (year_of ?n)) @ CHR ''-'' # b"
    unfolding toISOString_def Let_def md by simp
  obtain c r where c: "pad 4 (nat (year_of ?n)) = c # r"
    by (cases "pad 4 (nat (year_of ?n))") (auto simp: pad_def Let_def)
  have dash: "read_nat_acc k (s @ CHR ''-'' # r) = None" for k s r
    by (induction s arbitrary: k) (auto simp: is_digit_def)
  have "read_nat (c # r @ CHR ''-'' # b) = None"
    using dash [of 0 "c # r" b] by (simp add: read_nat_def)
  moreover have "is_digit c" using pad_digits [of c 4 "nat (year_of ?n)"] c by simp
  ultimately show ?thesis using ab c by simp
qed

end
