(* ===== verification/Types.thy ===== *)
theory Types
  imports JS_Date
begin

text \<open>
  The data the SDK exchanges with the server (\<open>packages/client/src/types.ts\<close>). A field
  that TypeScript marks optional, or that the code reads through \<open>?.\<close> or \<open>??\<close>, is an
  \<^typ>\<open>'a option\<close>. A message filter is a JavaScript object with insertion-ordered keys,
  because \<open>describe\<close> prints it in that order and \<open>Inbox\<close> extends it by spreading.
\<close>

section \<open>Messages\<close>

record address =
  a_name :: "string option"
  a_address :: string

record attachment =
  at_id :: string
  at_filename :: string
  at_contentType :: string
  at_contentId :: "string option"
  at_inline :: bool
  at_size :: int

record link =
  l_text :: string
  l_href :: string

record envelope =
  env_from :: string
  env_to :: "string list"

record message_summary =
  s_id :: string
  s_from :: address
  s_to :: "address list"
  s_cc :: "address list"
  s_subject :: string
  s_envelope :: "envelope option"
  s_attachments :: int
  s_size :: int
  s_createdAt :: string

record message_data =
  d_id :: string
  d_messageId :: "string option"
  d_from :: address
  d_to :: "address list option"
  d_cc :: "address list option"
  d_replyTo :: "address list option"
  d_subject :: string
  d_date :: "string option"
  d_text :: "string option"
  d_html :: "string option"
  d_headers :: "(string \<times> string list) list option"
  d_attachments :: "attachment list option"
  d_links :: "link list option"
  d_envelope :: "envelope option"
  d_size :: int
  d_createdAt :: string

section \<open>Filters and options\<close>

datatype fkey = K_to | K_address | K_from | K_subject | K_body | K_q | K_since

text \<open>A filter value: text, a Date (its time value), a number, or an explicit \<open>undefined\<close>.\<close>

datatype fval = FStr string | FDate int | FNum int | FUndef

type_synonym message_filter = "(fkey \<times> fval) list"

definition fget :: "message_filter \<Rightarrow> fkey \<Rightarrow> fval" where
  [js_eval]: "fget f k = (case map_of f k of None \<Rightarrow> FUndef | Some v \<Rightarrow> v)"

text \<open>A text field of the filter; the text keys never hold a Date or a number.\<close>

definition fstr :: "message_filter \<Rightarrow> fkey \<Rightarrow> string option" where
  [js_eval]: "fstr f k = (case fget f k of FStr s \<Rightarrow> Some s | _ \<Rightarrow> None)"

text \<open>The field when it is truthy, that is present and not the empty string.\<close>

definition ftruthy :: "message_filter \<Rightarrow> fkey \<Rightarrow> string option" where
  [js_eval]: "ftruthy f k = (case fstr f k of None \<Rightarrow> None | Some s \<Rightarrow> if s = [] then None else Some s)"

datatype stage = Rcpt | Data

record failure_options =
  fo_stage :: "stage option"
  fo_code :: "int option"
  fo_message :: "string option"
  fo_address :: "string option"
  fo_count :: "int option"

record smtp_failure =
  sf_id :: string
  sf_stage :: stage
  sf_code :: int
  sf_message :: string
  sf_address :: "string option"
  sf_remaining :: int

record store_stats =
  ss_messages :: int
  ss_bytes :: int
  ss_evicted :: int

record server_info =
  si_version :: string
  si_smtpPort :: int
  si_httpPort :: int
  si_maxMessages :: int
  si_maxMessageSize :: int
  si_maxStoreSize :: int
  si_smtpAuth :: bool
  si_uiAuth :: bool
  si_store :: "store_stats option"

text \<open>\<open>WaitOptions\<close>: the filter's keys, the deadline and the caller's abort signal.\<close>

record wait_options =
  w_filter :: message_filter
  w_timeout :: "int option"
  w_signal :: bool

lemma fget_Nil [simp]: "fget [] k = FUndef"
  by (simp add: fget_def)

lemma fget_obj_set: "fget (obj_set k v f) k' = (if k = k' then v else fget f k')"
  by (simp add: fget_def map_of_obj_set)

lemma fstr_obj_set: "fstr (obj_set k v f) k' =
    (if k = k' then (case v of FStr s \<Rightarrow> Some s | _ \<Rightarrow> None) else fstr f k')"
  by (simp add: fstr_def fget_obj_set)

lemma ftruthy_obj_set: "ftruthy (obj_set k (FStr s) f) k' =
    (if k = k' then (if s = [] then None else Some s) else ftruthy f k')"
  by (simp add: ftruthy_def fstr_obj_set)

end
