(* ===== verification/JS_Regex.thy ===== *)
theory JS_Regex
  imports Prelude
begin

text \<open>
  The regular expressions of the sources, with ECMAScript's backtracking semantics. A
  pattern is a term of type \<open>regex\<close>; \<open>rmatch\<close> lists every way the pattern can match at a
  position, in the order a backtracking matcher tries them, so the first element is the
  match JavaScript reports. The matcher's state is a zipper: the text before the position
  (reversed), the text after it, and the captured groups.

  \<open>segments\<close> is the scan behind \<open>matchAll\<close> and \<open>replace\<close> with the \<open>g\<close> flag: it cuts the
  input into gaps and matches, and the lemmas show that nothing is lost or reordered.
  \<open>jsregexp\<close> adds the mutable \<open>lastIndex\<close> a caller's RegExp object carries.
\<close>

section \<open>Patterns and their matches\<close>

datatype regex =
    Eps
  | Cls "char \<Rightarrow> bool"
  | Seq regex regex
  | Alt regex regex
  | Quant bool nat "nat option" regex  \<comment> \<open>greedy, minimum, maximum\<close>
  | Grp nat regex
  | BackI nat                          \<comment> \<open>back reference under the i flag\<close>
  | WordB
  | Bol
  | Eol
  | Look regex

datatype mstate = MS (mbefore: string) (mrest: string) (mcaps: "(nat \<times> string) list")

definition wordb :: "mstate \<Rightarrow> bool" where
  "wordb st \<longleftrightarrow>
     (case mbefore st of [] \<Rightarrow> False | c # _ \<Rightarrow> is_word c)
   \<noteq> (case mrest st of [] \<Rightarrow> False | c # _ \<Rightarrow> is_word c)"

definition between :: "mstate \<Rightarrow> mstate \<Rightarrow> string" where
  "between st st' = rev (take (length (mbefore st') - length (mbefore st)) (mbefore st'))"

fun advance :: "nat \<Rightarrow> mstate \<Rightarrow> mstate" where
  "advance n (MS b r cs) = MS (rev (take n r) @ b) (drop n r) cs"

text \<open>The obligatory iterations of a quantifier, then the optional ones, which must
  consume input (ECMAScript's \<open>RepeatMatcher\<close>).\<close>

primrec rep_min :: "nat \<Rightarrow> (mstate \<Rightarrow> mstate list) \<Rightarrow> mstate \<Rightarrow> mstate list" where
  "rep_min 0 m st = [st]"
| "rep_min (Suc n) m st = concat (map (rep_min n m) (m st))"

primrec rep_opt :: "nat \<Rightarrow> bool \<Rightarrow> (mstate \<Rightarrow> mstate list) \<Rightarrow> mstate \<Rightarrow> mstate list" where
  "rep_opt 0 g m st = [st]"
| "rep_opt (Suc n) g m st =
     (let more = concat (map (rep_opt n g m) (filter (\<lambda>st'. mrest st' \<noteq> mrest st) (m st)))
      in if g then more @ [st] else st # more)"

definition quant :: "bool \<Rightarrow> nat \<Rightarrow> nat option \<Rightarrow> (mstate \<Rightarrow> mstate list) \<Rightarrow> mstate \<Rightarrow> mstate list"
  where
  "quant g mn mx m st = concat (map (\<lambda>st'.
     rep_opt (case mx of None \<Rightarrow> length (mrest st') | Some k \<Rightarrow> k - mn) g m st') (rep_min mn m st))"

primrec rmatch :: "regex \<Rightarrow> mstate \<Rightarrow> mstate list" where
  "rmatch Eps = (\<lambda>st. [st])"
| "rmatch (Cls p) = (\<lambda>st. case mrest st of
     [] \<Rightarrow> [] | c # r \<Rightarrow> if p c then [MS (c # mbefore st) r (mcaps st)] else [])"
| "rmatch (Seq a b) = (\<lambda>st. concat (map (rmatch b) (rmatch a st)))"
| "rmatch (Alt a b) = (\<lambda>st. rmatch a st @ rmatch b st)"
| "rmatch (Quant g mn mx a) = quant g mn mx (rmatch a)"
| "rmatch (Grp n a) = (\<lambda>st. map (\<lambda>st'.
     MS (mbefore st') (mrest st') ((n, between st st') # mcaps st')) (rmatch a st))"
| "rmatch (BackI n) = (\<lambda>st. case map_of (mcaps st) n of
     None \<Rightarrow> [st]
   | Some t \<Rightarrow> if length t \<le> length (mrest st) \<and>
                  toLowerCase (take (length t) (mrest st)) = toLowerCase t
               then [advance (length t) st] else [])"
| "rmatch WordB = (\<lambda>st. if wordb st then [st] else [])"
| "rmatch Bol = (\<lambda>st. if mbefore st = [] then [st] else [])"
| "rmatch Eol = (\<lambda>st. if mrest st = [] then [st] else [])"
| "rmatch (Look a) = (\<lambda>st. case rmatch a st of
     [] \<Rightarrow> [] | st' # _ \<Rightarrow> [MS (mbefore st) (mrest st) (mcaps st')])"

subsection \<open>Notation for the patterns of the sources\<close>

definition chr :: "char \<Rightarrow> regex" where
  "chr c = Cls (\<lambda>x. x = c)"

definition chrI :: "char \<Rightarrow> regex" where
  "chrI c = Cls (\<lambda>x. lower_char x = lower_char c)"

definition one_of :: "string \<Rightarrow> regex" where
  "one_of cs = Cls (\<lambda>x. x \<in> set cs)"

definition none_of :: "string \<Rightarrow> regex" where
  "none_of cs = Cls (\<lambda>x. x \<notin> set cs)"

fun seqs :: "regex list \<Rightarrow> regex" where
  "seqs [] = Eps"
| "seqs [r] = r"
| "seqs (r # s # rs) = Seq r (seqs (s # rs))"

fun alts :: "regex list \<Rightarrow> regex" where
  "alts [] = Cls (\<lambda>_. False)"
| "alts [r] = r"
| "alts (r # s # rs) = Alt r (alts (s # rs))"

definition lit :: "string \<Rightarrow> regex" where
  "lit s = seqs (map chr s)"

definition litI :: "string \<Rightarrow> regex" where
  "litI s = seqs (map chrI s)"

abbreviation star :: "regex \<Rightarrow> regex" where "star \<equiv> Quant True 0 None"
abbreviation lazy_star :: "regex \<Rightarrow> regex" where "lazy_star \<equiv> Quant False 0 None"
abbreviation plus :: "regex \<Rightarrow> regex" where "plus \<equiv> Quant True (Suc 0) None"
abbreviation opt :: "regex \<Rightarrow> regex" where "opt \<equiv> Quant True 0 (Some 1)"
abbreviation rep :: "nat \<Rightarrow> nat \<Rightarrow> regex \<Rightarrow> regex" where "rep m n \<equiv> Quant True m (Some n)"
abbreviation space_class :: regex where "space_class \<equiv> Cls is_space"
abbreviation digit_class :: regex where "digit_class \<equiv> Cls is_digit"

section \<open>Searching\<close>

text \<open>One match: where it starts (the text before it), what it matched, its groups.\<close>

record rmatch_result =
  m_text :: string
  m_caps :: "(nat \<times> string) list"

definition m_group :: "rmatch_result \<Rightarrow> nat \<Rightarrow> string option" where
  "m_group m n = map_of (m_caps m) n"

text \<open>
  The first match at or after a position: the skipped text, the match, and the state
  after it. \<open>b\<close> is the text before the position, reversed.
\<close>

fun search :: "regex \<Rightarrow> string \<Rightarrow> string \<Rightarrow> (string \<times> rmatch_result \<times> string \<times> string) option"
  where
  "search re b [] = (case rmatch re (MS b [] []) of
     [] \<Rightarrow> None
   | st # _ \<Rightarrow> Some ([], \<lparr>m_text = between (MS b [] []) st, m_caps = mcaps st\<rparr>,
                   mbefore st, mrest st))"
| "search re b (c # r) = (case rmatch re (MS b (c # r) []) of
     [] \<Rightarrow> (case search re (c # b) r of
             None \<Rightarrow> None
           | Some (skip, m, b', r') \<Rightarrow> Some (c # skip, m, b', r'))
   | st # _ \<Rightarrow> Some ([], \<lparr>m_text = between (MS b (c # r) []) st, m_caps = mcaps st\<rparr>,
                   mbefore st, mrest st))"

text \<open>\<open>s.match(re)\<close> and \<open>re.test(s)\<close> without the g and y flags.\<close>

definition match_first :: "regex \<Rightarrow> string \<Rightarrow> rmatch_result option" where
  "match_first re s = map_option (\<lambda>(_, m, _, _). m) (search re [] s)"

definition test :: "regex \<Rightarrow> string \<Rightarrow> bool" where
  "test re s \<longleftrightarrow> match_first re s \<noteq> None"

section \<open>Matches extend the position\<close>

definition extends :: "mstate \<Rightarrow> mstate \<Rightarrow> bool" where
  "extends st st' \<longleftrightarrow>
     (\<exists>t. mbefore st' = rev t @ mbefore st \<and> mrest st = t @ mrest st')"

lemma extends_refl [simp, intro]: "extends st st"
  by (simp add: extends_def)

lemma extends_trans [trans]: "extends a b \<Longrightarrow> extends b c \<Longrightarrow> extends a c"
  by (fastforce simp: extends_def)

lemma extends_between:
  "extends st st' \<Longrightarrow>
     mbefore st' = rev (between st st') @ mbefore st \<and> mrest st = between st st' @ mrest st'"
  by (auto simp: extends_def between_def)

lemma extends_caps [simp]: "extends st (MS (mbefore st') (mrest st') cs) \<longleftrightarrow> extends st st'"
  by (simp add: extends_def)

lemma between_caps [simp]: "between st (MS (mbefore st') (mrest st') cs) = between st st'"
  by (simp add: between_def)

lemma between_self [simp]: "between st st = []"
  by (simp add: between_def)

lemma between_trans:
  assumes "extends a b" and "extends b c"
  shows "between a c = between a b @ between b c"
  using assms by (auto simp: extends_def between_def)

lemma extends_advance: "n \<le> length (mrest st) \<Longrightarrow> extends st (advance n st)"
  by (cases st) (auto simp: extends_def)

lemma rep_min_extends:
  assumes m: "\<And>st st'. st' \<in> set (m st) \<Longrightarrow> extends st st'"
  shows "st' \<in> set (rep_min n m st) \<Longrightarrow> extends st st'"
  by (induction n arbitrary: st) (auto dest!: m intro: extends_trans)

lemma rep_opt_extends:
  assumes m: "\<And>st st'. st' \<in> set (m st) \<Longrightarrow> extends st st'"
  shows "st' \<in> set (rep_opt n g m st) \<Longrightarrow> extends st st'"
  by (induction n arbitrary: st) (auto simp: Let_def dest!: m intro: extends_trans split: if_splits)

lemma rmatch_extends: "st' \<in> set (rmatch re st) \<Longrightarrow> extends st st'"
proof (induction re arbitrary: st st')
  case (Cls p)
  then show ?case by (auto simp: extends_def split: list.splits if_splits)
next
  case (Seq a b)
  then obtain st1 where "st1 \<in> set (rmatch a st)" "st' \<in> set (rmatch b st1)" by auto
  with Seq.IH show ?case by (blast intro: extends_trans)
next
  case (Quant g mn mx a)
  then show ?case
    by (auto simp: quant_def intro: extends_trans dest!: rep_min_extends [rotated] rep_opt_extends [rotated])
next
  case (BackI n)
  then show ?case by (auto intro: extends_advance split: option.splits if_splits)
next
  case (Look a)
  then show ?case by (auto simp: extends_def split: list.splits)
qed (auto split: if_splits)

section \<open>What a pattern can match\<close>

text \<open>\<open>matched re t\<close>: somewhere, in some context, \<open>re\<close> matches exactly \<open>t\<close>.\<close>

definition matched :: "regex \<Rightarrow> string \<Rightarrow> bool" where
  "matched re t \<longleftrightarrow> (\<exists>st st'. st' \<in> set (rmatch re st) \<and> between st st' = t)"

lemma matchedI: "st' \<in> set (rmatch re st) \<Longrightarrow> matched re (between st st')"
  by (auto simp: matched_def)

lemma matched_Eps: "matched Eps t \<Longrightarrow> t = []"
  by (simp add: matched_def)

lemma matched_Cls: "matched (Cls p) t \<Longrightarrow> \<exists>c. t = [c] \<and> p c"
  by (auto simp: matched_def between_def split: list.splits if_splits)

lemma matched_WordB: "matched WordB t \<Longrightarrow> t = []"
  by (auto simp: matched_def split: if_splits)

lemma matched_Look: "matched (Look a) t \<Longrightarrow> t = []"
  by (auto simp: matched_def between_def split: list.splits)

lemma matched_Alt: "matched (Alt a b) t \<Longrightarrow> matched a t \<or> matched b t"
  by (auto simp: matched_def)

lemma matched_Grp: "matched (Grp n a) t \<Longrightarrow> matched a t"
  by (auto simp: matched_def)

lemma matched_Seq: "matched (Seq a b) t \<Longrightarrow> \<exists>u v. t = u @ v \<and> matched a u \<and> matched b v"
proof -
  assume "matched (Seq a b) t"
  then obtain st st1 st2 where m: "st1 \<in> set (rmatch a st)" "st2 \<in> set (rmatch b st1)"
    and t: "between st st2 = t"
    by (auto simp: matched_def)
  from m have "between st st2 = between st st1 @ between st1 st2"
    by (intro between_trans rmatch_extends)
  with m t show ?thesis by (metis matchedI)
qed

lemma rep_min_matched:
  assumes m: "\<And>st st'. st' \<in> set (m st) \<Longrightarrow> extends st st' \<and> P (between st st')"
  shows "st' \<in> set (rep_min n m st) \<Longrightarrow>
    \<exists>us. between st st' = concat us \<and> (\<forall>u \<in> set us. P u) \<and> length us = n"
proof (induction n arbitrary: st)
  case 0
  then show ?case by auto
next
  case (Suc n)
  then obtain st1 where 1: "st1 \<in> set (m st)" "st' \<in> set (rep_min n m st1)" by auto
  with Suc.IH obtain us where us: "between st1 st' = concat us" "\<forall>u \<in> set us. P u" "length us = n"
    by blast
  from 1 m have "between st st' = between st st1 @ between st1 st'"
    by (intro between_trans) (auto intro: rep_min_extends)
  with us 1 m [of st1 st] have "between st st' = concat (between st st1 # us) \<and>
      (\<forall>u \<in> set (between st st1 # us). P u) \<and> length (between st st1 # us) = Suc n"
    by auto
  then show ?case by blast
qed

lemma rep_opt_matched:
  assumes m: "\<And>st st'. st' \<in> set (m st) \<Longrightarrow> extends st st' \<and> P (between st st')"
  shows "st' \<in> set (rep_opt n g m st) \<Longrightarrow>
    \<exists>us. between st st' = concat us \<and> (\<forall>u \<in> set us. P u) \<and> length us \<le> n"
proof (induction n arbitrary: st)
  case 0
  then show ?case by auto
next
  case (Suc n)
  then consider "st' = st" | st1 where "st1 \<in> set (m st)" "st' \<in> set (rep_opt n g m st1)"
    by (auto simp: Let_def split: if_splits)
  then show ?case
  proof cases
    case 1
    then have "between st st' = concat [] \<and> (\<forall>u \<in> set []. P u) \<and> length ([] :: string list) \<le> Suc n"
      by simp
    then show ?thesis by blast
  next
    case 2
    with Suc.IH obtain us where us: "between st1 st' = concat us" "\<forall>u \<in> set us. P u" "length us \<le> n"
      by blast
    from 2 m have "between st st' = between st st1 @ between st1 st'"
      by (intro between_trans) (auto intro: rep_opt_extends)
    with us 2 m [of st1 st] have "between st st' = concat (between st st1 # us) \<and>
        (\<forall>u \<in> set (between st st1 # us). P u) \<and> length (between st st1 # us) \<le> Suc n"
      by auto
    then show ?thesis by blast
  qed
qed

lemma matched_Quant:
  assumes "matched (Quant g mn mx a) t"
  shows "\<exists>us. t = concat us \<and> (\<forall>u \<in> set us. matched a u) \<and> mn \<le> length us \<and>
    (case mx of None \<Rightarrow> True | Some k \<Rightarrow> length us \<le> max mn k)"
proof -
  have m: "st' \<in> set (rmatch a st) \<Longrightarrow> extends st st' \<and> matched a (between st st')" for st st'
    by (simp add: rmatch_extends matchedI)
  from assms obtain st st1 st2 where 1: "st1 \<in> set (rep_min mn (rmatch a) st)"
    and 2: "st2 \<in> set (rep_opt (case mx of None \<Rightarrow> length (mrest st1) | Some k \<Rightarrow> k - mn) g (rmatch a) st1)"
    and t: "between st st2 = t"
    by (auto simp: matched_def quant_def)
  from rep_min_matched [OF m 1] obtain us where us: "between st st1 = concat us"
    "\<forall>u \<in> set us. matched a u" "length us = mn" by blast
  from rep_opt_matched [OF m 2] obtain vs where vs: "between st1 st2 = concat vs"
    "\<forall>u \<in> set vs. matched a u"
    "length vs \<le> (case mx of None \<Rightarrow> length (mrest st1) | Some k \<Rightarrow> k - mn)" by blast
  have "between st st2 = between st st1 @ between st1 st2"
    using 1 2 by (intro between_trans) (auto intro: rep_min_extends rep_opt_extends dest: rmatch_extends)
  with t us vs have "t = concat (us @ vs) \<and> (\<forall>u \<in> set (us @ vs). matched a u) \<and>
      mn \<le> length (us @ vs) \<and> (case mx of None \<Rightarrow> True | Some k \<Rightarrow> length (us @ vs) \<le> max mn k)"
    by (auto split: option.splits)
  then show ?thesis by blast
qed

text \<open>A quantified character class matches a run of such characters.\<close>

lemma concat_singletons: "(\<forall>u \<in> set us. \<exists>c. u = [c] \<and> p c) \<Longrightarrow>
    length (concat us) = length us \<and> (\<forall>c \<in> set (concat us). p c)"
  by (induction us) auto

lemma matched_Quant_Cls:
  assumes "matched (Quant g mn mx (Cls p)) t"
  shows "(\<forall>c \<in> set t. p c) \<and> mn \<le> length t \<and>
    (case mx of None \<Rightarrow> True | Some k \<Rightarrow> length t \<le> max mn k)"
proof -
  from matched_Quant [OF assms] obtain us where us: "t = concat us"
    "\<forall>u \<in> set us. matched (Cls p) u" "mn \<le> length us"
    "case mx of None \<Rightarrow> True | Some k \<Rightarrow> length us \<le> max mn k" by blast
  from us(2) have "\<forall>u \<in> set us. \<exists>c. u = [c] \<and> p c" by (blast dest: matched_Cls)
  from concat_singletons [OF this] us show ?thesis by (auto split: option.splits)
qed

text \<open>The groups of a pattern, and that a captured text was matched by its group.\<close>

primrec grps :: "regex \<Rightarrow> (nat \<times> regex) set" where
  "grps Eps = {}"
| "grps (Cls p) = {}"
| "grps (Seq a b) = grps a \<union> grps b"
| "grps (Alt a b) = grps a \<union> grps b"
| "grps (Quant g mn mx a) = grps a"
| "grps (Grp n a) = insert (n, a) (grps a)"
| "grps (BackI n) = {}"
| "grps WordB = {}"
| "grps Bol = {}"
| "grps Eol = {}"
| "grps (Look a) = grps a"

definition caps_from :: "(nat \<times> regex) set \<Rightarrow> mstate \<Rightarrow> mstate \<Rightarrow> bool" where
  "caps_from G st st' \<longleftrightarrow>
     (\<forall>(n, t) \<in> set (mcaps st'). (n, t) \<in> set (mcaps st) \<or> (\<exists>a. (n, a) \<in> G \<and> matched a t))"

lemma caps_from_refl [simp]: "caps_from G st st"
  by (auto simp: caps_from_def)

lemma caps_from_trans: "caps_from G a b \<Longrightarrow> caps_from G b c \<Longrightarrow> caps_from G a c"
  by (fastforce simp: caps_from_def)

lemma caps_from_mono: "caps_from G a b \<Longrightarrow> G \<subseteq> H \<Longrightarrow> caps_from H a b"
  by (fastforce simp: caps_from_def)

lemma rep_min_caps:
  assumes m: "\<And>st st'. st' \<in> set (m st) \<Longrightarrow> caps_from G st st'"
  shows "st' \<in> set (rep_min n m st) \<Longrightarrow> caps_from G st st'"
  by (induction n arbitrary: st) (auto dest!: m intro: caps_from_trans)

lemma rep_opt_caps:
  assumes m: "\<And>st st'. st' \<in> set (m st) \<Longrightarrow> caps_from G st st'"
  shows "st' \<in> set (rep_opt n g m st) \<Longrightarrow> caps_from G st st'"
  by (induction n arbitrary: st) (auto simp: Let_def dest!: m intro: caps_from_trans split: if_splits)

lemma rmatch_caps: "st' \<in> set (rmatch re st) \<Longrightarrow> caps_from (grps re) st st'"
proof (induction re arbitrary: st st')
  case (Seq a b)
  then obtain st1 where "st1 \<in> set (rmatch a st)" "st' \<in> set (rmatch b st1)" by auto
  with Seq.IH have "caps_from (grps a) st st1" "caps_from (grps b) st1 st'" by blast+
  then have "caps_from (grps (Seq a b)) st st1" "caps_from (grps (Seq a b)) st1 st'"
    by (auto elim: caps_from_mono)
  then show ?case by (rule caps_from_trans)
next
  case (Alt a b)
  then consider "caps_from (grps a) st st'" | "caps_from (grps b) st st'" by auto
  then show ?case by cases (auto elim: caps_from_mono)
next
  case (Quant g mn mx a)
  then show ?case
    by (auto simp: quant_def intro: caps_from_trans dest!: rep_min_caps [rotated] rep_opt_caps [rotated])
next
  case (Grp n a)
  then obtain st1 where 1: "st1 \<in> set (rmatch a st)"
    and st': "st' = MS (mbefore st1) (mrest st1) ((n, between st st1) # mcaps st1)" by auto
  from Grp.IH [OF 1] have "caps_from (grps (Grp n a)) st st1" by (rule caps_from_mono) auto
  with st' matchedI [OF 1] show ?case by (auto simp: caps_from_def)
next
  case (BackI n)
  then show ?case by (cases st) (auto simp: caps_from_def split: option.splits if_splits)
next
  case (Look a)
  show ?case
  proof (cases "rmatch a st")
    case (Cons st1 sts)
    with Look.prems Look.IH [of st1 st] show ?thesis by (simp add: caps_from_def)
  qed (use Look.prems in simp)
qed (auto simp: caps_from_def split: list.splits if_splits)

section \<open>What a search returns\<close>

lemma search_at:
  "search re b r = Some (skip, m, b', r') \<Longrightarrow>
     \<exists>st. st \<in> set (rmatch re (MS (rev skip @ b) (drop (length skip) r) [])) \<and>
       r = skip @ drop (length skip) r \<and>
       m = \<lparr>m_text = between (MS (rev skip @ b) (drop (length skip) r) []) st, m_caps = mcaps st\<rparr> \<and>
       b' = mbefore st \<and> r' = mrest st"
proof (induction re b r arbitrary: skip rule: search.induct)
  case (1 re b)
  then show ?case by (auto split: list.splits)
next
  case (2 re b c r)
  show ?case
  proof (cases "rmatch re (MS b (c # r) [])")
    case Nil
    with "2.prems" obtain skip' where s: "skip = c # skip'"
      and sr: "search re (c # b) r = Some (skip', m, b', r')"
      by (auto split: option.splits)
    from "2.IH" [OF Nil sr] show ?thesis by (simp add: s)
  next
    case (Cons st sts)
    with "2.prems" show ?thesis by auto
  qed
qed

lemma search_split:
  assumes "search re b r = Some (skip, m, b', r')"
  shows "r = skip @ m_text m @ r' \<and> b' = rev (skip @ m_text m) @ b"
proof -
  let ?r = "drop (length skip) r"
  from search_at [OF assms] obtain st where st: "st \<in> set (rmatch re (MS (rev skip @ b) ?r []))"
    and eq: "r = skip @ ?r" "m_text m = between (MS (rev skip @ b) ?r []) st"
      "b' = mbefore st" "r' = mrest st"
    by auto
  from extends_between [OF rmatch_extends [OF st]] eq
  have "?r = m_text m @ r'" "b' = rev (m_text m) @ rev skip @ b" by auto
  with eq(1) show ?thesis by (metis append.assoc rev_append)
qed

lemma search_matched:
  assumes "search re b r = Some (skip, m, b', r')"
  shows "matched re (m_text m)"
  using search_at [OF assms] by (auto intro: matchedI)

lemma search_group:
  assumes s: "search re b r = Some (skip, m, b', r')" and g: "m_group m n = Some t"
  shows "\<exists>a. (n, a) \<in> grps re \<and> matched a t"
proof -
  from search_at [OF s] obtain st b0 r0 where "st \<in> set (rmatch re (MS b0 r0 []))"
    and m: "m_caps m = mcaps st" by force
  from rmatch_caps [OF this(1)] map_of_SomeD [OF g [unfolded m_group_def m]]
  show ?thesis by (auto simp: caps_from_def)
qed

text \<open>A search fails only when the pattern matches at no position.\<close>

lemma search_None:
  "search re b (x @ y) = None \<Longrightarrow> rmatch re (MS (rev x @ b) y []) = []"
proof (induction x arbitrary: b)
  case Nil
  then show ?case by (cases y) (auto split: list.splits option.splits)
next
  case (Cons c x)
  then have "search re (c # b) (x @ y) = None" by (auto split: list.splits option.splits)
  from Cons.IH [OF this] show ?case by simp
qed

lemma match_first_ne:
  assumes "rmatch re (MS (rev x) y []) \<noteq> []"
  shows "match_first re (x @ y) \<noteq> None"
proof
  assume "match_first re (x @ y) = None"
  then have "search re [] (x @ y) = None" by (simp add: match_first_def)
  from search_None [OF this] assms show False by simp
qed

lemma match_first_includes:
  assumes "match_first re s = Some m"
  shows "includes_str s (m_text m)"
proof -
  from assms obtain skip b' r' where "search re [] s = Some (skip, m, b', r')"
    by (auto simp: match_first_def)
  from search_split [OF this] show ?thesis by (metis includes_str_appendI)
qed

section \<open>Global matching\<close>

text \<open>
  The scan of \<open>matchAll\<close> and of \<open>replace\<close> with the g flag: matches with the gap before
  each, and the text after the last. After an empty match the scan moves on by one code
  unit, which joins the next gap.
\<close>

fun push_gap :: "char \<Rightarrow> (string \<times> 'm) list \<times> string \<Rightarrow> (string \<times> 'm) list \<times> string" where
  "push_gap c ([], tail) = ([], c # tail)"
| "push_gap c ((g, m) # ms, tail) = ((c # g, m) # ms, tail)"

function segments ::
  "regex \<Rightarrow> string \<Rightarrow> string \<Rightarrow> (string \<times> rmatch_result) list \<times> string" where
  "segments re b r = (case search re b r of
     None \<Rightarrow> ([], r)
   | Some (skip, m, b', r') \<Rightarrow>
       (let p =
          (if m_text m = [] then
             (case r' of [] \<Rightarrow> ([], []) | c # r'' \<Rightarrow> push_gap c (segments re (c # b') r''))
           else segments re b' r')
        in ((skip, m) # fst p, snd p)))"
  by pat_completeness auto
termination
proof (relation "measure (\<lambda>(re, b, r). length r)")
  fix re b r a skip y m z b' r'
  assume "search re b r = Some a" "(skip, y) = a" "(m, z) = y" "(b', r') = z" "m_text m \<noteq> []"
  then have "search re b r = Some (skip, m, b', r')" "m_text m \<noteq> []" by auto
  from search_split [OF this(1)] this(2)
  show "((re, b', r'), re, b, r) \<in> measure (\<lambda>(re, b, r). length r)"
    by (auto dest: arg_cong [where f = length])
next
  fix re b r a skip y m z b' r' c r''
  assume "search re b r = Some a" "(skip, y) = a" "(m, z) = y" "(b', r') = z" "r' = c # r''"
  then have "search re b r = Some (skip, m, b', c # r'')" by auto
  from search_split [OF this]
  show "((re, c # b', r''), re, b, r) \<in> measure (\<lambda>(re, b, r). length r)"
    by (auto dest: arg_cong [where f = length])
qed auto

declare segments.simps [simp del]

definition unsegment :: "(string \<times> rmatch_result) list \<times> string \<Rightarrow> string" where
  "unsegment p = concat (map (\<lambda>(g, m). g @ m_text m) (fst p)) @ snd p"

lemma unsegment_push [simp]: "unsegment (push_gap c p) = c # unsegment p"
  by (cases "(c, p)" rule: push_gap.cases) (auto simp: unsegment_def)

lemma unsegment_Cons: "unsegment ((g, m) # fst p, snd p) = g @ m_text m @ unsegment p"
  by (simp add: unsegment_def)

text \<open>Gaps and matches, put back together, are the input.\<close>

lemma segments_lossless: "unsegment (segments re b r) = r"
proof (induction re b r rule: segments.induct)
  case (1 re b r)
  show ?case
  proof (cases "search re b r")
    case None
    then show ?thesis by (subst segments.simps) (simp add: unsegment_def)
  next
    case (Some p)
    then obtain skip m b' r' where s: "search re b r = Some (skip, m, b', r')"
      by (cases p) auto
    note sp = search_split [OF s, THEN conjunct1]
    show ?thesis
    proof (cases "m_text m = []")
      case False
      with "1.IH"(2) [OF s _ _ _ False] have "unsegment (segments re b' r') = r'" by simp
      with False s sp show ?thesis
        by (subst segments.simps) (simp add: unsegment_Cons Let_def)
    next
      case True
      show ?thesis
      proof (cases r')
        case Nil
        with True s sp show ?thesis by (subst segments.simps) (simp add: unsegment_def)
      next
        case (Cons c r'')
        from "1.IH"(1) [OF s _ _ _ True Cons]
        have "unsegment (push_gap c (segments re (c # b') r'')) = c # r''" by simp
        with Cons True s sp show ?thesis
          by (subst segments.simps) (simp add: unsegment_Cons Let_def)
      qed
    qed
  qed
qed

text \<open>\<open>s.matchAll(re)\<close>: each match with its index.\<close>

fun index_from :: "nat \<Rightarrow> (string \<times> rmatch_result) list \<Rightarrow> (nat \<times> rmatch_result) list" where
  "index_from n [] = []"
| "index_from n ((g, m) # ms) =
     (n + length g, m) # index_from (n + length g + length (m_text m)) ms"

definition matchAll :: "regex \<Rightarrow> string \<Rightarrow> (nat \<times> rmatch_result) list" where
  "matchAll re s = index_from 0 (fst (segments re [] s))"

text \<open>\<open>s.replace(re, f)\<close> with the g flag.\<close>

definition replace_all :: "regex \<Rightarrow> (rmatch_result \<Rightarrow> string) \<Rightarrow> string \<Rightarrow> string" where
  "replace_all re f s = (let p = segments re [] s in
     concat (map (\<lambda>(g, m). g @ f m) (fst p)) @ snd p)"

text \<open>\<open>s.replace(re, t)\<close> without it: the first match only.\<close>

definition replace_first :: "regex \<Rightarrow> string \<Rightarrow> string \<Rightarrow> string" where
  "replace_first re t s = (case search re [] s of
     None \<Rightarrow> s | Some (skip, m, b', r') \<Rightarrow> skip @ t @ r')"

text \<open>
  Replacing every match by itself changes nothing; this is the round trip behind the
  lossless renderings.
\<close>

lemma replace_all_id: "replace_all re m_text s = s"
  using segments_lossless [of re "[]" s] by (simp add: replace_all_def unsegment_def Let_def)

lemma replace_all_cong:
  "(\<And>g m. (g, m) \<in> set (fst (segments re [] s)) \<Longrightarrow> f m = h m) \<Longrightarrow>
     replace_all re f s = replace_all re h s"
  by (auto simp: replace_all_def Let_def intro!: arg_cong [where f = concat])

text \<open>Every match of the scan was found by a search.\<close>

lemma push_gap_snds: "(g, m) \<in> set (fst (push_gap c p)) \<Longrightarrow> \<exists>g'. (g', m) \<in> set (fst p)"
  by (cases "(c, p)" rule: push_gap.cases) auto

lemma segments_search:
  "(g, m) \<in> set (fst (segments re b r)) \<Longrightarrow>
     \<exists>b0 r0 skip b' r'. search re b0 r0 = Some (skip, m, b', r')"
proof (induction re b r arbitrary: g rule: segments.induct)
  case (1 re b r)
  show ?case
  proof (cases "search re b r")
    case None
    with "1.prems" show ?thesis by (simp add: segments.simps [of re b r])
  next
    case (Some p)
    then obtain skip m0 b' r' where s: "search re b r = Some (skip, m0, b', r')"
      by (cases p) auto
    show ?thesis
    proof (cases "m = m0")
      case True
      with s show ?thesis by blast
    next
      case False
      note eq = segments.simps [of re b r] Let_def
      consider "m_text m0 \<noteq> []" "(g, m) \<in> set (fst (segments re b' r'))"
        | c r'' where "m_text m0 = []" "r' = c # r''"
            "(g, m) \<in> set (fst (push_gap c (segments re (c # b') r'')))"
        using "1.prems" s False by (auto simp: eq split: if_splits list.splits)
      then show ?thesis
      proof cases
        case 1
        from "1.IH"(2) [OF s refl refl refl 1] show ?thesis .
      next
        case 2
        from push_gap_snds [OF 2(3)] obtain g' where
          "(g', m) \<in> set (fst (segments re (c # b') r''))" ..
        from "1.IH"(1) [OF s refl refl refl 2(1,2) this] show ?thesis .
      qed
    qed
  qed
qed

lemma index_from_snd: "snd ` set (index_from n ms) = snd ` set ms"
  by (induction n ms rule: index_from.induct) auto

lemma matchAll_search:
  assumes "(i, m) \<in> set (matchAll re s)"
  shows "\<exists>b0 r0 skip b' r'. search re b0 r0 = Some (skip, m, b', r')"
proof -
  from assms have "m \<in> snd ` set (index_from 0 (fst (segments re [] s)))"
    by (force simp: matchAll_def)
  then have "m \<in> snd ` set (fst (segments re [] s))" by (simp add: index_from_snd)
  then show ?thesis using segments_search by fastforce
qed

text \<open>
  Walking over the matches with a running position, as \<open>for (const m of s.matchAll(re))\<close>
  loops do: cutting the input at each match's index gives the gaps of the scan.
\<close>

lemma index_from_bound:
  "(i, m) \<in> set (index_from n ms) \<Longrightarrow> n \<le> i"
  by (induction n ms rule: index_from.induct) force+

lemma matchAll_in_text:
  assumes "(i, m) \<in> set (matchAll re s)"
  shows "m_text m = take (length (m_text m)) (drop i s) \<and> i + length (m_text m) \<le> length s"
proof -
  have gen: "(i, m) \<in> set (index_from (length pre) ms) \<Longrightarrow>
      m_text m = take (length (m_text m)) (drop i (pre @ unsegment (ms, t))) \<and>
      i + length (m_text m) \<le> length (pre @ unsegment (ms, t))" for pre ms t
  proof (induction ms arbitrary: pre)
    case (Cons p ms)
    obtain g m0 where p: "p = (g, m0)" by (cases p)
    have u: "unsegment (p # ms, t) = g @ m_text m0 @ unsegment (ms, t)"
      by (simp add: p unsegment_def)
    show ?case
    proof (cases "(i, m) = (length pre + length g, m0)")
      case True
      then show ?thesis by (simp add: u)
    next
      case False
      with Cons.prems have "(i, m) \<in> set (index_from (length (pre @ g @ m_text m0)) ms)"
        by (auto simp: p add.assoc)
      from Cons.IH [OF this] show ?thesis by (simp add: u)
    qed
  qed simp
  have "s = unsegment (segments re [] s)" by (simp add: segments_lossless)
  with gen [of "[]" "fst (segments re [] s)" "snd (segments re [] s)"] assms
  show ?thesis by (simp add: matchAll_def)
qed

section \<open>Runs of a character class\<close>

lemma rep_opt_Cls_runs:
  "length r \<le> n \<Longrightarrow> \<exists>sts. rep_opt n True (rmatch (Cls p)) (MS b r cs) =
     MS (rev (takeWhile p r) @ b) (dropWhile p r) cs # sts \<and> (\<forall>st \<in> set sts. \<exists>c u. mrest st = c # u \<and> p c)"
proof (induction n arbitrary: b r)
  case (Suc n)
  show ?case
  proof (cases r)
    case (Cons c r')
    with Suc.prems Suc.IH [of r' "c # b"] show ?thesis by (auto simp: Let_def)
  qed (simp add: Let_def)
qed simp

lemma rmatch_plus_runs:
  "p c \<Longrightarrow> \<exists>sts. rmatch (plus (Cls p)) (MS b (c # r) cs) =
     MS (rev (takeWhile p (c # r)) @ b) (dropWhile p (c # r)) cs # sts \<and> (\<forall>st \<in> set sts. \<exists>c u. mrest st = c # u \<and> p c)"
  using rep_opt_Cls_runs [of r "length r" p "c # b" cs] by (auto simp: quant_def)

lemma rmatch_plus_Cls:
  "rmatch (plus (Cls p)) (MS b [] cs) = []"
  "\<not> p c \<Longrightarrow> rmatch (plus (Cls p)) (MS b (c # r) cs) = []"
  "p c \<Longrightarrow> \<exists>sts. rmatch (plus (Cls p)) (MS b (c # r) cs) =
     MS (rev (takeWhile p (c # r)) @ b) (dropWhile p (c # r)) cs # sts"
  using rep_opt_Cls_runs [of r "length r" p "c # b" cs] by (auto simp: quant_def)

lemma search_plus_Cls:
  "search (plus (Cls p)) b r =
     (if \<forall>c \<in> set r. \<not> p c then None
      else (let skip = takeWhile (\<lambda>c. \<not> p c) r; rest = dropWhile (\<lambda>c. \<not> p c) r;
                m = takeWhile p rest
            in Some (skip, \<lparr>m_text = m, m_caps = []\<rparr>, rev m @ rev skip @ b, dropWhile p rest)))"
proof (induction r arbitrary: b)
  case Nil
  then show ?case by (simp del: rmatch.simps add: rmatch_plus_Cls)
next
  case (Cons c r)
  show ?case
  proof (cases "p c")
    case True
    with rmatch_plus_Cls(3) [of p c b r "[]"] show ?thesis by (auto simp del: rmatch.simps simp: Let_def between_def)
  next
    case False
    with Cons [of "c # b"] show ?thesis by (auto simp del: rmatch.simps simp: Let_def rmatch_plus_Cls)
  qed
qed

text \<open>Replacing every run of a class by one string.\<close>

function collapse :: "(char \<Rightarrow> bool) \<Rightarrow> string \<Rightarrow> string \<Rightarrow> string" where
  "collapse p t [] = []"
| "collapse p t (c # r) = (if p c then t @ collapse p t (dropWhile p r) else c # collapse p t r)"
  by pat_completeness auto
termination
  by (relation "measure (\<lambda>(p, t, r). length r)") (auto simp: le_imp_less_Suc length_dropWhile_le)

lemma collapse_none: "\<forall>c \<in> set r. \<not> p c \<Longrightarrow> collapse p t r = r"
  by (induction r) auto

lemma collapse_skip:
  "\<forall>c \<in> set x. \<not> p c \<Longrightarrow> collapse p t (x @ y) = x @ collapse p t y"
  by (induction x) auto

lemma segments_collapse:
  "concat (map (\<lambda>(g, m). g @ t) (fst (segments (plus (Cls p)) b r))) @
     snd (segments (plus (Cls p)) b r) = collapse p t r"
proof (induction "length r" arbitrary: b r rule: less_induct)
  case less
  show ?case
  proof (cases "\<forall>c \<in> set r. \<not> p c")
    case True
    then show ?thesis by (subst (1 2) segments.simps) (simp add: search_plus_Cls collapse_none)
  next
    case False
    let ?skip = "takeWhile (\<lambda>c. \<not> p c) r" and ?rest = "dropWhile (\<lambda>c. \<not> p c) r"
    from False obtain c r' where r': "?rest = c # r'" "p c"
      by (metis dropWhile_eq_Nil_conv hd_dropWhile list.collapse)
    have r: "r = ?skip @ c # r'" by (metis r'(1) takeWhile_dropWhile_id)
    have len: "length (dropWhile p r') < length r"
      using arg_cong [OF r, of length] length_dropWhile_le [of p r'] by simp
    note IH = less [OF len, of "rev (takeWhile p ?rest) @ rev ?skip @ b"]
    have "collapse p t r = ?skip @ collapse p t (c # r')"
      by (subst r) (rule collapse_skip, auto dest: set_takeWhileD)
    with IH False r' show ?thesis
      by (subst (1 2) segments.simps) (auto simp: search_plus_Cls Let_def)
  qed
qed

lemma replace_runs: "replace_all (plus (Cls p)) (\<lambda>_. t) s = collapse p t s"
  using segments_collapse [of t p "[]" s] by (simp add: replace_all_def Let_def)


lemma rep_min_Cls:
  "length d = n \<Longrightarrow> \<forall>c \<in> set d. p c \<Longrightarrow>
     rep_min n (rmatch (Cls p)) (MS b (d @ r) cs) = [MS (rev d @ b) r cs]"
proof (induction d arbitrary: n b)
  case (Cons c d)
  then show ?case by (cases n) auto
qed simp

lemma rep_opt_Cls_in:
  "length d \<le> n \<Longrightarrow> \<forall>c \<in> set d. p c \<Longrightarrow>
     MS (rev d @ b) r cs \<in> set (rep_opt n g (rmatch (Cls p)) (MS b (d @ r) cs))"
proof (induction d arbitrary: n b)
  case Nil
  then show ?case by (cases n) (auto simp: Let_def)
next
  case (Cons c d)
  then obtain k where k: "n = Suc k" by (cases n) auto
  from Cons k have "MS (rev d @ (c # b)) r cs \<in> set (rep_opt k g (rmatch (Cls p)) (MS (c # b) (d @ r) cs))"
    by auto
  with Cons.prems show ?case by (auto simp: Let_def k)
qed

lemma rmatch_rep_Cls:
  assumes "m \<le> length d" "length d \<le> n" "\<forall>c \<in> set d. p c"
  shows "MS (rev d @ b) r cs \<in> set (rmatch (rep m n (Cls p)) (MS b (d @ r) cs))"
proof -
  let ?u = "take m d" and ?v = "drop m d"
  have "rep_min m (rmatch (Cls p)) (MS b (?u @ ?v @ r) cs) = [MS (rev ?u @ b) (?v @ r) cs]"
    using assms by (intro rep_min_Cls) (auto dest: in_set_takeD)
  moreover have "MS (rev ?v @ rev ?u @ b) r cs \<in>
      set (rep_opt (n - m) True (rmatch (Cls p)) (MS (rev ?u @ b) (?v @ r) cs))"
    using assms by (intro rep_opt_Cls_in) (auto dest: in_set_dropD)
  moreover have "rev ?v @ rev ?u @ b = rev d @ b" "?u @ ?v @ r = d @ r"
    by (simp_all flip: rev_append append.assoc)
  ultimately show ?thesis by (simp only: rmatch.simps quant_def list.map concat.simps option.case append_Nil2)
qed

lemma rmatch_run_caps:
  "st' \<in> set (rmatch (Quant g mn mx (Cls p)) st) \<Longrightarrow> mcaps st' = mcaps st"
proof -
  have cls: "st' \<in> set (rmatch (Cls p) st) \<Longrightarrow> mcaps st' = mcaps st" for st st'
    by (auto split: list.splits if_splits)
  have mn: "st' \<in> set (rep_min n (rmatch (Cls p)) st) \<Longrightarrow> mcaps st' = mcaps st" for n st st'
    by (induction n arbitrary: st) (auto simp del: rmatch.simps dest: cls)
  have op: "st' \<in> set (rep_opt n g (rmatch (Cls p)) st) \<Longrightarrow> mcaps st' = mcaps st" for n st st'
    by (induction n arbitrary: st) (auto simp: Let_def simp del: rmatch.simps dest: cls split: if_splits)
  assume "st' \<in> set (rmatch (Quant g mn mx (Cls p)) st)"
  then show ?thesis using mn op by (force simp: quant_def simp del: rmatch.simps(2))
qed

lemma rmatch_Seq_in:
  "st' \<in> set (rmatch (Seq a b) st) \<longleftrightarrow> (\<exists>st1 \<in> set (rmatch a st). st' \<in> set (rmatch b st1))"
  by auto

lemma rmatch_Grp_in:
  "st' \<in> set (rmatch (Grp n a) st) \<longleftrightarrow>
     (\<exists>st1 \<in> set (rmatch a st). st' = MS (mbefore st1) (mrest st1) ((n, between st st1) # mcaps st1))"
  by auto

lemma rmatch_Cls_in:
  "st' \<in> set (rmatch (Cls p) st) \<longleftrightarrow>
     (\<exists>c r. mrest st = c # r \<and> p c \<and> st' = MS (c # mbefore st) r (mcaps st))"
  by (auto split: list.splits if_splits)

lemma rmatch_anchor_in:
  "st' \<in> set (rmatch Bol st) \<longleftrightarrow> st' = st \<and> mbefore st = []"
  "st' \<in> set (rmatch Eol st) \<longleftrightarrow> st' = st \<and> mrest st = []"
  by auto

lemmas rmatch_in = rmatch_Seq_in rmatch_Grp_in rmatch_Cls_in rmatch_anchor_in

section \<open>Patterns between word boundaries\<close>

text \<open>A pattern \<open>\b(a)\b\<close>: its group is the whole match, so it occurs in the text.\<close>

definition bounded :: "regex \<Rightarrow> regex" where
  "bounded a = seqs [WordB, Grp 1 a, WordB]"

lemma rmatch_bounded:
  "rmatch (bounded a) st =
     (if wordb st then concat (map (\<lambda>st'.
        let st1 = MS (mbefore st') (mrest st') ((1, between st st') # mcaps st')
        in if wordb st1 then [st1] else []) (rmatch a st)) else [])"
  by (simp add: bounded_def Let_def o_def)

lemma bounded_ne:
  assumes "wordb st" "st' \<in> set (rmatch a st)" "wordb st'"
  shows "rmatch (bounded a) st \<noteq> []"
proof -
  let ?st1 = "MS (mbefore st') (mrest st') ((1, between st st') # mcaps st')"
  from assms(3) have "wordb ?st1" by (simp add: wordb_def)
  with assms(1,2) have "?st1 \<in> set (rmatch (bounded a) st)" by (auto simp: rmatch_bounded Let_def)
  then show ?thesis by (metis empty_iff empty_set)
qed

lemma bounded_group:
  assumes "match_first (bounded a) s = Some m"
  shows "m_group m 1 = Some (m_text m)"
proof -
  from assms obtain skip b' r' where "search (bounded a) [] s = Some (skip, m, b', r')"
    by (auto simp: match_first_def)
  from search_at [OF this] obtain st st' where st: "st' \<in> set (rmatch (bounded a) st)"
    and m: "m_text m = between st st'" "m_caps m = mcaps st'" by auto
  from st have "map_of (mcaps st') 1 = Some (between st st')"
    by (auto simp: rmatch_bounded Let_def split: if_splits)
  with m show ?thesis by (simp add: m_group_def)
qed

definition word_edge :: "string \<Rightarrow> bool" where
  "word_edge s \<longleftrightarrow> (case s of [] \<Rightarrow> True | c # _ \<Rightarrow> \<not> is_word c)"

section \<open>Evaluating a scan\<close>

lemmas rx_eval = litI_def lit_def chr_def chrI_def one_of_def none_of_def quant_def wordb_def
  between_def numeral_eq_Suc

lemma segments_None: "search re b r = None \<Longrightarrow> segments re b r = ([], r)"
  by (simp add: segments.simps [of re b r])

lemma segments_Some:
  "search re b r = Some (skip, m, b', r') \<Longrightarrow> m_text m \<noteq> [] \<Longrightarrow>
     segments re b r = ((skip, m) # fst (segments re b' r'), snd (segments re b' r'))"
  by (simp add: segments.simps [of re b r] Let_def)

lemma segments_skip:
  assumes "rmatch re (MS b (c # r) []) = []"
  shows "segments re b (c # r) = push_gap c (segments re (c # b) r)"
proof (cases "search re (c # b) r")
  case None
  with assms show ?thesis by (simp add: segments_None)
next
  case (Some p)
  obtain skip m b' r' where p: "p = (skip, m, b', r')" by (cases p)
  with Some assms have "search re b (c # r) = Some (c # skip, m, b', r')" by simp
  with Some p show ?thesis by (simp add: segments.simps [of re b] segments.simps [of re "c # b" r] Let_def)
qed

section \<open>RegExp objects\<close>

text \<open>
  A caller's RegExp: its pattern, the g and y flags, and \<open>lastIndex\<close>, which \<open>test\<close> and
  \<open>exec\<close> read and write when one of the flags is set.
\<close>

record jsregexp =
  rx_pattern :: regex
  rx_global :: bool
  rx_sticky :: bool
  rx_lastIndex :: nat

definition rx_exec :: "jsregexp \<Rightarrow> string \<Rightarrow> rmatch_result option \<times> jsregexp" where
  "rx_exec r s =
     (if \<not> (rx_global r \<or> rx_sticky r) then (match_first (rx_pattern r) s, r)
      else if length s < rx_lastIndex r then (None, r\<lparr>rx_lastIndex := 0\<rparr>)
      else (let b = rev (take (rx_lastIndex r) s); rest = drop (rx_lastIndex r) s in
        case search (rx_pattern r) b rest of
          None \<Rightarrow> (None, r\<lparr>rx_lastIndex := 0\<rparr>)
        | Some (skip, m, b', r') \<Rightarrow>
            if rx_sticky r \<and> skip \<noteq> [] then (None, r\<lparr>rx_lastIndex := 0\<rparr>)
            else (Some m, r\<lparr>rx_lastIndex := length b'\<rparr>)))"

definition rx_test :: "jsregexp \<Rightarrow> string \<Rightarrow> bool \<times> jsregexp" where
  "rx_test r s = (let (m, r') = rx_exec r s in (m \<noteq> None, r'))"

text \<open>What a fresh RegExp object answers: \<open>lastIndex\<close> is 0 before each call.\<close>

definition rx_fresh_test :: "jsregexp \<Rightarrow> string \<Rightarrow> bool" where
  "rx_fresh_test r s = fst (rx_test (r\<lparr>rx_lastIndex := 0\<rparr>) s)"

lemma rx_exec_flags:
  "rx_exec r s = (m, r') \<Longrightarrow> rx_pattern r' = rx_pattern r \<and> rx_global r' = rx_global r \<and>
     rx_sticky r' = rx_sticky r"
  by (auto simp: rx_exec_def Let_def split: if_splits option.splits prod.splits)

lemma rx_test_reset:
  "rx_test r s = (b, r') \<Longrightarrow> r'\<lparr>rx_lastIndex := 0\<rparr> = r\<lparr>rx_lastIndex := 0\<rparr>"
  by (auto simp: rx_test_def split: prod.splits dest!: rx_exec_flags)

lemma rx_fresh_test_cong:
  "r\<lparr>rx_lastIndex := 0\<rparr> = r'\<lparr>rx_lastIndex := 0\<rparr> \<Longrightarrow> rx_fresh_test r = rx_fresh_test r'"
  by (simp add: rx_fresh_test_def fun_eq_iff)

text \<open>\<open>s.match(r)\<close>: with the g flag the list of all matched texts, otherwise one match
  with its groups. \<open>None\<close> is \<open>null\<close>. The result is read by index: 0 the match, 1 the
  first group, or the first and second match when r is global. With g and y together only
  the matches that follow each other without a gap count.\<close>

fun sticky_prefix :: "bool \<Rightarrow> (string \<times> rmatch_result) list \<Rightarrow> rmatch_result list" where
  "sticky_prefix e [] = []"
| "sticky_prefix e ((g, m) # ms) =
     (if g = [] \<or> (e \<and> length g = 1) then m # sticky_prefix (m_text m = []) ms else [])"

definition string_match :: "string \<Rightarrow> jsregexp \<Rightarrow> (nat \<Rightarrow> string option) option" where
  "string_match s r =
     (if rx_global r then
        (let ms = fst (segments (rx_pattern r) [] s);
             ts = map m_text (if rx_sticky r then sticky_prefix False ms else map snd ms) in
         if ts = [] then None else Some (\<lambda>i. if i < length ts then Some (ts ! i) else None))
      else map_option (\<lambda>m i. if i = 0 then Some (m_text m) else m_group m i) (fst (rx_exec r s)))"

end
