(* ===== verification/Email.thy ===== *)
theory Email
  imports Types JS_Regex
begin

text \<open>
  The \<open>Email\<close> class (\<open>packages/client/src/email.ts\<close>): the constructor's defaults, links,
  headers, attachments, and the search for a verification code. A \<open>RegExp\<close> passed by the
  caller is an object with a mutable \<open>lastIndex\<close>, so the operations that use one return it
  as the call leaves it.
\<close>

section \<open>Links\<close>

text \<open>A RegExp matcher comes with its source text, which the error message prints.\<close>

datatype link_matcher = LM_str string | LM_re string jsregexp | LM_fn "link \<Rightarrow> bool"

definition normalize :: "string \<Rightarrow> string" where
  "normalize s = toLowerCase (trim (replace_all (plus space_class) (\<lambda>_. '' '') s))"

text \<open>The callback of \<open>links.find\<close> for a RegExp, and \<open>find\<close> threading the object through.\<close>

definition link_test :: "jsregexp \<Rightarrow> link \<Rightarrow> bool \<times> jsregexp" where
  "link_test r l =
     (case rx_test (r\<lparr>rx_lastIndex := 0\<rparr>) (l_text l) of
        (True, r1) \<Rightarrow> (True, r1)
      | (False, r1) \<Rightarrow> rx_test (r1\<lparr>rx_lastIndex := 0\<rparr>) (l_href l))"

fun find_re :: "jsregexp \<Rightarrow> link list \<Rightarrow> link option \<times> jsregexp" where
  "find_re r [] = (None, r)"
| "find_re r (l # ls) = (case link_test r l of
     (True, r1) \<Rightarrow> (Some l, r1)
   | (False, r1) \<Rightarrow> find_re r1 ls)"

definition matchLinks :: "link list \<Rightarrow> link_matcher \<Rightarrow> link option \<times> link_matcher" where
  "matchLinks links matcher = (case matcher of
     LM_fn f \<Rightarrow> (find f links, matcher)
   | LM_re src r \<Rightarrow> (let (l, r') = find_re r links in (l, LM_re src r'))
   | LM_str s \<Rightarrow> (let needle = normalize s in
       (nullish_opt (find (\<lambda>l. normalize (l_text l) = needle) links)
         (nullish_opt (find (\<lambda>l. includes_str (normalize (l_text l)) needle) links)
           (find (\<lambda>l. includes_str (toLowerCase (l_href l)) needle) links)), matcher)))"

section \<open>The class\<close>

text \<open>\<open>date\<close> is absent, an invalid Date (\<open>Some None\<close>) or a time value. \<open>headers\<close> lists the
  entries in the order of \<open>Object.entries\<close>.\<close>

record email =
  e_id :: string
  e_messageId :: "string option"
  e_from :: address
  e_to :: "address list"
  e_cc :: "address list"
  e_replyTo :: "address list"
  e_subject :: string
  e_text :: string
  e_html :: string
  e_headers :: "(string \<times> string list) list"
  e_attachments :: "attachment list"
  e_links :: "link list"
  e_envelope :: envelope
  e_size :: int
  e_date :: "int option option"
  e_createdAt :: "int option"

definition new_Email :: "message_data \<Rightarrow> email" where
  "new_Email data = \<lparr>
     e_id = d_id data,
     e_messageId = (if truthy (d_messageId data) then d_messageId data else None),
     e_from = d_from data,
     e_to = nullish (d_to data) [],
     e_cc = nullish (d_cc data) [],
     e_replyTo = nullish (d_replyTo data) [],
     e_subject = d_subject data,
     e_text = nullish (d_text data) [],
     e_html = nullish (d_html data) [],
     e_headers = nullish (d_headers data) [],
     e_attachments = nullish (d_attachments data) [],
     e_links = nullish (d_links data) [],
     e_envelope = nullish (d_envelope data) \<lparr>env_from = [], env_to = []\<rparr>,
     e_size = d_size data,
     e_date = (if truthy (d_date data) then map_option Date_parse (d_date data) else None),
     e_createdAt = Date_parse (d_createdAt data)\<rparr>"

definition label_of :: "link_matcher \<Rightarrow> string" where
  "label_of matcher = (case matcher of
     LM_fn _ \<Rightarrow> ''predicate'' | LM_re src _ \<Rightarrow> src | LM_str s \<Rightarrow> s)"

text \<open>\<open>Inl\<close> is the message of the error thrown.\<close>

definition findLink :: "email \<Rightarrow> link_matcher \<Rightarrow> string + link" where
  "findLink e matcher = (case fst (matchLinks (e_links e) matcher) of
     Some l \<Rightarrow> Inr l
   | None \<Rightarrow>
       (let available = (if e_links e \<noteq> []
              then join ''\<newline>'' (map (\<lambda>l. ''  - '' @ json_string (l_text l) @ '' -> '' @ l_href l) (e_links e))
              else ''  (none)'')
        in Inl (''No link matching '' @ json_string (label_of matcher) @ '' in email '' @
             json_string (e_subject e) @ '' ('' @ e_id e @ '').\<newline>Links:\<newline>'' @ available)))"

definition hasLink :: "email \<Rightarrow> link_matcher \<Rightarrow> bool" where
  "hasLink e matcher \<longleftrightarrow> fst (matchLinks (e_links e) matcher) \<noteq> None"

fun getHeaders_loop :: "string \<Rightarrow> (string \<times> string list) list \<Rightarrow> string list" where
  "getHeaders_loop wanted [] = []"
| "getHeaders_loop wanted ((key, values) # es) =
     (if toLowerCase key = wanted then values else getHeaders_loop wanted es)"

definition getHeaders :: "email \<Rightarrow> string \<Rightarrow> string list" where
  "getHeaders e name = getHeaders_loop (toLowerCase name) (e_headers e)"

definition getHeader :: "email \<Rightarrow> string \<Rightarrow> string option" where
  "getHeader e name = at_index (getHeaders e name) 0"

datatype attachment_matcher = AM_none | AM_str string | AM_re jsregexp

text \<open>\<open>some\<close> with a RegExp: \<open>lastIndex\<close> is not reset between the filenames.\<close>

fun some_re :: "jsregexp \<Rightarrow> attachment list \<Rightarrow> bool \<times> jsregexp" where
  "some_re r [] = (False, r)"
| "some_re r (a # as) = (case rx_test r (at_filename a) of
     (True, r1) \<Rightarrow> (True, r1)
   | (False, r1) \<Rightarrow> some_re r1 as)"

definition hasAttachment :: "email \<Rightarrow> attachment_matcher \<Rightarrow> bool \<times> attachment_matcher" where
  "hasAttachment e matcher = (case matcher of
     AM_none \<Rightarrow> (0 < length (e_attachments e), matcher)
   | AM_str s \<Rightarrow> (list_ex (\<lambda>a. toLowerCase (at_filename a) = toLowerCase s) (e_attachments e), matcher)
   | AM_re r \<Rightarrow> (let (b, r') = some_re r (e_attachments e) in (b, AM_re r')))"

record email_json =
  j_id :: string
  j_from :: address
  j_to :: "address list"
  j_subject :: string
  j_text :: string
  j_links :: "link list"
  j_attachments :: "attachment list"

definition toJSON :: "email \<Rightarrow> email_json" where
  "toJSON e = \<lparr>j_id = e_id e, j_from = e_from e, j_to = e_to e, j_subject = e_subject e,
     j_text = e_text e, j_links = e_links e, j_attachments = e_attachments e\<rparr>"

section \<open>Verification codes\<close>

definition keyword :: regex where
  "keyword = seqs [WordB, alts [litI ''verification'', litI ''verify'', litI ''confirmation'',
     seqs [litI ''one'', one_of ''- '', litI ''time''], litI ''passcode'', litI ''code'',
     seqs [chrI (CHR ''c''), Cls (\<lambda>x. lower_char x \<in> {CHR ''o'', CHR 0xF3}), litI ''digo''],
     litI ''otp'', litI ''pin'', litI ''token''], WordB]"

definition code_char :: "char \<Rightarrow> bool" where
  "code_char c \<longleftrightarrow> is_upper c \<or> is_digit c \<or> c = CHR ''-''"

definition code_end :: "char \<Rightarrow> bool" where
  "code_end c \<longleftrightarrow> is_upper c \<or> is_digit c"

definition codeToken_body :: regex where
  "codeToken_body = Alt (rep 4 10 digit_class)
     (seqs [Look (seqs [star (Cls code_char), digit_class]),
            Cls code_end, rep 2 10 (Cls code_char), Cls code_end])"

definition codeToken :: regex where
  "codeToken = seqs [WordB, Grp 1 codeToken_body, WordB]"

definition digits_between :: "nat \<Rightarrow> nat \<Rightarrow> regex" where
  "digits_between m n = seqs [WordB, Grp 1 (rep m n digit_class), WordB]"

text \<open>\<open>text.match(re)?.[1]\<close>\<close>

definition first_group :: "regex \<Rightarrow> string \<Rightarrow> string option" where
  "first_group re s = Option.bind (match_first re s) (\<lambda>m. m_group m 1)"

fun guess_loop :: "string \<Rightarrow> (nat \<times> rmatch_result) list \<Rightarrow> string option" where
  "guess_loop s [] = None"
| "guess_loop s ((index, k) # ks) =
     (let start = int index + int (length (m_text k));
          after = slice s start (start + 60);
          m = first_group codeToken after
      in if truthy m then m else guess_loop s ks)"

definition guessCode :: "string \<Rightarrow> string option" where
  "guessCode s = (case guess_loop s (matchAll keyword s) of
     Some c \<Rightarrow> Some c
   | None \<Rightarrow> nullish_opt (first_group (digits_between 6 6) s) (first_group (digits_between 4 8) s))"

definition hidden_block :: regex where
  "hidden_block = seqs [chr (CHR ''<''), Grp 1 (alts [litI ''style'', litI ''script'', litI ''head'']),
     lazy_star (Cls (\<lambda>_. True)), lit ''</'', BackI 1, chr (CHR ''>'')]"

definition line_end :: regex where
  "line_end = Alt (seqs [litI ''<br'', star space_class, opt (chr (CHR ''/'')), chr (CHR ''>'')])
     (seqs [lit ''</'', Grp 1 (alts [litI ''p'', litI ''div'', litI ''tr'',
        Seq (chrI (CHR ''h'')) digit_class, litI ''li'']), chr (CHR ''>'')])"

definition tag :: regex where
  "tag = seqs [chr (CHR ''<''), plus (none_of ''>''), chr (CHR ''>'')]"

definition htmlToText :: "string \<Rightarrow> string" where
  "htmlToText html =
     (let s1 = replace_all hidden_block (\<lambda>_. '' '') html;
          s2 = replace_all line_end (\<lambda>_. ''\<newline>'') s1;
          s3 = replace_all tag (\<lambda>_. '' '') s2;
          s4 = replace_all (lit ''&nbsp;'') (\<lambda>_. '' '') s3;
          s5 = replace_all (lit ''&amp;'') (\<lambda>_. ''&'') s4;
          s6 = replace_all (lit ''&lt;'') (\<lambda>_. ''<'') s5;
          s7 = replace_all (lit ''&gt;'') (\<lambda>_. ''>'') s6;
          s8 = replace_all (lit ''&quot;'') (\<lambda>_. [CHR 0x22]) s7
      in replace_all (lit ''&#39;'') (\<lambda>_. [CHR 0x27]) s8)"

definition code_text :: "email \<Rightarrow> string" where
  "code_text e = (if trim (e_text e) \<noteq> [] then e_text e else htmlToText (e_html e))"

definition preview_of :: "string \<Rightarrow> string" where
  "preview_of s = slice (trim (replace_all (plus space_class) (\<lambda>_. '' '') s)) 0 160"

definition findCode :: "email \<Rightarrow> jsregexp option \<Rightarrow> string + string" where
  "findCode e pattern =
     (let s = code_text e;
          failure = Inl (''No verification code found in email '' @ json_string (e_subject e) @
            '' ('' @ e_id e @ ''). Text: '' @ json_string (preview_of s))
      in case pattern of
        Some p \<Rightarrow>
          (case string_match s p of
             None \<Rightarrow> failure
           | Some m \<Rightarrow> Inr (nullish (m 1) (nullish (m 0) [])))
      | None \<Rightarrow>
          (case guessCode s of
             None \<Rightarrow> failure
           | Some code \<Rightarrow> if code \<noteq> [] then Inr code else failure))"

section \<open>RegExp matchers do not depend on \<open>lastIndex\<close>\<close>

lemma link_test_fresh:
  "fst (link_test r l) \<longleftrightarrow> rx_fresh_test r (l_text l) \<or> rx_fresh_test r (l_href l)"
  "(snd (link_test r l))\<lparr>rx_lastIndex := 0\<rparr> = r\<lparr>rx_lastIndex := 0\<rparr>"
proof -
  obtain b r1 where t: "rx_test (r\<lparr>rx_lastIndex := 0\<rparr>) (l_text l) = (b, r1)" by fastforce
  obtain b2 r2 where h: "rx_test (r1\<lparr>rx_lastIndex := 0\<rparr>) (l_href l) = (b2, r2)" by fastforce
  from rx_test_reset [OF t] have r1: "r1\<lparr>rx_lastIndex := 0\<rparr> = r\<lparr>rx_lastIndex := 0\<rparr>" by simp
  from rx_test_reset [OF h] r1 have r2: "r2\<lparr>rx_lastIndex := 0\<rparr> = r\<lparr>rx_lastIndex := 0\<rparr>" by simp
  show "fst (link_test r l) \<longleftrightarrow> rx_fresh_test r (l_text l) \<or> rx_fresh_test r (l_href l)"
    using t h r1 by (cases b) (auto simp: link_test_def rx_fresh_test_def)
  show "(snd (link_test r l))\<lparr>rx_lastIndex := 0\<rparr> = r\<lparr>rx_lastIndex := 0\<rparr>"
    using t h r1 r2 by (cases b) (auto simp: link_test_def)
qed

lemma find_re_fresh:
  "fst (find_re r ls) = find (\<lambda>l. rx_fresh_test r (l_text l) \<or> rx_fresh_test r (l_href l)) ls"
proof (induction r ls rule: find_re.induct)
  case (2 r l ls)
  obtain b r1 where t: "link_test r l = (b, r1)" by fastforce
  have "rx_fresh_test r1 = rx_fresh_test r"
    using link_test_fresh(2) [of r l] t by (intro rx_fresh_test_cong) simp
  with 2 [OF t [symmetric]] t link_test_fresh(1) [of r l] show ?case by (cases b) auto
qed simp

section \<open>Words\<close>

text \<open>The words of a text, as a reader sees them: the maximal runs without white space.\<close>

function words :: "string \<Rightarrow> string list" where
  "words s = (case dropWhile is_space s of
     [] \<Rightarrow> []
   | c # r \<Rightarrow> (c # takeWhile (\<lambda>c. \<not> is_space c) r) # words (dropWhile (\<lambda>c. \<not> is_space c) r))"
  by pat_completeness auto
termination
proof (relation "measure length")
  fix s c r
  assume "dropWhile is_space s = c # r"
  then have "length (c # r) \<le> length s" by (metis length_dropWhile_le)
  with length_dropWhile_le [of "\<lambda>c. \<not> is_space c" r]
  show "(dropWhile (\<lambda>c. \<not> is_space c) r, s) \<in> measure length" by (simp add: less_le_trans le_imp_less_Suc)
qed simp

declare words.simps [simp del]

lemma space_is_space [simp]: "is_space (CHR '' '')"
  by (simp add: js_eval)

lemma trimEnd_append: "trimEnd t \<noteq> [] \<Longrightarrow> trimEnd (s @ t) = s @ trimEnd t"
  by (auto simp: trimEnd_def dropWhile_append)

lemma trimEnd_word: "w \<noteq> [] \<Longrightarrow> \<forall>c \<in> set w. \<not> is_space c \<Longrightarrow> trimEnd w = w"
  by (cases w rule: rev_cases) (auto simp: trimEnd_def)

lemma trimEnd_space: "trimEnd (s @ '' '') = trimEnd s"
  by (simp add: trimEnd_def)

lemma words_Nil_iff: "words s = [] \<longleftrightarrow> dropWhile is_space s = []"
  by (subst words.simps) (cases "dropWhile is_space s", simp_all only: list.case, simp_all)

lemma join_ne: "x \<noteq> [] \<Longrightarrow> join sep (x # xs) \<noteq> []"
  by (cases xs) auto

lemma join_words_ne:
  assumes "words s \<noteq> []" shows "join sep (words s) \<noteq> []"
proof (cases "dropWhile is_space s")
  case Nil
  with assms show ?thesis by (simp only: words_Nil_iff not_True_eq_False)
next
  case (Cons c r)
  then have "words s = (c # takeWhile (\<lambda>c. \<not> is_space c) r) # words (dropWhile (\<lambda>c. \<not> is_space c) r)"
    by (subst words.simps) (simp only: list.case)
  then show ?thesis using join_ne [OF list.distinct(2)] by (simp only: not_False_eq_True)
qed

lemma collapse_words:
  "trimEnd (collapse is_space '' '' (dropWhile is_space s)) = join '' '' (words s)"
proof (induction s rule: words.induct)
  case (1 s)
  show ?case
  proof (cases "dropWhile is_space s")
    case Nil
    then show ?thesis by (subst words.simps) (simp only: Nil list.case collapse.simps trimEnd_def, simp)
  next
    case (Cons c r)
    let ?w = "c # takeWhile (\<lambda>c. \<not> is_space c) r" and ?rest = "dropWhile (\<lambda>c. \<not> is_space c) r"
    have c: "\<not> is_space c" using Cons by (metis hd_dropWhile list.sel(1) list.simps(3))
    have w: "\<forall>x \<in> set ?w. \<not> is_space x" using c by (auto dest: set_takeWhileD)
    have split: "c # r = ?w @ ?rest" by simp
    have col: "collapse is_space '' '' (c # r) = ?w @ collapse is_space '' '' ?rest"
      using collapse_skip [OF w] split by metis
    have ws: "words s = ?w # words ?rest" using Cons by (subst words.simps) simp
    note IH = 1 [OF Cons]
    show ?thesis
    proof (cases ?rest)
      case Nil
      then have "words ?rest = []" unfolding Nil by (simp add: words_Nil_iff)
      then have "join '' '' (words s) = ?w" by (simp add: ws)
      moreover have "collapse is_space '' '' (c # r) = ?w" unfolding col Nil by simp
      ultimately show ?thesis
        using trimEnd_word [OF list.distinct(2) w] by (simp only: \<open>dropWhile is_space s = c # r\<close>)
    next
      case (Cons d r')
      then have d: "is_space d" by (metis hd_dropWhile list.sel(1) list.simps(3))
      let ?h = "collapse is_space '' '' (dropWhile is_space ?rest)"
      have rest: "collapse is_space '' '' ?rest = '' '' @ ?h" using Cons d by simp
      show ?thesis
      proof (cases "words ?rest = []")
        case True
        then have "dropWhile is_space ?rest = []" by (simp only: words_Nil_iff)
        then have h: "?h = []" by (simp only: collapse.simps)
        have "collapse is_space '' '' (c # r) = ?w @ '' ''" unfolding col rest h by simp
        then have "trimEnd (collapse is_space '' '' (c # r)) = ?w"
          using trimEnd_word [OF list.distinct(2) w] by (simp only: trimEnd_space)
        then show ?thesis unfolding \<open>dropWhile is_space s = c # r\<close> ws True by (simp only: join.simps)
      next
        case False
        then have "join '' '' (words ?rest) \<noteq> []"
          by (rule join_words_ne)
        with IH have ne: "trimEnd ?h \<noteq> []" by simp
        have "trimEnd (?w @ '' '' @ ?h) = ?w @ '' '' @ trimEnd ?h"
          using trimEnd_append [OF ne, of "?w @ '' ''"] by simp
        with IH have "trimEnd (?w @ '' '' @ ?h) = join '' '' (words s)"
          unfolding ws join_Cons [OF False] by simp
        then show ?thesis unfolding \<open>dropWhile is_space s = c # r\<close> col rest .
      qed
    qed
  qed
qed

lemma trimStart_collapse:
  "trimStart (collapse is_space '' '' s) = collapse is_space '' '' (dropWhile is_space s)"
proof -
  have start: "trimStart (collapse is_space '' '' (dropWhile is_space r)) =
      collapse is_space '' '' (dropWhile is_space r)" for r
    by (induction r) (auto simp: trimStart_def)
  show ?thesis using start by (cases s) (auto simp: trimStart_def)
qed

lemma collapsed_trim: "trim (replace_all (plus space_class) (\<lambda>_. '' '') s) = join '' '' (words s)"
  by (simp only: replace_runs trim_def trimStart_collapse collapse_words)

lemma map_join: "map f (join sep xs) = join (map f sep) (map (map f) xs)"
  by (induction sep xs rule: join.induct) auto

section \<open>What the code search returns\<close>

lemma first_group_sound:
  assumes "first_group re s = Some c"
  shows "\<exists>a. (1, a) \<in> grps re \<and> matched a c"
proof -
  from assms obtain m where m: "match_first re s = Some m" "m_group m 1 = Some c"
    by (auto simp: first_group_def bind_eq_Some_conv)
  from m(1) obtain skip b' r' where "search re [] s = Some (skip, m, b', r')"
    by (auto simp: match_first_def)
  from search_group [OF this m(2)] show ?thesis .
qed

lemma first_group_bounded:
  "first_group (bounded a) s = map_option m_text (match_first (bounded a) s)"
  using bounded_group [of a s] by (cases "match_first (bounded a) s") (auto simp: first_group_def)

lemma codeToken_bounded: "codeToken = bounded codeToken_body"
  by (simp add: codeToken_def bounded_def)

lemma digits_bounded: "digits_between m n = bounded (rep m n digit_class)"
  by (simp add: digits_between_def bounded_def)

lemma grps_bounded: "grps (bounded a) = insert (1, a) (grps a)"
  by (simp add: bounded_def)

lemma first_group_includes:
  "first_group (bounded a) s = Some c \<Longrightarrow> includes_str s c"
  using match_first_includes by (auto simp: first_group_bounded)

text \<open>The shape of a code: 4 to 12 characters of \<open>[A-Z0-9-]\<close>, neither end a dash.\<close>

definition code_shape :: "string \<Rightarrow> bool" where
  "code_shape c \<longleftrightarrow> 4 \<le> length c \<and> length c \<le> 12 \<and> (\<forall>x \<in> set c. code_char x) \<and>
     code_end (hd c) \<and> code_end (last c)"

lemma digits_shape:
  assumes "matched (rep m n digit_class) c" "4 \<le> m" "m \<le> n" "n \<le> 12"
  shows "code_shape c"
proof -
  from matched_Quant_Cls [OF assms(1)] assms(2-4)
  have d: "\<forall>x \<in> set c. is_digit x" and l: "4 \<le> length c" "length c \<le> 12" by auto
  from l have "c \<noteq> []" by auto
  with d l show ?thesis by (auto simp: code_shape_def code_char_def code_end_def)
qed

lemma code_shape_token:
  assumes "matched codeToken_body c"
  shows "code_shape c"
proof -
  from matched_Alt [OF assms [unfolded codeToken_body_def]]
  consider "matched (rep 4 10 digit_class) c"
    | "matched (seqs [Look (seqs [star (Cls code_char), digit_class]),
            Cls code_end, rep 2 10 (Cls code_char), Cls code_end]) c" by blast
  then show ?thesis
  proof cases
    case 1
    then show ?thesis by (rule digits_shape) simp_all
  next
    case 2
    then obtain u v w x where c: "c = u @ v @ w @ x" and "matched (Look (seqs [star (Cls code_char), digit_class])) u"
      "matched (Cls code_end) v" "matched (rep 2 10 (Cls code_char)) w" "matched (Cls code_end) x"
      by (auto dest!: matched_Seq)
    then obtain a b where "u = []" "v = [a]" "x = [b]" "code_end a" "code_end b"
      "\<forall>y \<in> set w. code_char y" "2 \<le> length w" "length w \<le> 10"
      by (auto dest!: matched_Look matched_Cls matched_Quant_Cls)
    with c show ?thesis by (auto simp: code_shape_def code_char_def code_end_def)
  qed
qed

lemma grps_digits: "grps (rep m n digit_class) = {}" by simp

lemma grps_token: "grps codeToken_body = {}" by (simp add: codeToken_body_def)

lemma slice_includes: "includes_str s (slice s i j)"
  by (simp add: slice_def Let_def includes_str_sublist) (metis sublist_order.order.trans sublist_drop sublist_take)

lemma guess_loop_sound:
  "guess_loop s ks = Some c \<Longrightarrow> includes_str s c \<and> code_shape c"
proof (induction s ks rule: guess_loop.induct)
  case (2 s index k ks)
  let ?i = "int index + int (length (m_text k))"
  let ?after = "slice s ?i (?i + 60)"
  show ?case
  proof (cases "truthy (first_group codeToken ?after)")
    case True
    with "2.prems" have g: "first_group codeToken ?after = Some c" by (simp add: Let_def)
    from first_group_sound [OF g] have "code_shape c"
      by (auto simp: codeToken_bounded grps_bounded grps_token intro: code_shape_token)
    moreover from g have "includes_str ?after c" unfolding codeToken_bounded by (rule first_group_includes)
    ultimately show ?thesis using includes_str_trans slice_includes by blast
  qed (use 2 in \<open>simp add: Let_def\<close>)
qed simp

lemma guessCode_shape:
  assumes "guessCode s = Some c"
  shows "includes_str s c \<and> code_shape c"
proof (cases "guess_loop s (matchAll keyword s)")
  case None
  then obtain m n where g: "first_group (bounded (rep m n digit_class)) s = Some c" and "4 \<le> m" "m \<le> n" "n \<le> 12"
    using assms
    by (auto simp: guessCode_def digits_bounded split: option.splits)
  with first_group_sound [OF g] first_group_includes [OF g] show ?thesis
    by (auto simp: grps_bounded intro: digits_shape)
next
  case (Some c')
  with assms guess_loop_sound [OF Some] show ?thesis by (simp add: guessCode_def)
qed

section \<open>A number is always found\<close>

lemma digits_found:
  assumes d: "m \<le> length d" "length d \<le> n" "0 < length d" "\<forall>c \<in> set d. is_digit c"
    and e: "word_edge (rev pre)" "word_edge post"
  shows "first_group (digits_between m n) (pre @ d @ post) \<noteq> None"
proof -
  let ?st = "MS (rev pre) (d @ post) []" and ?st' = "MS (rev d @ rev pre) post []"
  have m: "?st' \<in> set (rmatch (rep m n digit_class) ?st)"
    using d by (intro rmatch_rep_Cls) auto
  have w: "is_word (hd d)" "is_word (last d)" using d by (auto simp: is_word_def)
  from d(3) obtain c d' where cd: "d = c # d'" by (cases d) auto
  from d(3) obtain c2 d2 where dc: "d = d2 @ [c2]" by (cases d rule: rev_cases) auto
  have "wordb ?st" using w cd e(1) by (auto simp: wordb_def word_edge_def split: list.splits)
  moreover have "wordb ?st'"
    using w dc e(2) by (auto simp: wordb_def word_edge_def split: list.splits)
  ultimately have "rmatch (bounded (rep m n digit_class)) ?st \<noteq> []"
    using m by (intro bounded_ne)
  then show ?thesis
    using match_first_ne [of "bounded (rep m n digit_class)" pre "d @ post"]
    by (simp add: digits_bounded first_group_bounded)
qed


section \<open>Comparing link texts\<close>

lemma lower_char_space: "is_space (lower_char c) \<Longrightarrow> is_space c"
  by (auto simp: is_space_def of_char_lower_char Let_def split: if_splits)

lemma words_no_space: "w \<in> set (words s) \<Longrightarrow> c \<in> set w \<Longrightarrow> \<not> is_space c"
proof (induction s rule: words.induct)
  case (1 s)
  show ?case
  proof (cases "dropWhile is_space s")
    case Nil
    then have "words s = []" by (simp only: words_Nil_iff)
    with "1.prems" show ?thesis by simp
  next
    case (Cons d r)
    then have "\<not> is_space d" by (metis hd_dropWhile list.sel(1) list.simps(3))
    moreover have "words s = (d # takeWhile (\<lambda>c. \<not> is_space c) r) # words (dropWhile (\<lambda>c. \<not> is_space c) r)"
      using Cons by (subst words.simps) (simp only: list.case)
    ultimately show ?thesis using "1.IH" [OF Cons] "1.prems" by (auto dest: set_takeWhileD)
  qed
qed

lemma words_ne: "w \<in> set (words s) \<Longrightarrow> w \<noteq> []"
proof (induction s rule: words.induct)
  case (1 s)
  show ?case
  proof (cases "dropWhile is_space s")
    case Nil
    then have "words s = []" by (simp only: words_Nil_iff)
    with "1.prems" show ?thesis by simp
  next
    case (Cons d r)
    then have "words s = (d # takeWhile (\<lambda>c. \<not> is_space c) r) # words (dropWhile (\<lambda>c. \<not> is_space c) r)"
      by (subst words.simps) (simp only: list.case)
    with "1.IH" [OF Cons] "1.prems" show ?thesis by auto
  qed
qed

definition lower_words :: "string \<Rightarrow> string list" where
  "lower_words s = map toLowerCase (words s)"

lemma normalize_join: "normalize s = join '' '' (lower_words s)"
proof -
  have "map lower_char '' '' = '' ''" by (simp add: js_eval)
  then show ?thesis
    unfolding normalize_def collapsed_trim lower_words_def toLowerCase_def map_join by simp
qed

lemma lower_words_props: "w \<in> set (lower_words s) \<Longrightarrow> w \<noteq> [] \<and> CHR '' '' \<notin> set w"
proof -
  assume "w \<in> set (lower_words s)"
  then obtain v where v: "v \<in> set (words s)" and w: "w = map lower_char v"
    by (auto simp: lower_words_def toLowerCase_def)
  have "\<not> is_space (lower_char c)" if "c \<in> set v" for c
    using words_no_space [OF v that] lower_char_space by blast
  then have "CHR '' '' \<notin> set w" using w space_is_space by (metis (no_types, lifting) in_set_conv_nth length_map nth_map nth_mem)
  with words_ne [OF v] w show ?thesis by simp
qed

text \<open>Joining with a space loses nothing, since no word is empty or holds one.\<close>

lemma join_words_inj:
  assumes "join '' '' (lower_words a) = join '' '' (lower_words b)"
  shows "lower_words a = lower_words b"
proof -
  have "split_on (CHR '' '') (join '' '' (lower_words s)) = lower_words s" if "lower_words s \<noteq> []" for s
    using that lower_words_props by (intro split_on_join) auto
  moreover have "join '' '' (lower_words s) = [] \<longleftrightarrow> lower_words s = []" for s
    using lower_words_props [of _ s] join_ne by (cases "lower_words s") (auto simp del: join.simps(2,3))
  ultimately show ?thesis using assms by metis
qed

lemma normalize_eq_iff: "normalize a = normalize b \<longleftrightarrow> lower_words a = lower_words b"
  using join_words_inj by (auto simp: normalize_join)

text \<open>The three classes of links a string can match, best first.\<close>

definition link_class :: "string \<Rightarrow> nat \<Rightarrow> link \<Rightarrow> bool" where
  "link_class s k l \<longleftrightarrow> (if k = 0 then lower_words (l_text l) = lower_words s
     else if k = 1 then includes_str (normalize (l_text l)) (normalize s)
     else includes_str (toLowerCase (l_href l)) (normalize s))"

definition ranked_links :: "string \<Rightarrow> link list \<Rightarrow> link list" where
  "ranked_links s ls = concat (map (\<lambda>k. filter (link_class s k) ls) [0, 1, 2])"

lemma link_class_eqs:
  "(\<lambda>l. normalize (l_text l) = normalize s) = link_class s 0"
  "(\<lambda>l. includes_str (normalize (l_text l)) (normalize s)) = link_class s 1"
  "(\<lambda>l. includes_str (toLowerCase (l_href l)) (normalize s)) = link_class s 2"
  by (simp_all add: link_class_def normalize_eq_iff fun_eq_iff)

lemma find_filter: "find p xs = (case filter p xs of [] \<Rightarrow> None | x # _ \<Rightarrow> Some x)"
  by (induction xs) auto

section \<open>The properties\<close>

text \<open>
  Two link texts are the same to \<open>matchLinks\<close> exactly when they have the same words,
  whatever the case and the white space between and around them.
\<close>

theorem normalize_words: "normalize a = normalize b \<longleftrightarrow> lower_words a = lower_words b"
  by (rule normalize_eq_iff)

text \<open>
  C32: With a string, \<open>findLink\<close> throws exactly when no link qualifies, and otherwise returns
  the first link of the best class: the same words, then containing text, then containing href.
\<close>

theorem findLink_best:
  "case findLink e (LM_str s) of
     Inl _ \<Rightarrow> \<not> hasLink e (LM_str s) \<and> ranked_links s (e_links e) = []
   | Inr l \<Rightarrow> hasLink e (LM_str s) \<and> (\<exists>ls. ranked_links s (e_links e) = l # ls)"
proof -
  define c where "c = (\<lambda>k. filter (link_class s k) (e_links e))"
  have eq: "fst (matchLinks (e_links e) (LM_str s)) =
      (case c 0 of x # _ \<Rightarrow> Some x | [] \<Rightarrow> (case c 1 of x # _ \<Rightarrow> Some x | [] \<Rightarrow>
        (case c 2 of x # _ \<Rightarrow> Some x | [] \<Rightarrow> None)))"
    unfolding c_def matchLinks_def
    by (simp only: Let_def link_matcher.case fst_conv link_class_eqs find_filter) (auto split: list.splits)
  have ranked: "ranked_links s (e_links e) = c 0 @ c 1 @ c 2" by (simp add: ranked_links_def c_def)
  show ?thesis
    unfolding findLink_def hasLink_def eq ranked
    by (cases "c 0"; cases "c 1"; cases "c 2"; auto simp: Let_def)
qed

text \<open>
  With a RegExp the result does not depend on the \<open>lastIndex\<close> the object arrives with, nor on
  what its earlier tests left there: it is the first link whose text or href a fresh object matches.
\<close>

theorem matchLinks_regexp:
  "fst (matchLinks links (LM_re src r)) =
     find (\<lambda>l. rx_fresh_test r (l_text l) \<or> rx_fresh_test r (l_href l)) links"
  by (simp add: matchLinks_def find_re_fresh [symmetric] split: prod.splits)

text \<open>
  A code \<open>findCode\<close> finds by itself occurs in the text searched, has 4 to 12 characters of
  \<open>[A-Z0-9-]\<close>, and neither starts nor ends with a dash.
\<close>

theorem findCode_shape:
  assumes "findCode e None = Inr c"
  shows "includes_str (code_text e) c \<and> code_shape c"
  using assms guessCode_shape by (auto simp: findCode_def Let_def split: option.splits if_splits)

text \<open>
  A number of 4 to 8 digits that stands by itself is enough: \<open>findCode\<close> then returns a code
  and does not throw.
\<close>

theorem findCode_finds_number:
  assumes "code_text e = pre @ d @ post" "4 \<le> length d" "length d \<le> 8" "list_all is_digit d"
    "word_edge (rev pre)" "word_edge post"
  shows "\<exists>c. findCode e None = Inr c"
proof -
  have "first_group (digits_between 4 8) (code_text e) \<noteq> None"
    unfolding assms(1) using assms(2-) by (intro digits_found) (auto simp: list_all_iff)
  then have "guessCode (code_text e) \<noteq> None" by (auto simp: guessCode_def split: option.splits)
  then obtain c where c: "guessCode (code_text e) = Some c" by blast
  with guessCode_shape [OF c] have "c \<noteq> []" by (auto simp: code_shape_def)
  with c show ?thesis by (simp add: findCode_def Let_def)
qed

definition sample_email :: email where
  "sample_email = new_Email \<lparr>d_id = ''7'', d_messageId = None, d_from = \<lparr>a_name = None, a_address = ''a@x''\<rparr>,
     d_to = None, d_cc = None, d_replyTo = None, d_subject = ''Hi'', d_date = None, d_text = Some ''1234 !'',
     d_html = None, d_headers = None, d_attachments = None, d_links = None, d_envelope = None, d_size = 1,
     d_createdAt = []\<rparr>"

lemma sample_text: "code_text sample_email = ''1234 !''"
  by (simp add: code_text_def sample_email_def new_Email_def js_eval)

theorem findCode_finds_number_witness: "\<exists>c. findCode sample_email None = Inr c"
proof (rule findCode_finds_number)
  show "code_text sample_email = [] @ ''1234'' @ '' !''" by (simp add: sample_text)
qed (simp_all add: word_edge_def js_eval)

lemma sample_guess: "guessCode ''1234 !'' = Some ''1234''"
proof -
  have "search keyword [] ''1234 !'' = None"
    by (simp add: keyword_def rx_eval js_eval)
  then have "guess_loop ''1234 !'' (matchAll keyword ''1234 !'') = None"
    by (simp add: matchAll_def segments_None)
  then show ?thesis
    by (simp add: guessCode_def first_group_def match_first_def digits_between_def m_group_def rx_eval js_eval)
qed

theorem findCode_shape_witness: "includes_str (code_text sample_email) ''1234'' \<and> code_shape ''1234''"
  by (rule findCode_shape) (simp add: findCode_def Let_def sample_text sample_guess)

text \<open>
  The look-ahead that demands a digit can look past the token, which holds at most 12
  characters: the "code" returned may then have no digit at all.
\<close>

theorem guessCode_without_digit: "guessCode ''code ABCD---------1'' = Some ''ABCD''"
proof -
  have "search keyword [] ''code ABCD---------1'' =
      Some ([], \<lparr>m_text = ''code'', m_caps = []\<rparr>, ''edoc'', '' ABCD---------1'')"
    by (simp add: keyword_def rx_eval js_eval)
  moreover have "search keyword ''edoc'' '' ABCD---------1'' = None"
    by (simp add: keyword_def rx_eval js_eval)
  ultimately have "matchAll keyword ''code ABCD---------1'' = [(0, \<lparr>m_text = ''code'', m_caps = []\<rparr>)]"
    by (simp add: matchAll_def segments_None segments_Some)
  moreover have "search codeToken [] '' ABCD---------1'' =
      Some ('' '', \<lparr>m_text = ''ABCD'', m_caps = [(1, ''ABCD'')]\<rparr>, ''DCBA '', ''---------1'')"
    by (simp add: codeToken_def codeToken_body_def code_char_def code_end_def rx_eval js_eval)
  ultimately show ?thesis
    by (simp add: guessCode_def first_group_def match_first_def m_group_def slice_def rel_index_def truthy_def)
qed

text \<open>
  Unlike \<open>findLink\<close>, \<open>hasAttachment\<close> does not reset \<open>lastIndex\<close>: asking twice with the same
  global RegExp gives two answers.
\<close>

definition pdf_regexp :: jsregexp where
  "pdf_regexp = \<lparr>rx_pattern = lit ''pdf'', rx_global = True, rx_sticky = False, rx_lastIndex = 0\<rparr>"

definition pdf_email :: email where
  "pdf_email = sample_email\<lparr>e_attachments := [\<lparr>at_id = ''1'', at_filename = ''a.pdf'', at_contentType = [],
     at_contentId = None, at_inline = False, at_size = 1\<rparr>]\<rparr>"

theorem hasAttachment_alternates:
  "hasAttachment pdf_email (AM_re pdf_regexp) = (True, AM_re (pdf_regexp\<lparr>rx_lastIndex := 5\<rparr>)) \<and>
   hasAttachment pdf_email (AM_re (pdf_regexp\<lparr>rx_lastIndex := 5\<rparr>)) = (False, AM_re pdf_regexp)"
  by (simp add: hasAttachment_def pdf_email_def pdf_regexp_def rx_test_def rx_exec_def rx_eval js_eval)

end
