(* ===== verification/Store_Filter.thy ===== *)
theory Store_Filter
  imports Types
begin

text \<open>
  The server's messages (\<open>internal/mail/message.go\<close>) and its filter
  (\<open>internal/store/filter.go\<close>), with the conversion of a message to the summary the REST
  API sends: \<open>Message.Summary\<close> followed by Go's JSON encoding. A Go \<open>time.Time\<close> is its count
  of nanoseconds since 1970; the zero time is 0001-01-01T00:00:00Z.
\<close>

section \<open>Messages of the server\<close>

record mail_address =
  ma_name :: string
  ma_address :: string

record mail_attachment =
  mt_id :: string
  mt_filename :: string
  mt_contentType :: string
  mt_contentId :: string
  mt_inline :: bool
  mt_size :: int
  mt_data :: string

record mail_message =
  mm_id :: string
  mm_messageId :: string
  mm_from :: mail_address
  mm_to :: "mail_address list"
  mm_cc :: "mail_address list"
  mm_replyTo :: "mail_address list"
  mm_subject :: string
  mm_date :: "int option"
  mm_text :: string
  mm_html :: string
  mm_headers :: "(string \<times> string list) list"
  mm_attachments :: "mail_attachment list"
  mm_links :: "link list"
  mm_env_from :: string
  mm_env_to :: "string list"
  mm_size :: int
  mm_createdAt :: int

text \<open>JSON of an address: an empty name is left out (\<open>omitempty\<close>).\<close>

definition omitempty :: "string \<Rightarrow> string option" where
  [js_eval]: "omitempty s = (if s = [] then None else Some s)"

definition json_address :: "mail_address \<Rightarrow> address" where
  [js_eval]: "json_address a = \<lparr>a_name = omitempty (ma_name a), a_address = ma_address a\<rparr>"

definition json_attachment :: "mail_attachment \<Rightarrow> attachment" where
  [js_eval]: "json_attachment a = \<lparr>at_id = mt_id a, at_filename = mt_filename a,
     at_contentType = mt_contentType a, at_contentId = omitempty (mt_contentId a),
     at_inline = mt_inline a, at_size = mt_size a\<rparr>"

definition Summary :: "mail_message \<Rightarrow> message_summary" where
  [js_eval]: "Summary m = \<lparr>s_id = mm_id m, s_from = json_address (mm_from m),
     s_to = map json_address (mm_to m), s_cc = map json_address (mm_cc m),
     s_subject = mm_subject m,
     s_envelope = Some \<lparr>env_from = mm_env_from m, env_to = mm_env_to m\<rparr>,
     s_attachments = int (length (mm_attachments m)), s_size = mm_size m,
     s_createdAt = rfc3339Nano (mm_createdAt m)\<rparr>"

text \<open>JSON of a whole message.\<close>

definition json_message :: "mail_message \<Rightarrow> message_data" where
  [js_eval]: "json_message m = \<lparr>d_id = mm_id m, d_messageId = omitempty (mm_messageId m),
     d_from = json_address (mm_from m), d_to = Some (map json_address (mm_to m)),
     d_cc = Some (map json_address (mm_cc m)), d_replyTo = Some (map json_address (mm_replyTo m)),
     d_subject = mm_subject m, d_date = map_option rfc3339Nano (mm_date m), d_text = Some (mm_text m), d_html = Some (mm_html m),
     d_headers = Some (mm_headers m), d_attachments = Some (map json_attachment (mm_attachments m)),
     d_links = Some (mm_links m),
     d_envelope = Some \<lparr>env_from = mm_env_from m, env_to = mm_env_to m\<rparr>,
     d_size = mm_size m, d_createdAt = rfc3339Nano (mm_createdAt m)\<rparr>"

section \<open>The filter\<close>

record go_filter =
  gf_To :: string
  gf_Address :: string
  gf_From :: string
  gf_Subject :: string
  gf_Body :: string
  gf_Query :: string
  gf_Since :: int

definition zero_time :: int where
  [js_eval]: "zero_time = - 62135596800000000000"

definition zero_filter :: go_filter where
  [js_eval]: "zero_filter = \<lparr>gf_To = [], gf_Address = [], gf_From = [], gf_Subject = [], gf_Body = [],
     gf_Query = [], gf_Since = zero_time\<rparr>"

definition IsZero :: "go_filter \<Rightarrow> bool" where
  [js_eval]: "IsZero f \<longleftrightarrow> f = zero_filter"

definition lower :: "string \<Rightarrow> string" where
  [js_eval]: "lower s = toLowerCase (TrimSpace s)"

definition go_contains :: "string \<Rightarrow> string \<Rightarrow> bool" where
  [js_eval]: "go_contains s lowerNeedle = includes_str (toLowerCase s) lowerNeedle"

text \<open>\<open>strings.EqualFold\<close>; on Latin-1 its folding pairs exactly the letters
  \<^const>\<open>lower_char\<close> pairs.\<close>

definition EqualFold :: "string \<Rightarrow> string \<Rightarrow> bool" where
  [js_eval]: "EqualFold s t \<longleftrightarrow> toLowerCase s = toLowerCase t"

definition matchAddress :: "mail_address \<Rightarrow> string \<Rightarrow> bool" where
  [js_eval]: "matchAddress a needle \<longleftrightarrow> go_contains (ma_address a) needle \<or> go_contains (ma_name a) needle"

definition matchTo :: "mail_message \<Rightarrow> string \<Rightarrow> bool" where
  [js_eval]: "matchTo m needle \<longleftrightarrow>
     list_ex (\<lambda>a. matchAddress a needle) (mm_to m) \<or> list_ex (\<lambda>a. matchAddress a needle) (mm_cc m) \<or>
     list_ex (\<lambda>rcpt. go_contains rcpt needle) (mm_env_to m)"

definition hasRecipient :: "mail_message \<Rightarrow> string \<Rightarrow> bool" where
  [js_eval]: "hasRecipient m address = (let address = TrimSpace address in
     list_ex (\<lambda>a. EqualFold (ma_address a) address) (mm_to m) \<or>
     list_ex (\<lambda>a. EqualFold (ma_address a) address) (mm_cc m) \<or>
     list_ex (\<lambda>rcpt. EqualFold rcpt address) (mm_env_to m))"

definition matchBody :: "mail_message \<Rightarrow> string \<Rightarrow> bool" where
  [js_eval]: "matchBody m needle \<longleftrightarrow> go_contains (mm_text m) needle \<or> go_contains (mm_html m) needle"

definition matchFrom :: "mail_message \<Rightarrow> string \<Rightarrow> bool" where
  [js_eval]: "matchFrom m needle \<longleftrightarrow> matchAddress (mm_from m) needle \<or> go_contains (mm_env_from m) needle"

definition Match :: "go_filter \<Rightarrow> mail_message \<Rightarrow> bool" where
  [js_eval]: "Match f m =
     (if gf_Since f \<noteq> zero_time \<and> mm_createdAt m < gf_Since f then False
      else if gf_To f \<noteq> [] \<and> \<not> matchTo m (lower (gf_To f)) then False
      else if gf_Address f \<noteq> [] \<and> \<not> hasRecipient m (gf_Address f) then False
      else if gf_From f \<noteq> [] \<and> \<not> matchFrom m (lower (gf_From f)) then False
      else if gf_Subject f \<noteq> [] \<and> \<not> go_contains (mm_subject m) (lower (gf_Subject f)) then False
      else if gf_Body f \<noteq> [] \<and> \<not> matchBody m (lower (gf_Body f)) then False
      else if gf_Query f \<noteq> [] \<and>
        \<not> (let q = lower (gf_Query f) in
            go_contains (mm_subject m) q \<or> matchFrom m q \<or> matchTo m q \<or> matchBody m q) then False
      else True)"

text \<open>The conditions are conjoined.\<close>

lemma Match_iff:
  "Match f m \<longleftrightarrow>
     (gf_Since f = zero_time \<or> gf_Since f \<le> mm_createdAt m) \<and>
     (gf_To f = [] \<or> matchTo m (lower (gf_To f))) \<and>
     (gf_Address f = [] \<or> hasRecipient m (gf_Address f)) \<and>
     (gf_From f = [] \<or> matchFrom m (lower (gf_From f))) \<and>
     (gf_Subject f = [] \<or> go_contains (mm_subject m) (lower (gf_Subject f))) \<and>
     (gf_Body f = [] \<or> matchBody m (lower (gf_Body f))) \<and>
     (gf_Query f = [] \<or> (let q = lower (gf_Query f) in
        go_contains (mm_subject m) q \<or> matchFrom m q \<or> matchTo m q \<or> matchBody m q))"
  by (auto simp: Match_def Let_def not_less)

lemma Match_zero [simp]: "Match zero_filter m"
  by (simp add: Match_iff zero_filter_def)

section \<open>From the SDK's filter to the server's\<close>

text \<open>\<open>strconv.ParseInt(s, 10, 64)\<close>: an optional sign, digits, within 64 bits.\<close>

definition ParseInt :: "string \<Rightarrow> int option" where
  [js_eval]: "ParseInt s =
     (let (neg, ds) = (case s of [] \<Rightarrow> (False, [])
        | c # r \<Rightarrow> if c = CHR ''-'' then (True, r) else if c = CHR ''+'' then (False, r) else (False, s))
      in case read_nat ds of
           None \<Rightarrow> None
         | Some n \<Rightarrow> (let i = (if neg then - int n else int n) in
             if - (2 ^ 63) \<le> i \<and> i < 2 ^ 63 then Some i else None))"

text \<open>The \<open>since\<close> branch of \<open>parseFilter\<close> in \<open>internal/api/api.go\<close>: Unix milliseconds, or
  RFC 3339, or an error.\<close>

definition parse_since :: "string \<Rightarrow> int option" where
  [js_eval]: "parse_since v =
     (if v = [] then Some zero_time
      else case ParseInt v of
        Some ms \<Rightarrow> Some (ms * 1000000)
      | None \<Rightarrow> time_Parse v)"

lemma ParseInt_show_nat:
  "n < 2 ^ 63 \<Longrightarrow> ParseInt (show_nat n) = Some (int n)"
proof -
  assume n: "n < 2 ^ 63"
  obtain c r where c: "show_nat n = c # r" using show_nat_ne by (meson list.exhaust)
  then have "is_digit c" by (metis list.set_intros(1) show_nat_digits)
  then have "c \<noteq> CHR ''-''" "c \<noteq> CHR ''+''" by (auto simp: is_digit_def)
  moreover have "read_nat (c # r) = Some n" using c read_show_nat by metis
  moreover have "int n < 2 ^ 63" using n by (metis of_nat_less_iff of_nat_numeral of_nat_power)
  ultimately show ?thesis by (simp add: ParseInt_def c)
qed

lemma ParseInt_show_int:
  "- (2 ^ 63) < i \<Longrightarrow> i < 2 ^ 63 \<Longrightarrow> ParseInt (show_int i) = Some i"
  using ParseInt_show_nat [of "nat i"] by (auto simp: show_int_def ParseInt_def nat_less_iff)

lemma is_digit_no_sign: "is_digit c \<Longrightarrow> c \<noteq> CHR ''-'' \<and> c \<noteq> CHR ''+''"
  by (auto simp: is_digit_def)

lemma parse_since_toISOString:
  assumes "- 62167219200000 \<le> t" "t < 253402300800000"
  shows "parse_since (toISOString t) = Some (t * 1000000)"
proof -
  obtain c r where c: "toISOString t = c # r" "is_digit c" "read_nat (c # r) = None"
    using toISOString_not_digits by blast
  then have "ParseInt (c # r) = None" using is_digit_no_sign [of c] by (simp add: ParseInt_def)
  with c(1) time_Parse_toISOString [OF assms] show ?thesis by (simp add: parse_since_def)
qed

end
