(* ===== verification/Diagnose.thy ===== *)
theory Diagnose
  imports Store_Filter
begin

text \<open>
  \<open>packages/client/src/diagnose.ts\<close>: why a message does not match a filter. The properties
  relate it to the server's \<open>Filter.Match\<close>, whose rules it mirrors.
\<close>

section \<open>explainMismatch\<close>

definition includes_needle :: "string option \<Rightarrow> string \<Rightarrow> bool" where
  [js_eval]: "includes_needle v needle = includes_str (toLowerCase (nullish v [])) (toLowerCase (trim needle))"

text \<open>\<open>new Date(f.since).getTime()\<close>; an invalid date is \<open>NaN\<close>.\<close>

definition since_time :: "fval \<Rightarrow> int option" where
  [js_eval]: "since_time v = (case v of FStr s \<Rightarrow> Date_parse s | FDate t \<Rightarrow> Some t | FNum n \<Rightarrow> Some n | FUndef \<Rightarrow> None)"

text \<open>\<open>a < b\<close> on numbers that may be \<open>NaN\<close>.\<close>

definition js_less :: "int option \<Rightarrow> int option \<Rightarrow> bool" where
  [js_eval]: "js_less a b \<longleftrightarrow> (case (a, b) of (Some x, Some y) \<Rightarrow> x < y | _ \<Rightarrow> False)"

definition recipients_of :: "message_summary \<Rightarrow> address list" where
  [js_eval]: "recipients_of m = s_to m @ s_cc m"

definition envelopeTo_of :: "message_summary \<Rightarrow> string list" where
  [js_eval]: "envelopeTo_of m = (case s_envelope m of None \<Rightarrow> [] | Some e \<Rightarrow> env_to e)"

definition reason_address :: "message_summary \<Rightarrow> message_filter \<Rightarrow> string list" where
  [js_eval]: "reason_address m f = (case ftruthy f K_address of
     None \<Rightarrow> []
   | Some a \<Rightarrow>
       (let wanted = toLowerCase (trim a);
            all = map a_address (recipients_of m) @ envelopeTo_of m
        in if list_ex (\<lambda>x. toLowerCase x = wanted) all then []
           else [''not sent to '' @ json_string a]))"

definition reason_to :: "message_summary \<Rightarrow> message_filter \<Rightarrow> string list" where
  [js_eval]: "reason_to m f = (case ftruthy f K_to of
     None \<Rightarrow> []
   | Some to \<Rightarrow>
       (let hit = list_ex (\<lambda>a. includes_needle (Some (a_address a)) to \<or>
                              includes_needle (a_name a) to) (recipients_of m) \<or>
                  list_ex (\<lambda>a. includes_needle (Some a) to) (envelopeTo_of m)
        in if hit then [] else [''no recipient contains '' @ json_string to]))"

definition reason_from :: "message_summary \<Rightarrow> message_filter \<Rightarrow> string list" where
  [js_eval]: "reason_from m f = (case ftruthy f K_from of
     None \<Rightarrow> []
   | Some from \<Rightarrow>
       if \<not> includes_needle (Some (a_address (s_from m))) from \<and>
          \<not> includes_needle (a_name (s_from m)) from \<and>
          \<not> includes_needle (map_option env_from (s_envelope m)) from
       then [''from '' @ or_str (a_address (s_from m)) ''(none)'' @ '', not '' @ json_string from]
       else [])"

definition reason_subject :: "message_summary \<Rightarrow> message_filter \<Rightarrow> string list" where
  [js_eval]: "reason_subject m f = (case ftruthy f K_subject of
     None \<Rightarrow> []
   | Some subject \<Rightarrow>
       if \<not> includes_needle (Some (s_subject m)) subject
       then [''subject does not contain '' @ json_string subject] else [])"

definition reason_q :: "message_summary \<Rightarrow> message_filter \<Rightarrow> string list" where
  [js_eval]: "reason_q m f = (case ftruthy f K_q of
     None \<Rightarrow> []
   | Some q \<Rightarrow>
       (let hit = includes_needle (Some (s_subject m)) q \<or>
                  includes_needle (Some (a_address (s_from m))) q \<or>
                  includes_needle (a_name (s_from m)) q \<or>
                  list_ex (\<lambda>a. includes_needle (Some (a_address a)) q \<or>
                               includes_needle (a_name a) q) (recipients_of m)
        in if hit then []
           else [''does not match '' @ json_string q @ '' (subject, from, to or body)'']))"

definition reason_since :: "message_summary \<Rightarrow> message_filter \<Rightarrow> string list" where
  [js_eval]: "reason_since m f =
     (if fget f K_since = FUndef then []
      else if js_less (Date_parse (s_createdAt m)) (since_time (fget f K_since))
      then [''received before `since`''] else [])"

definition explainMismatch :: "message_summary \<Rightarrow> message_filter \<Rightarrow> string list" where
  [js_eval]: "explainMismatch m f =
     (let reasons = reason_address m f @ reason_to m f @ reason_from m f @ reason_subject m f @
            reason_q m f @ reason_since m f
      in case ftruthy f K_body of
           None \<Rightarrow> reasons
         | Some b \<Rightarrow> if reasons = [] then reasons @ [''body does not contain '' @ json_string b]
                     else reasons)"

section \<open>The filter the server builds from the SDK's\<close>

text \<open>
  The text fields travel unchanged, an absent or empty one as the empty string; \<open>since\<close> is
  sent as Unix milliseconds or as \<open>toISOString\<close> and becomes nanoseconds.
\<close>

definition since_ns :: "fval \<Rightarrow> int option" where
  [js_eval]: "since_ns v = (case v of FUndef \<Rightarrow> Some zero_time | FDate t \<Rightarrow> Some (t * 1000000)
     | FNum n \<Rightarrow> Some (n * 1000000) | FStr s \<Rightarrow> parse_since s)"

definition to_go_filter :: "message_filter \<Rightarrow> int \<Rightarrow> go_filter" where
  [js_eval]: "to_go_filter f ns = \<lparr>gf_To = nullish (ftruthy f K_to) [], gf_Address = nullish (ftruthy f K_address) [],
     gf_From = nullish (ftruthy f K_from) [], gf_Subject = nullish (ftruthy f K_subject) [],
     gf_Body = nullish (ftruthy f K_body) [], gf_Query = nullish (ftruthy f K_q) [], gf_Since = ns\<rparr>"

section \<open>Needles on the two sides\<close>

lemma lower_in_needle: "includes_str (toLowerCase (trim needle)) (lower needle)"
  using TrimSpace_in_trim [of needle]
  by (auto simp: includes_str_sublist lower_def toLowerCase_def map_mono_sublist)

text \<open>What the SDK finds, the server finds: its needle is part of the SDK's.\<close>

lemma includes_needle_go:
  "includes_needle v needle \<Longrightarrow> go_contains (nullish v []) (lower needle)"
  unfolding includes_needle_def go_contains_def by (rule includes_str_trans [OF _ lower_in_needle])

lemma includes_needle_eq:
  "TrimSpace needle = trim needle \<Longrightarrow> includes_needle v needle = go_contains (nullish v []) (lower needle)"
  by (simp add: includes_needle_def go_contains_def lower_def)

lemma name_json [simp]: "nullish (a_name (json_address a)) [] = ma_name a"
  by (simp add: json_address_def omitempty_def)

lemma address_json [simp]: "a_address (json_address a) = ma_address a"
  by (simp add: json_address_def)

lemma ftruthy_ne: "ftruthy f k = Some s \<Longrightarrow> s \<noteq> []"
  by (auto simp: ftruthy_def split: option.splits if_splits)

lemma createdAt_ms:
  "- 62167219200000000000 \<le> mm_createdAt m \<Longrightarrow> mm_createdAt m < 253402300800000000000 \<Longrightarrow>
     Date_parse (s_createdAt (Summary m)) = Some (mm_createdAt m div 1000000)"
  by (simp add: Summary_def Date_parse_rfc3339Nano)

text \<open>A message's millisecond is before \<open>t\<close> exactly when its nanosecond is before \<open>t\<close>'s.\<close>

lemma ms_less_iff: "ns div 1000000 < t \<longleftrightarrow> ns < t * (1000000 :: int)"
proof -
  have "ns = 1000000 * (ns div 1000000) + ns mod 1000000" "0 \<le> ns mod 1000000" "ns mod 1000000 < 1000000"
    by simp_all
  then show ?thesis by linarith
qed

lemma explain_Nil_iff:
  "explainMismatch m f = [] \<longleftrightarrow>
     ftruthy f K_body = None \<and> reason_address m f = [] \<and> reason_to m f = [] \<and> reason_from m f = [] \<and>
     reason_subject m f = [] \<and> reason_q m f = [] \<and> reason_since m f = []"
  by (auto simp: explainMismatch_def Let_def split: option.splits)

section \<open>Each reason against the server's clause\<close>

lemma recipients_Summary: "recipients_of (Summary m) = map json_address (mm_to m @ mm_cc m)"
  by (simp add: recipients_of_def Summary_def)

lemma envelopeTo_Summary: "envelopeTo_of (Summary m) = mm_env_to m"
  by (simp add: envelopeTo_of_def Summary_def)

lemmas summary_simps = recipients_Summary envelopeTo_Summary

lemma summary_fields [simp]:
  "s_subject (Summary m) = mm_subject m"
  "s_from (Summary m) = json_address (mm_from m)"
  "map_option env_from (s_envelope (Summary m)) = Some (mm_env_from m)"
  by (simp_all add: Summary_def)

lemma match_address_if:
  "includes_needle (Some (a_address (json_address a))) n \<or> includes_needle (a_name (json_address a)) n \<Longrightarrow>
     matchAddress a (lower n)"
  using includes_needle_go [of "a_name (json_address a)" n] includes_needle_go [of "Some (ma_address a)" n]
  by (auto simp del: nullish_def simp: matchAddress_def) simp

lemma match_address_eq:
  "TrimSpace n = trim n \<Longrightarrow>
     (includes_needle (Some (a_address (json_address a))) n \<or> includes_needle (a_name (json_address a)) n) =
     matchAddress a (lower n)"
  using includes_needle_eq [of n "a_name (json_address a)"] includes_needle_eq [of n "Some (ma_address a)"]
  by (simp del: nullish_def add: matchAddress_def) simp

lemma reason_to_sound:
  assumes "reason_to (Summary m) f = []" "ftruthy f K_to = Some to"
  shows "matchTo m (lower to)"
proof -
  from assms have "(\<exists>a \<in> set (mm_to m @ mm_cc m).
        includes_needle (Some (a_address (json_address a))) to \<or> includes_needle (a_name (json_address a)) to) \<or>
      (\<exists>a \<in> set (mm_env_to m). includes_needle (Some a) to)"
    by (auto simp: reason_to_def summary_simps list_ex_iff Let_def split: if_splits)
  then show ?thesis
    using match_address_if includes_needle_go [of "Some _" to]
    by (fastforce simp: matchTo_def list_ex_iff)
qed

lemma reason_from_sound:
  assumes "reason_from (Summary m) f = []" "ftruthy f K_from = Some from"
  shows "matchFrom m (lower from)"
proof -
  from assms have "(includes_needle (Some (a_address (json_address (mm_from m)))) from \<or>
      includes_needle (a_name (json_address (mm_from m))) from) \<or> includes_needle (Some (mm_env_from m)) from"
    by (auto simp: reason_from_def split: if_splits)
  then show ?thesis
    using match_address_if [of "mm_from m" "from"] includes_needle_go [of "Some (mm_env_from m)" "from"]
    by (auto simp: matchFrom_def)
qed

lemma reason_subject_sound:
  assumes "reason_subject (Summary m) f = []" "ftruthy f K_subject = Some subject"
  shows "go_contains (mm_subject m) (lower subject)"
  using assms includes_needle_go [of "Some (mm_subject m)" subject]
  by (auto simp: reason_subject_def split: if_splits)

lemma reason_q_sound:
  assumes "reason_q (Summary m) f = []" "ftruthy f K_q = Some q"
  shows "go_contains (mm_subject m) (lower q) \<or> matchFrom m (lower q) \<or> matchTo m (lower q)"
proof -
  have "includes_needle (Some (mm_subject m)) q \<or>
      (includes_needle (Some (a_address (json_address (mm_from m)))) q \<or>
       includes_needle (a_name (json_address (mm_from m))) q) \<or>
      (\<exists>a \<in> set (mm_to m @ mm_cc m). includes_needle (Some (a_address (json_address a))) q \<or>
         includes_needle (a_name (json_address a)) q)"
    using assms by (auto simp: reason_q_def summary_simps list_ex_iff Let_def split: if_splits)
  then consider "includes_needle (Some (mm_subject m)) q"
    | "includes_needle (Some (a_address (json_address (mm_from m)))) q \<or>
       includes_needle (a_name (json_address (mm_from m))) q"
    | a where "a \<in> set (mm_to m @ mm_cc m)"
        "includes_needle (Some (a_address (json_address a))) q \<or> includes_needle (a_name (json_address a)) q"
    by blast
  then show ?thesis
  proof cases
    case 1
    then show ?thesis using includes_needle_go [of "Some (mm_subject m)" q] by simp
  next
    case 2
    then have "matchAddress (mm_from m) (lower q)" by (rule match_address_if)
    then show ?thesis by (simp add: matchFrom_def)
  next
    case 3
    then have "matchAddress a (lower q)" by (intro match_address_if)
    with 3(1) show ?thesis by (auto simp: matchTo_def list_ex_iff)
  qed
qed

lemma reason_address_iff:
  assumes "ftruthy f K_address = Some a" "TrimSpace a = trim a"
  shows "reason_address (Summary m) f = [] \<longleftrightarrow> hasRecipient m a"
  using assms
  by (auto simp: reason_address_def summary_simps hasRecipient_def EqualFold_def list_ex_iff Let_def
      split: if_splits)

lemma reason_since_iff:
  assumes t: "- 62167219200000000000 \<le> mm_createdAt m" "mm_createdAt m < 253402300800000000000"
    and s: "fget f K_since \<noteq> FUndef" "since_time (fget f K_since) = Some k"
  shows "reason_since (Summary m) f = [] \<longleftrightarrow> k * 1000000 \<le> mm_createdAt m"
  using s createdAt_ms [OF t] ms_less_iff [of "mm_createdAt m" k]
  by (auto simp: reason_since_def since_time_def js_less_def not_less)

section \<open>The properties\<close>

text \<open>
  The two sides read \<open>since\<close> as the same instant: a Date, a number of milliseconds, or a string that
  \<open>Date.parse\<close> and the server take for the same time, such as ISO 8601 to the millisecond.
\<close>

definition since_alike :: "message_filter \<Rightarrow> bool" where
  [js_eval]: "since_alike f \<longleftrightarrow> (case fget f K_since of
     FStr s \<Rightarrow> s = [] \<or> Date_parse s \<noteq> None \<and> parse_since s = map_option (\<lambda>t. t * 1000000) (Date_parse s)
   | _ \<Rightarrow> True)"

lemma since_alike_iso:
  assumes "fget f K_since = FStr (toISOString t)" "- 62167219200000 \<le> t" "t < 253402300800000"
  shows "since_alike f"
  using assms Date_parse_toISOString parse_since_toISOString by (simp add: since_alike_def)

text \<open>A message received in the years 1 to 9999.\<close>

definition in_calendar :: "mail_message \<Rightarrow> bool" where
  [js_eval]: "in_calendar m \<longleftrightarrow> zero_time \<le> mm_createdAt m \<and> mm_createdAt m < 253402300800000000000"

text \<open>The two trims agree on a field (no U+0085 at its ends).\<close>

definition same_trim :: "message_filter \<Rightarrow> fkey \<Rightarrow> bool" where
  [js_eval]: "same_trim f k \<longleftrightarrow> (case ftruthy f k of None \<Rightarrow> True | Some s \<Rightarrow> TrimSpace s = trim s)"

text \<open>A message and a filter for the witnesses.\<close>

definition sample_message :: mail_message where
  [js_eval]: "sample_message = \<lparr>mm_id = ''1'', mm_messageId = [],
     mm_from = \<lparr>ma_name = [], ma_address = ''app@acme.test''\<rparr>,
     mm_to = [\<lparr>ma_name = ''Ana'', ma_address = ''Ana@x.test''\<rparr>], mm_cc = [], mm_replyTo = [],
     mm_subject = ''Welcome'', mm_date = None, mm_text = ''hi'', mm_html = [], mm_headers = [],
     mm_attachments = [], mm_links = [], mm_env_from = ''app@acme.test'',
     mm_env_to = [''ana@x.test''], mm_size = 1, mm_createdAt = 5000001\<rparr>"

definition sample_filter :: message_filter where
  [js_eval]: "sample_filter = [(K_address, FStr '' ana@X.test''), (K_subject, FStr ''WELC''), (K_q, FUndef)]"

lemma since_read:
  assumes "since_alike f" "since_ns (fget f K_since) = Some ns"
  obtains (none) "reason_since (Summary m) f = []" "ns = zero_time"
  | (some) k where "fget f K_since \<noteq> FUndef" "since_time (fget f K_since) = Some k" "ns = k * 1000000"
proof (cases "fget f K_since")
  case (FStr s)
  show ?thesis
  proof (cases "s = []")
    case True
    with FStr assms(2) have "ns = zero_time" by (simp add: since_ns_def parse_since_def)
    moreover have "Date_parse [] = None" by (simp add: Date_parse_def parse_date_part_def digits_def)
    then have "reason_since (Summary m) f = []" using FStr True by (simp add: reason_since_def since_time_def js_less_def split: option.split)
    ultimately show ?thesis by (intro none)
  next
    case False
    with FStr assms obtain k where "Date_parse s = Some k" "parse_since s = Some (k * 1000000)" by (auto simp: since_alike_def)
    with FStr assms(2) show ?thesis by (intro some [of k]) (simp_all add: since_ns_def since_time_def)
  qed
next
  case (FDate t)
  with assms(2) show ?thesis by (intro some [of t]) (auto simp: since_ns_def since_time_def)
next
  case (FNum n)
  with assms(2) show ?thesis by (intro some [of n]) (auto simp: since_ns_def since_time_def)
next
  case FUndef
  with assms(2) show ?thesis by (intro none) (auto simp: since_ns_def reason_since_def)
qed

lemma since_exact:
  assumes cal: "in_calendar m" and al: "since_alike f" and ns: "since_ns (fget f K_since) = Some ns"
  shows "reason_since (Summary m) f = [] \<longleftrightarrow> ns = zero_time \<or> ns \<le> mm_createdAt m"
  using al ns
proof (cases rule: since_read [where m = m])
  case (some k)
  with cal show ?thesis using reason_since_iff [of m f k] by (auto simp: in_calendar_def zero_time_def)
qed simp

lemma explain_sound_aux:
  assumes adr: "same_trim f K_address" and nil: "explainMismatch (Summary m) f = []"
    and since: "ns = zero_time \<or> ns \<le> mm_createdAt m"
  shows "Match (to_go_filter f ns) m"
proof -
  note r = nil [unfolded explain_Nil_iff]
  note since
  moreover have "ftruthy f K_to = Some x \<Longrightarrow> matchTo m (lower x)" for x
    using r by (blast intro: reason_to_sound)
  moreover have "ftruthy f K_from = Some x \<Longrightarrow> matchFrom m (lower x)" for x
    using r by (blast intro: reason_from_sound)
  moreover have "ftruthy f K_subject = Some x \<Longrightarrow> go_contains (mm_subject m) (lower x)" for x
    using r by (blast intro: reason_subject_sound)
  moreover have "ftruthy f K_address = Some x \<Longrightarrow> hasRecipient m x" for x
    using r adr reason_address_iff [of f x m] by (simp add: same_trim_def)
  moreover have "ftruthy f K_q = Some x \<Longrightarrow>
      go_contains (mm_subject m) (lower x) \<or> matchFrom m (lower x) \<or> matchTo m (lower x)" for x
    using r reason_q_sound [of m f x] by simp
  ultimately show ?thesis
    using r by (auto simp: Match_iff to_go_filter_def Let_def split: option.splits)
qed

text \<open>
  C10: For a message received in the years 1 to 9999 and an address that does not end in U+0085 (which Go trims and
  JavaScript does not), an empty explanation means that the message meets every condition of the filter
  but perhaps \<open>since\<close>, and \<open>since\<close> too when it is a Date, a number, or a string that both sides
  read as the same instant: then a message that the server rejected is always given a reason. With another
  \<open>since\<close> string the server accepts the message unless it was received before what the server
  reads.
\<close>

lemma explain_sound:
  assumes "in_calendar m" "same_trim f K_address" "since_ns (fget f K_since) = Some ns"
    "explainMismatch (Summary m) f = []"
  shows "Match (to_go_filter f zero_time) m \<and>
    (since_alike f \<longrightarrow> Match (to_go_filter f ns) m) \<and>
    (Match (to_go_filter f ns) m \<longleftrightarrow> ns = zero_time \<or> ns \<le> mm_createdAt m)"
proof -
  have "reason_since (Summary m) f = []" using assms(4) by (simp add: explain_Nil_iff)
  then have "since_alike f \<Longrightarrow> ns = zero_time \<or> ns \<le> mm_createdAt m" using since_exact [OF assms(1) _ assms(3)] by simp
  moreover have "Match (to_go_filter f ns) m \<Longrightarrow> ns = zero_time \<or> ns \<le> mm_createdAt m"
    by (simp add: Match_iff to_go_filter_def)
  ultimately show ?thesis using explain_sound_aux [OF assms(2,4)] by blast
qed

definition iso_filter :: message_filter where
  [js_eval]: "iso_filter = [(K_address, FStr ''ana@X.test''), (K_since, FStr (toISOString 5))]"

lemma iso_filter_ok:
  "in_calendar sample_message" "since_alike iso_filter" "since_ns (fget iso_filter K_since) = Some 5000000"
  "same_trim iso_filter K_address" "same_trim iso_filter K_to" "same_trim iso_filter K_from"
  "same_trim iso_filter K_subject" "ftruthy iso_filter K_q = None" "ftruthy iso_filter K_body = None"
  "explainMismatch (Summary sample_message) iso_filter = []"
proof -
  have g: "fget iso_filter K_since = FStr (toISOString 5)" by (simp add: js_eval)
  show cal: "in_calendar sample_message" by (simp add: js_eval)
  show al: "since_alike iso_filter" using since_alike_iso [OF g] by simp
  show ns: "since_ns (fget iso_filter K_since) = Some 5000000"
    using parse_since_toISOString [of 5] by (simp only: g since_ns_def) simp
  show "same_trim iso_filter K_address" "same_trim iso_filter K_to" "same_trim iso_filter K_from"
    "same_trim iso_filter K_subject" and no: "ftruthy iso_filter K_q = None" "ftruthy iso_filter K_body = None"
    by (simp_all add: js_eval)
  have "reason_since (Summary sample_message) iso_filter = []"
    using since_exact [OF cal al ns] by (simp add: sample_message_def)
  moreover have "reason_address (Summary sample_message) iso_filter = []" "reason_to (Summary sample_message) iso_filter = []"
    "reason_from (Summary sample_message) iso_filter = []" "reason_subject (Summary sample_message) iso_filter = []"
    "reason_q (Summary sample_message) iso_filter = []"
    by (simp_all add: js_eval)
  ultimately show "explainMismatch (Summary sample_message) iso_filter = []" using no by (simp add: explain_Nil_iff)
qed

lemma explain_sound_witness: "Match (to_go_filter iso_filter 5000000) sample_message"
  using explain_sound [OF iso_filter_ok(1,4,3,10)] iso_filter_ok(2) by blast

text \<open>
  A number of milliseconds written as a string is such another \<open>since\<close>: the server reads it, JavaScript makes
  an invalid date of it, and a message that was received before is rejected without a reason.
\<close>

lemma digits_since_unexplained:
  "parse_since ''1700000000000'' = Some (1700000000000 * 1000000) \<and>
   \<not> Match (to_go_filter [(K_since, FStr ''1700000000000'')] (1700000000000 * 1000000)) sample_message \<and>
   explainMismatch (Summary sample_message) [(K_since, FStr ''1700000000000'')] = []"
proof (intro conjI)
  show "parse_since ''1700000000000'' = Some (1700000000000 * 1000000)" by (simp add: parse_since_def ParseInt_def js_eval)
  show "\<not> Match (to_go_filter [(K_since, FStr ''1700000000000'')] (1700000000000 * 1000000)) sample_message"
    by (simp add: Match_iff to_go_filter_def sample_message_def zero_time_def)
  have "Date_parse ''1700000000000'' = None"
    by (simp add: Date_parse_def parse_date_part_def digits_def expect_def numeral_eq_Suc split: bind_split)
  then have "reason_since (Summary sample_message) [(K_since, FStr ''1700000000000'')] = []"
    by (simp add: reason_since_def since_time_def js_less_def fget_def split: option.split)
  then show "explainMismatch (Summary sample_message) [(K_since, FStr ''1700000000000'')] = []"
    by (simp add: explain_Nil_iff reason_address_def reason_to_def reason_from_def reason_subject_def reason_q_def ftruthy_def
        fstr_def fget_def)
qed

lemma reason_to_exact:
  assumes "same_trim f K_to" "ftruthy f K_to = Some to" "matchTo m (lower to)"
  shows "reason_to (Summary m) f = []"
proof -
  from assms have t: "TrimSpace to = trim to" by (simp add: same_trim_def)
  from assms(3) have "(\<exists>a \<in> set (mm_to m @ mm_cc m). matchAddress a (lower to)) \<or>
      (\<exists>a \<in> set (mm_env_to m). go_contains a (lower to))"
    by (auto simp: matchTo_def list_ex_iff)
  then have "(\<exists>a \<in> set (mm_to m @ mm_cc m).
        includes_needle (Some (a_address (json_address a))) to \<or> includes_needle (a_name (json_address a)) to) \<or>
      (\<exists>a \<in> set (mm_env_to m). includes_needle (Some a) to)"
    using match_address_eq [OF t] includes_needle_eq [OF t, of "Some _"] by simp
  with assms(2) show ?thesis
    unfolding reason_to_def summary_simps list_ex_iff Let_def by (simp only: set_map bex_simps if_True option.case)
qed

lemma reason_from_exact:
  assumes "same_trim f K_from" "ftruthy f K_from = Some from" "matchFrom m (lower from)"
  shows "reason_from (Summary m) f = []"
proof -
  from assms have t: "TrimSpace from = trim from" by (simp add: same_trim_def)
  have "(includes_needle (Some (a_address (json_address (mm_from m)))) from \<or>
      includes_needle (a_name (json_address (mm_from m))) from) \<or> includes_needle (Some (mm_env_from m)) from"
    using assms(3) unfolding match_address_eq [OF t] by (simp add: matchFrom_def includes_needle_eq [OF t])
  with assms(2) show ?thesis by (auto simp: reason_from_def)
qed

text \<open>
  C9: Without a \<open>q\<close> and a \<open>body\<close> field the explanation is empty exactly when the server accepts the message:
  a message that matches is given no reason and one that does not is given one. The message was
  received in the years 1 to 9999, both sides read \<open>since\<close> as the same instant (a Date, a
  number, or a string such as ISO 8601 to the millisecond), and no text field has U+0085 at its ends, which Go
  trims and JavaScript does not.
\<close>

lemma explain_exact:
  assumes cal: "in_calendar m" and al: "since_alike f" and ns: "since_ns (fget f K_since) = Some ns"
    and tr: "same_trim f K_address" "same_trim f K_to" "same_trim f K_from" "same_trim f K_subject"
    and no: "ftruthy f K_q = None" "ftruthy f K_body = None"
  shows "explainMismatch (Summary m) f = [] \<longleftrightarrow> Match (to_go_filter f ns) m"
proof
  assume nil: "explainMismatch (Summary m) f = []"
  then have "reason_since (Summary m) f = []" by (simp add: explain_Nil_iff)
  with nil show "Match (to_go_filter f ns) m"
    using since_exact [OF cal al ns] tr(1) by (intro explain_sound_aux) simp_all
next
  assume M: "Match (to_go_filter f ns) m"
  then have since: "ns = zero_time \<or> ns \<le> mm_createdAt m" by (simp add: Match_iff to_go_filter_def)
  have "reason_address (Summary m) f = []"
    using M tr(1) reason_address_iff [of f _ m] ftruthy_ne [of f K_address]
    by (cases "ftruthy f K_address")
       (auto simp: Match_iff to_go_filter_def same_trim_def reason_address_def)
  moreover have "reason_to (Summary m) f = []"
    using M tr(2) reason_to_exact [of f _ m] ftruthy_ne [of f K_to]
    by (cases "ftruthy f K_to") (auto simp: Match_iff to_go_filter_def reason_to_def)
  moreover have "reason_from (Summary m) f = []"
    using M tr(3) reason_from_exact [of f _ m] ftruthy_ne [of f K_from]
    by (cases "ftruthy f K_from") (auto simp: Match_iff to_go_filter_def reason_from_def)
  moreover have "reason_subject (Summary m) f = []"
    using M tr(4) includes_needle_eq [of _ "Some (mm_subject m)"] ftruthy_ne [of f K_subject]
    by (cases "ftruthy f K_subject")
       (auto simp: Match_iff to_go_filter_def reason_subject_def same_trim_def)
  moreover have "reason_q (Summary m) f = []" using no by (simp add: reason_q_def)
  ultimately show "explainMismatch (Summary m) f = []"
    using no since since_exact [OF cal al ns] by (simp add: explain_Nil_iff)
qed

lemma explain_exact_witness:
  "explainMismatch (Summary sample_message) iso_filter = [] \<longleftrightarrow> Match (to_go_filter iso_filter 5000000) sample_message"
  by (rule explain_exact [OF iso_filter_ok(1-9)])

text \<open>
  The search field \<open>q\<close> is the exception: the server also searches the SMTP envelope, so a
  Bcc recipient matches there while the explanation reports a mismatch.
\<close>

lemma explain_q_ignores_envelope:
  "Match (to_go_filter [(K_q, FStr ''bcc@x.test'')] zero_time)
     (sample_message\<lparr>mm_env_to := [''bcc@x.test'']\<rparr>) \<and>
   explainMismatch (Summary (sample_message\<lparr>mm_env_to := [''bcc@x.test'']\<rparr>)) [(K_q, FStr ''bcc@x.test'')] =
     [''does not match '' @ json_string ''bcc@x.test'' @ '' (subject, from, to or body)'']"
  by (simp add: js_eval)

end
