(* ===== verification/Url.thy ===== *)
theory Url
  imports Store_Filter
begin

text \<open>
  Query strings and paths between the SDK and the server: \<open>URLSearchParams\<close> and
  \<open>encodeURIComponent\<close> on the JavaScript side, \<open>net/url\<close>'s query and path decoding on the Go
  side, both over UTF-8. The round trips show that what the SDK puts into a URL is what the
  server's handlers read from it.
\<close>

section \<open>UTF-8 and percent encoding\<close>

text \<open>UTF-8 of the code units below 256: one or two bytes.\<close>

definition utf8_char :: "char \<Rightarrow> nat list" where
  [js_eval]: "utf8_char c = (let n = (of_char c :: nat) in
     if n < 128 then [n] else [192 + n div 64, 128 + n mod 64])"

definition utf8_encode :: "string \<Rightarrow> nat list" where
  [js_eval]: "utf8_encode s = concat (map utf8_char s)"

text \<open>\<open>None\<close>: not the UTF-8 of such a string.\<close>

fun utf8_decode :: "nat list \<Rightarrow> string option" where
  "utf8_decode [] = Some []"
| "utf8_decode (b # bs) =
     (if b < 128 then map_option (\<lambda>s. char_of b # s) (utf8_decode bs)
      else (case bs of
        [] \<Rightarrow> None
      | b2 # bs' \<Rightarrow>
          if (b = 194 \<or> b = 195) \<and> 128 \<le> b2 \<and> b2 < 192
          then map_option (\<lambda>s. char_of ((b - 192) * 64 + (b2 - 128)) # s) (utf8_decode bs')
          else None))"

definition upper_hex :: "nat \<Rightarrow> char" where
  [js_eval]: "upper_hex d = (if d < 10 then char_of (48 + d) else char_of (55 + d))"

definition percent :: "nat \<Rightarrow> string" where
  [js_eval]: "percent b = [CHR ''%'', upper_hex (b div 16), upper_hex (b mod 16)]"

definition alnum :: "char \<Rightarrow> bool" where
  [js_eval]: "alnum c \<longleftrightarrow> is_digit c \<or> is_upper c \<or> is_lower c"

definition escape_char :: "(char \<Rightarrow> bool) \<Rightarrow> char \<Rightarrow> string" where
  [js_eval]: "escape_char safe c = (if safe c then [c] else concat (map percent (utf8_char c)))"

definition component_safe :: "char \<Rightarrow> bool" where
  [js_eval]: "component_safe c \<longleftrightarrow> alnum c \<or> c \<in> set ''-_.!~*'' \<or> c = CHR 0x27 \<or> c = CHR ''('' \<or> c = CHR '')''"

definition encodeURIComponent :: "string \<Rightarrow> string" where
  [js_eval]: "encodeURIComponent s = concat (map (escape_char component_safe) s)"

text \<open>The serialiser of \<open>application/x-www-form-urlencoded\<close>.\<close>

definition form_safe :: "char \<Rightarrow> bool" where
  [js_eval]: "form_safe c \<longleftrightarrow> alnum c \<or> c \<in> set ''*-._''"

definition form_char :: "char \<Rightarrow> string" where
  [js_eval]: "form_char c = (if c = CHR '' '' then ''+'' else escape_char form_safe c)"

definition form_encode :: "string \<Rightarrow> string" where
  [js_eval]: "form_encode s = concat (map form_char s)"

type_synonym params = "(string \<times> string) list"

definition params_toString :: "params \<Rightarrow> string" where
  "params_toString ps = join ''&'' (map (\<lambda>(k, v). form_encode k @ ''='' @ form_encode v) ps)"

section \<open>Decoding in Go\<close>

definition hex_value :: "char \<Rightarrow> nat option" where
  [js_eval]: "hex_value c = (let n = (of_char c :: nat) in
     if is_digit c then Some (n - 48)
     else if 65 \<le> n \<and> n \<le> 70 then Some (n - 55)
     else if 97 \<le> n \<and> n \<le> 102 then Some (n - 87) else None)"

text \<open>\<open>url.QueryUnescape\<close> (\<open>pl\<close>: a plus sign is a space) and \<open>url.PathUnescape\<close>, in bytes.\<close>

fun unescape :: "bool \<Rightarrow> string \<Rightarrow> nat list option" where
  "unescape pl [] = Some []"
| "unescape pl (c # s) =
     (if c = CHR ''%'' then
        (case s of
           h # l # s' \<Rightarrow>
             (case (hex_value h, hex_value l) of
                (Some a, Some b) \<Rightarrow> map_option (\<lambda>bs. (16 * a + b) # bs) (unescape pl s')
              | _ \<Rightarrow> None)
         | _ \<Rightarrow> None)
      else if pl \<and> c = CHR ''+'' then map_option (\<lambda>bs. 32 # bs) (unescape pl s)
      else map_option (\<lambda>bs. of_char c # bs) (unescape pl s))"

definition QueryUnescape :: "string \<Rightarrow> string option" where
  "QueryUnescape s = Option.bind (unescape True s) utf8_decode"

definition PathUnescape :: "string \<Rightarrow> string option" where
  "PathUnescape s = Option.bind (unescape False s) utf8_decode"

text \<open>\<open>url.ParseQuery\<close> as \<open>r.URL.Query()\<close> uses it: malformed pairs are dropped.\<close>

definition cut :: "char \<Rightarrow> string \<Rightarrow> string \<times> string" where
  "cut c s = (takeWhile (\<lambda>x. x \<noteq> c) s, drop 1 (dropWhile (\<lambda>x. x \<noteq> c) s))"

definition parse_pair :: "string \<Rightarrow> (string \<times> string) option" where
  "parse_pair p =
     (if CHR '';'' \<in> set p \<or> p = [] then None
      else (let (k, v) = cut (CHR ''='') p in
        case (QueryUnescape k, QueryUnescape v) of
          (Some k', Some v') \<Rightarrow> Some (k', v')
        | _ \<Rightarrow> None))"

definition ParseQuery :: "string \<Rightarrow> params" where
  "ParseQuery s = List.map_filter parse_pair (split_on (CHR ''&'') s)"

text \<open>\<open>url.Values.Get\<close>: the first value, or the empty string.\<close>

definition values_Get :: "params \<Rightarrow> string \<Rightarrow> string" where
  [js_eval]: "values_Get q k = (case map_of q k of None \<Rightarrow> [] | Some v \<Rightarrow> v)"

section \<open>Round trips\<close>

lemma utf8_decode_char: "utf8_decode (utf8_char c @ bs) = map_option (\<lambda>s. c # s) (utf8_decode bs)"
proof -
  define n where "n = (of_char c :: nat)"
  have c: "c = char_of n" and n: "n < 256" by (simp_all add: n_def)
  show ?thesis
  proof (cases "n < 128")
    case True
    then show ?thesis by (simp add: utf8_char_def n_def [symmetric] c)
  next
    case False
    then have "n div 64 = 2 \<or> n div 64 = 3" "n mod 64 < 64" using n by auto
    moreover have "(192 + n div 64 - 192) * 64 + (128 + n mod 64 - 128) = n" by simp
    ultimately show ?thesis using False by (auto simp: utf8_char_def n_def [symmetric] c Let_def)
  qed
qed

lemma utf8_roundtrip [simp]: "utf8_decode (utf8_encode s) = Some s"
  by (induction s) (simp_all add: utf8_encode_def utf8_decode_char)

lemma utf8_byte: "b \<in> set (utf8_char c) \<Longrightarrow> b < 256"
proof -
  define n where "n = (of_char c :: nat)"
  have n: "n < 256" by (simp add: n_def)
  assume "b \<in> set (utf8_char c)"
  with n show ?thesis by (auto simp: utf8_char_def n_def [symmetric] Let_def split: if_splits)
qed

lemma hex_value_upper_hex: "d < 16 \<Longrightarrow> hex_value (upper_hex d) = Some d"
  by (auto simp: hex_value_def upper_hex_def is_digit_def Let_def)

lemma unescape_percent:
  "b < 256 \<Longrightarrow> unescape pl (percent b @ s) = map_option (\<lambda>bs. b # bs) (unescape pl s)"
  by (simp add: percent_def hex_value_upper_hex)

lemma unescape_percents:
  "\<forall>b \<in> set bs. b < 256 \<Longrightarrow>
     unescape pl (concat (map percent bs) @ s) = map_option (\<lambda>r. bs @ r) (unescape pl s)"
proof (induction bs)
  case Nil
  then show ?case by (simp add: option.map_ident)
next
  case (Cons b bs)
  then show ?case by (simp add: unescape_percent option.map_comp o_def del: unescape.simps)
qed


lemma char_class_plain:
  "alnum c \<Longrightarrow> (of_char c :: nat) < 128 \<and> c \<notin> set ''%+&=;?/ ''"
  by (auto simp: alnum_def is_digit_def is_upper_def is_lower_def Let_def)

lemma safe_plain:
  "component_safe c \<Longrightarrow> (of_char c :: nat) < 128 \<and> c \<notin> set ''%+&=;?/ ''"
  "form_safe c \<Longrightarrow> (of_char c :: nat) < 128 \<and> c \<notin> set ''%+&=;?/ ''"
  using char_class_plain [of c] by (auto simp: component_safe_def form_safe_def)

lemma unescape_escape_char:
  assumes "safe c \<Longrightarrow> (of_char c :: nat) < 128 \<and> c \<notin> set ''%+&=;?/ ''"
  shows "unescape pl (escape_char safe c @ s) = map_option (\<lambda>r. utf8_char c @ r) (unescape pl s)"
proof (cases "safe c")
  case True
  with assms show ?thesis by (simp add: escape_char_def utf8_char_def)
next
  case False
  then show ?thesis using unescape_percents utf8_byte by (simp add: escape_char_def)
qed

lemma unescape_form: "unescape True (form_encode s) = Some (utf8_encode s)"
proof (induction s)
  case (Cons c s)
  then show ?case
    using unescape_escape_char [of form_safe c True "form_encode s"] safe_plain(2) [of c]
    by (cases "c = CHR '' ''")
       (auto simp: form_encode_def form_char_def utf8_encode_def utf8_char_def simp del: unescape.simps(2),
        simp_all add: utf8_char_def)
qed (simp_all add: form_encode_def utf8_encode_def)

lemma unescape_component: "unescape pl (encodeURIComponent s) = Some (utf8_encode s)"
proof (induction s)
  case (Cons c s)
  then show ?case
    using unescape_escape_char [of component_safe c pl "encodeURIComponent s"] safe_plain(1) [of c]
    by (simp add: encodeURIComponent_def utf8_encode_def)
qed (simp_all add: encodeURIComponent_def utf8_encode_def)

lemma QueryUnescape_form [simp]: "QueryUnescape (form_encode s) = Some s"
  by (simp add: QueryUnescape_def unescape_form)

lemma PathUnescape_component [simp]: "PathUnescape (encodeURIComponent s) = Some s"
  by (simp add: PathUnescape_def unescape_component)

lemma QueryUnescape_component [simp]: "QueryUnescape (encodeURIComponent s) = Some s"
  by (simp add: QueryUnescape_def unescape_component)

lemma encodeURIComponent_eq_Nil [simp]: "encodeURIComponent s = [] \<longleftrightarrow> s = []"
  by (metis PathUnescape_component encodeURIComponent_def concat.simps(1) list.map(1) option.inject)

text \<open>None of the separators survives the encoding.\<close>

lemma percent_plain: "b < 256 \<Longrightarrow> x \<in> set (percent b) \<Longrightarrow> x \<notin> set ''+&=;?/ ''"
proof -
  have hex: "d < 16 \<Longrightarrow> upper_hex d \<notin> set ''+&=;?/ ''" for d
    by (auto simp: upper_hex_def char_of_eq_iff take_bit_eq_mod)
  assume "b < 256" and x: "x \<in> set (percent b)"
  then have "b div 16 < 16" by simp
  with x show ?thesis using hex [of "b div 16"] hex [of "b mod 16"] by (auto simp: percent_def)
qed

lemma escape_char_plain:
  assumes "safe c \<Longrightarrow> (of_char c :: nat) < 128 \<and> c \<notin> set ''%+&=;?/ ''" "x \<in> set (escape_char safe c)"
  shows "x \<notin> set ''+&=;?/ ''"
  using assms percent_plain utf8_byte by (auto simp: escape_char_def split: if_splits)

lemma form_plain: "x \<in> set (form_encode s) \<Longrightarrow> x \<notin> set ''&=;?/ ''"
  using escape_char_plain [of form_safe, OF safe_plain(2)]
  by (fastforce simp: form_encode_def form_char_def split: if_splits)

lemma component_plain: "x \<in> set (encodeURIComponent s) \<Longrightarrow> x \<notin> set ''+&=;?/ ''"
  using escape_char_plain [of component_safe, OF safe_plain(1)]
  by (fastforce simp: encodeURIComponent_def)

lemma parse_pair_form:
  "parse_pair (form_encode k @ ''='' @ form_encode v) = Some (k, v)"
proof -
  have k: "\<forall>x \<in> set (form_encode k). x \<noteq> CHR ''=''" using form_plain [of _ k] by auto
  have "cut (CHR ''='') (form_encode k @ ''='' @ form_encode v) = (form_encode k, form_encode v)"
    using k by (simp add: cut_def takeWhile_append2 dropWhile_append2)
  moreover have "CHR '';'' \<notin> set (form_encode k @ ''='' @ form_encode v)"
    using form_plain [of "CHR '';''" k] form_plain [of "CHR '';''" v] by auto
  ultimately show ?thesis by (simp add: parse_pair_def)
qed

text \<open>The server reads back exactly the pairs the SDK wrote, in order.\<close>

lemma ParseQuery_toString: "ParseQuery (params_toString ps) = ps"
proof (cases "ps = []")
  case True
  then show ?thesis by (simp add: ParseQuery_def params_toString_def map_filter_simps parse_pair_def)
next
  case False
  let ?pair = "\<lambda>(k, v). form_encode k @ ''='' @ form_encode v"
  have "\<forall>x \<in> set (map ?pair ps). CHR ''&'' \<notin> set x"
    using form_plain [of "CHR ''&''"] by auto
  with False have "split_on (CHR ''&'') (params_toString ps) = map ?pair ps"
    unfolding params_toString_def by (intro split_on_join) auto
  moreover have "List.map_filter parse_pair (map ?pair ps) = ps"
    by (induction ps) (auto simp: map_filter_simps parse_pair_form simp flip: append_Cons)
  ultimately show ?thesis by (simp add: ParseQuery_def)
qed

text \<open>A query of one component-encoded value.\<close>

lemma ParseQuery_component:
  assumes "QueryUnescape k = Some k" "set k \<inter> set ''&=;'' = {}"
  shows "ParseQuery (k @ ''='' @ encodeURIComponent v) = [(k, v)]"
proof -
  have "\<forall>x \<in> set k. x \<noteq> CHR ''=''" using assms(2) by auto
  then have "cut (CHR ''='') (k @ ''='' @ encodeURIComponent v) = (k, encodeURIComponent v)"
    by (simp add: cut_def takeWhile_append2 dropWhile_append2)
  moreover have "CHR '';'' \<notin> set (k @ ''='' @ encodeURIComponent v)" "CHR ''&'' \<notin> set (k @ ''='' @ encodeURIComponent v)"
    using assms(2) component_plain [of "CHR '';''" v] component_plain [of "CHR ''&''" v] by auto
  ultimately show ?thesis
    using assms(1) by (simp add: ParseQuery_def split_on_no_sep parse_pair_def map_filter_simps)
qed

lemma params_toString_Nil: "params_toString ps = [] \<longleftrightarrow> ps = []"
  by (metis ParseQuery_toString params_toString_def join.simps(1) list.map(1))

end
