(* ===== verification/Wait.thy ===== *)
theory Wait
  imports Client
begin

text \<open>
  \<open>waitFor\<close> and \<open>waitForEmails\<close> (\<open>packages/client/src/client.ts\<close>): loops of requests that may
  run for ever, so each is a partial function whose value is \<open>None\<close> when it does not return.
  The locale \<open>wait_service\<close> states what \<open>waitFor\<close> relies on; inside it the loop is shown to
  return. \<open>Wait_Server\<close> interprets it on the server's handlers.
\<close>

section \<open>The loops\<close>

definition wait_path :: "message_filter \<Rightarrow> int \<Rightarrow> string" where
  "wait_path f chunk = ''/messages/wait'' @ query f [(''timeout'', show_int chunk)]"

definition wait_chunk :: "int \<Rightarrow> int \<Rightarrow> int" where
  "wait_chunk deadline t = max 0 (min (deadline - t) MAX_SERVER_WAIT)"

definition wait_request :: "'w env \<Rightarrow> mp_client \<Rightarrow> message_filter \<Rightarrow> bool \<Rightarrow> int \<Rightarrow> ('w, http_response) operation" where
  "wait_request env c f sig chunk =
     request env c (wait_path f chunk) ((with_signal sig)\<lparr>in_timeout := Some (chunk + c_requestTimeout c)\<rparr>) [204]"

partial_function (option) waitFor_loop ::
  "'w env \<Rightarrow> mp_client \<Rightarrow> message_filter \<Rightarrow> int \<Rightarrow> bool \<Rightarrow> int \<Rightarrow> 'w \<Rightarrow> ((mp_error + email) \<times> 'w) option" where
  "waitFor_loop env c f timeout sig deadline w =
     (let (t, w1) = env_now env w;
          (r, w2) = wait_request env c f sig (wait_chunk deadline t) w1
      in case r of
        Inl e \<Rightarrow> Some (Inl e, w2)
      | Inr res \<Rightarrow>
          if rp_status res = 200 then Some (read_email res w2)
          else (let (t2, w3) = env_now env w2 in
            if deadline \<le> t2
            then (let (d, w4) = diagnose env c f sig w3 in Some (Inl (new_timeout_error f timeout d None), w4))
            else waitFor_loop env c f timeout sig deadline w3))"

definition waitFor :: "'w env \<Rightarrow> mp_client \<Rightarrow> wait_options \<Rightarrow> 'w \<Rightarrow> ((mp_error + email) \<times> 'w) option" where
  "waitFor env c options w =
     (let timeout = nullish (w_timeout options) (c_timeout c);
          (t, w1) = env_now env w
      in waitFor_loop env c (w_filter options) timeout (w_signal options) (t + timeout) w1)"

text \<open>\<open>Promise.all\<close> over the list, in its order; the first rejection is the result.\<close>

fun get_all :: "'w env \<Rightarrow> mp_client \<Rightarrow> bool \<Rightarrow> string list \<Rightarrow> ('w, email list) operation" where
  "get_all env c sig [] = return_op []"
| "get_all env c sig (i # is) = then_op (get env c i (with_signal sig)) (\<lambda>e.
     then_op (get_all env c sig is) (\<lambda>es. return_op (e # es)))"

text \<open>The \<open>since\<close> of the next wait: \<open>Inl\<close> when the newest message's time stamp is not a date.\<close>

definition next_since :: "message_summary list \<Rightarrow> message_filter \<Rightarrow> mp_error + fval" where
  "next_since list f = (case list of
     [] \<Rightarrow> Inr (fget f K_since)
   | newest # _ \<Rightarrow> (case Date_parse (s_createdAt newest) of None \<Rightarrow> Inl RangeError | Some t \<Rightarrow> Inr (FDate (t + 1))))"

partial_function (option) waitForEmails_loop ::
  "'w env \<Rightarrow> mp_client \<Rightarrow> int \<Rightarrow> message_filter \<Rightarrow> int \<Rightarrow> bool \<Rightarrow> int \<Rightarrow> 'w \<Rightarrow>
     ((mp_error + email list) \<times> 'w) option" where
  "waitForEmails_loop env c count f timeout sig deadline w =
     (let (r, w1) = messages env c f (with_signal sig) w in
      case r of
        Inl e \<Rightarrow> Some (Inl e, w1)
      | Inr list \<Rightarrow>
          if count \<le> int (length list)
          then Some (get_all env c sig (map s_id (rev (slice_from list (- count)))) w1)
          else (let (t, w2) = env_now env w1; remaining = deadline - t in
            if remaining \<le> 0
            then (let (d, w3) = diagnose env c f sig w2 in
                  Some (Inl (new_timeout_error f timeout d (Some (int (length list), count))), w3))
            else (case next_since list f of
              Inl e \<Rightarrow> Some (Inl e, w2)
            | Inr since \<Rightarrow>
                Option.bind
                  (waitFor env c \<lparr>w_filter = obj_set K_since since f, w_timeout = Some remaining, w_signal = sig\<rparr> w2)
                  (\<lambda>(r, w3). case r of
                     Inl (MailpeekTimeoutError _ _ _ _ _) \<Rightarrow> waitForEmails_loop env c count f timeout sig deadline w3
                   | Inl e \<Rightarrow> Some (Inl e, w3)
                   | Inr _ \<Rightarrow> waitForEmails_loop env c count f timeout sig deadline w3))))"

definition waitForEmails :: "'w env \<Rightarrow> mp_client \<Rightarrow> int \<Rightarrow> wait_options \<Rightarrow> 'w \<Rightarrow>
    ((mp_error + email list) \<times> 'w) option" where
  "waitForEmails env c count options w =
     (let timeout = nullish (w_timeout options) (c_timeout c);
          (t, w1) = env_now env w
      in waitForEmails_loop env c count (w_filter options) timeout (w_signal options) (t + timeout) w1)"

section \<open>What the loops rely on\<close>

text \<open>
  A clock that does not go back, and a wait that is answered 204 only after its time is over.
  Requests may fail in any way.
\<close>

locale wait_service =
  fixes env :: "'w env" and c :: mp_client and clock :: "'w \<Rightarrow> int"
  assumes now_reads: "env_now env w = (t, w') \<Longrightarrow> clock w \<le> t \<and> t \<le> clock w'"
    and request_clock: "request env c path ini allowed w = (r, w') \<Longrightarrow> clock w \<le> clock w'"
    and wait_lasts: "0 \<le> chunk \<Longrightarrow> chunk \<le> MAX_SERVER_WAIT \<Longrightarrow>
      wait_request env c f sig chunk w = (Inr res, w') \<Longrightarrow> rp_status res \<noteq> 200 \<Longrightarrow>
      clock w + chunk \<le> clock w'"
begin

text \<open>The loop returns: every round that neither answers nor throws uses up half a minute or
  the rest of the time.\<close>

lemma loop_returns: "\<exists>r w'. waitFor_loop env c f timeout sig deadline w = Some (r, w')"
proof (induction "nat (deadline - clock w)" arbitrary: w rule: less_induct)
  case less
  obtain t w1 where n: "env_now env w = (t, w1)" by fastforce
  obtain r w2 where q: "wait_request env c f sig (wait_chunk deadline t) w1 = (r, w2)" by fastforce
  show ?case
  proof (cases r)
    case (Inl e)
    then show ?thesis by (subst waitFor_loop.simps) (simp add: n q)
  next
    case (Inr res)
    obtain t2 w3 where n2: "env_now env w2 = (t2, w3)" by fastforce
    obtain d w4 where d: "diagnose env c f sig w3 = (d, w4)" by fastforce
    have eq: "waitFor_loop env c f timeout sig deadline w =
        (if rp_status res = 200 then Some (read_email res w2)
         else if deadline \<le> t2 then Some (Inl (new_timeout_error f timeout d None), w4)
         else waitFor_loop env c f timeout sig deadline w3)"
      by (subst waitFor_loop.simps) (simp add: n q Inr n2 d)
    show ?thesis
    proof (cases "rp_status res = 200 \<or> deadline \<le> t2")
      case True
      then show ?thesis by (cases "read_email res w2") (auto simp: eq)
    next
      case False
      then have loop: "waitFor_loop env c f timeout sig deadline w = waitFor_loop env c f timeout sig deadline w3"
        by (simp add: eq)
      from False wait_lasts [OF _ _ q [unfolded Inr]] have "clock w1 + wait_chunk deadline t \<le> clock w2"
        by (simp add: wait_chunk_def)
      moreover have "clock w \<le> t" "t \<le> clock w1" "clock w2 \<le> t2" "t2 \<le> clock w3"
        using now_reads [OF n] now_reads [OF n2] by simp_all
      moreover have "t2 < deadline" using False by simp
      ultimately have "nat (deadline - clock w3) < nat (deadline - clock w)"
        by (auto simp: wait_chunk_def)
      from less [OF this] loop show ?thesis by simp
    qed
  qed
qed

lemma waitFor_returns: "\<exists>r w'. waitFor env c options w = Some (r, w')"
  using loop_returns by (simp add: waitFor_def Let_def split: prod.splits)

end

end
