(* ===== verification/Store.thy ===== *)
theory Store
  imports Store_Filter
begin

text \<open>
  The server's in-memory store (\<open>internal/store/store.go\<close>): messages in order of arrival with
  their sequence numbers, eviction by count and by bytes, listing by pages with a cursor,
  and deletion. The events an operation publishes are part of its result. Persistence to disk
  is not modelled. The abstract view is the list of entries, oldest first; each operation is
  related to a plain list function on it.
\<close>

section \<open>State and operations\<close>

record entry =
  en_msg :: mail_message
  en_raw :: string
  en_size :: int
  en_seq :: nat

record store_state =
  st_max :: nat
  st_maxBytes :: int
  st_bytes :: int
  st_evicted :: nat
  st_seq :: nat
  st_order :: "string list"
  st_items :: "string \<rightharpoonup> entry"

datatype event = MessageCreated string | MessageDeleted string | MessagesCleared

definition sizeOf :: "mail_message \<Rightarrow> string \<Rightarrow> int" where
  "sizeOf m raw = int (length raw) + int (length (mm_text m)) + int (length (mm_html m)) +
     sum_list (map (\<lambda>a. int (length (mt_data a))) (mm_attachments m))"

definition New :: "int \<Rightarrow> store_state" where
  "New mx = \<lparr>st_max = nat (if mx < 1 then 1 else mx), st_maxBytes = 0, st_bytes = 0, st_evicted = 0,
     st_seq = 0, st_order = [], st_items = Map.empty\<rparr>"

definition WithMaxBytes :: "int \<Rightarrow> store_state \<Rightarrow> store_state" where
  "WithMaxBytes n s = s\<lparr>st_maxBytes := n\<rparr>"

definition zero_message :: mail_message where
  "zero_message = \<lparr>mm_id = [], mm_messageId = [], mm_from = \<lparr>ma_name = [], ma_address = []\<rparr>, mm_to = [],
     mm_cc = [], mm_replyTo = [], mm_subject = [], mm_date = None, mm_text = [], mm_html = [], mm_headers = [],
     mm_attachments = [], mm_links = [], mm_env_from = [], mm_env_to = [], mm_size = 0, mm_createdAt = 0\<rparr>"

text \<open>Reading a Go map: the zero entry when the key is absent.\<close>

definition item :: "store_state \<Rightarrow> string \<Rightarrow> entry" where
  "item s mid = (case st_items s mid of
     None \<Rightarrow> \<lparr>en_msg = zero_message, en_raw = [], en_size = 0, en_seq = 0\<rparr> | Some e \<Rightarrow> e)"

text \<open>The eviction loop: the state after it and the identifiers evicted.\<close>

function evict :: "store_state \<Rightarrow> string list \<Rightarrow> store_state \<times> string list" where
  "evict s gone =
     (if st_order s \<noteq> [] \<and> (st_max s < length (st_order s) \<or>
         (0 < st_maxBytes s \<and> st_maxBytes s < st_bytes s \<and> 1 < length (st_order s)))
      then (let oldest = hd (st_order s) in
        evict (s\<lparr>st_bytes := st_bytes s - en_size (item s oldest),
                 st_items := (st_items s)(oldest := None),
                 st_order := tl (st_order s)\<rparr>) (gone @ [oldest]))
      else (s, gone))"
  by pat_completeness auto
termination by (relation "measure (\<lambda>(s, gone). length (st_order s))") auto

declare evict.simps [simp del]

definition Save :: "mail_message \<Rightarrow> string \<Rightarrow> store_state \<Rightarrow> store_state \<times> event list" where
  "Save m raw s =
     (let seq = st_seq s + 1;
          e = \<lparr>en_msg = m, en_raw = raw, en_size = sizeOf m raw, en_seq = seq\<rparr>;
          s1 = s\<lparr>st_seq := seq, st_items := (st_items s)(mm_id m \<mapsto> e),
                 st_bytes := st_bytes s + en_size e, st_order := st_order s @ [mm_id m]\<rparr>;
          (s2, gone) = evict s1 []
      in (s2\<lparr>st_evicted := st_evicted s2 + length gone\<rparr>,
          map MessageDeleted gone @ [MessageCreated (mm_id m)]))"

definition Get :: "string \<Rightarrow> store_state \<Rightarrow> mail_message option" where
  "Get mid s = map_option en_msg (st_items s mid)"

definition Raw :: "string \<Rightarrow> store_state \<Rightarrow> string option" where
  "Raw mid s = map_option en_raw (st_items s mid)"

record page =
  pg_messages :: "mail_message list"
  pg_next :: nat

text \<open>\<open>slices.BinarySearchFunc\<close>: the first index whose key is not below the target.\<close>

function bsearch :: "(nat \<Rightarrow> bool) \<Rightarrow> nat \<Rightarrow> nat \<Rightarrow> nat" where
  "bsearch below i j =
     (if i < j then (let h = (i + j) div 2 in if below h then bsearch below (h + 1) j else bsearch below i h)
      else i)"
  by pat_completeness auto
termination by (relation "measure (\<lambda>(b, i, j). j - i)") auto

declare bsearch.simps [simp del]

text \<open>The page loop over the entries from the newest down.\<close>

fun page_loop :: "go_filter \<Rightarrow> nat \<Rightarrow> entry list \<Rightarrow> mail_message list \<Rightarrow> nat \<Rightarrow> page" where
  "page_loop f limit [] out last_seq = \<lparr>pg_messages = out, pg_next = 0\<rparr>"
| "page_loop f limit (e # es) out last_seq =
     (if \<not> Match f (en_msg e) then page_loop f limit es out last_seq
      else if 0 < limit \<and> length out = limit then \<lparr>pg_messages = out, pg_next = last_seq\<rparr>
      else page_loop f limit es (out @ [en_msg e]) (en_seq e))"

definition Page :: "go_filter \<Rightarrow> nat \<Rightarrow> nat \<Rightarrow> store_state \<Rightarrow> page" where
  "Page f cursor limit s =
     (let stop = (if 0 < cursor
                  then bsearch (\<lambda>i. en_seq (item s (st_order s ! i)) < cursor) 0 (length (st_order s))
                  else length (st_order s))
      in page_loop f limit (map (item s) (rev (take stop (st_order s)))) [] 0)"

definition List_messages :: "go_filter \<Rightarrow> store_state \<Rightarrow> mail_message list" where
  "List_messages f s = pg_messages (Page f 0 0 s)"

fun count_loop :: "(string \<Rightarrow> bool) \<Rightarrow> string list \<Rightarrow> nat \<Rightarrow> nat" where
  "count_loop p [] n = n"
| "count_loop p (mid # ids) n = count_loop p ids (if p mid then n + 1 else n)"

definition Count :: "go_filter \<Rightarrow> store_state \<Rightarrow> nat" where
  "Count f s = (if IsZero f then length (st_order s)
     else count_loop (\<lambda>mid. Match f (en_msg (item s mid))) (st_order s) 0)"

definition Latest :: "go_filter \<Rightarrow> store_state \<Rightarrow> mail_message option" where
  "Latest f s = find (Match f) (map (en_msg \<circ> item s) (rev (st_order s)))"

definition Stats :: "store_state \<Rightarrow> store_stats" where
  "Stats s = \<lparr>ss_messages = int (length (st_order s)), ss_bytes = st_bytes s, ss_evicted = int (st_evicted s)\<rparr>"

definition Len :: "store_state \<Rightarrow> nat" where
  "Len s = length (st_order s)"

definition Delete :: "string \<Rightarrow> store_state \<Rightarrow> bool \<times> store_state \<times> event list" where
  "Delete mid s = (case st_items s mid of
     None \<Rightarrow> (False, s, [])
   | Some e \<Rightarrow> (True, s\<lparr>st_bytes := st_bytes s - en_size e, st_items := (st_items s)(mid := None),
                        st_order := filter (\<lambda>v. v \<noteq> mid) (st_order s)\<rparr>, [MessageDeleted mid]))"

text \<open>The callback of \<open>slices.DeleteFunc\<close>, which also updates the map and the byte count.\<close>

fun delete_loop :: "go_filter \<Rightarrow> string list \<Rightarrow> store_state \<Rightarrow> string list \<Rightarrow> string list \<Rightarrow>
    store_state \<times> string list" where
  "delete_loop f [] s kept removed = (s\<lparr>st_order := kept\<rparr>, removed)"
| "delete_loop f (mid # ids) s kept removed =
     (if Match f (en_msg (item s mid))
      then delete_loop f ids (s\<lparr>st_bytes := st_bytes s - en_size (item s mid), st_items := (st_items s)(mid := None)\<rparr>)
             kept (removed @ [mid])
      else delete_loop f ids s (kept @ [mid]) removed)"

definition DeleteMatching :: "go_filter \<Rightarrow> store_state \<Rightarrow> nat \<times> store_state \<times> event list" where
  "DeleteMatching f s =
     (if IsZero f
      then (length (st_order s), s\<lparr>st_order := [], st_items := Map.empty, st_bytes := 0\<rparr>, [MessagesCleared])
      else (let (s', removed) = delete_loop f (st_order s) s [] [] in
        (length removed, s', map MessageDeleted removed)))"

section \<open>The invariant\<close>

definition entries :: "store_state \<Rightarrow> entry list" where
  "entries s = map (item s) (st_order s)"

text \<open>
  The map and the order agree, sequence numbers grow along the order, the byte count is the
  sum of the sizes and the limits hold.
\<close>

definition store_ok :: "store_state \<Rightarrow> bool" where
  "store_ok s \<longleftrightarrow> distinct (st_order s) \<and> set (st_order s) = dom (st_items s) \<and>
     sorted_wrt (<) (map en_seq (entries s)) \<and> (\<forall>e \<in> set (entries s). 0 < en_seq e \<and> en_seq e \<le> st_seq s) \<and>
     map (mm_id \<circ> en_msg) (entries s) = st_order s \<and>
     st_bytes s = sum_list (map en_size (entries s)) \<and> 1 \<le> st_max s"

definition within_limits :: "store_state \<Rightarrow> bool" where
  "within_limits s \<longleftrightarrow> length (st_order s) \<le> st_max s \<and>
     (0 < st_maxBytes s \<and> 1 < length (st_order s) \<longrightarrow> st_bytes s \<le> st_maxBytes s)"

lemma New_ok: "store_ok (New n) \<and> within_limits (New n)"
  by (auto simp: store_ok_def within_limits_def New_def entries_def)

lemma item_cong: "st_items s' mid = st_items s mid \<Longrightarrow> item s' mid = item s mid"
  by (simp add: item_def)

lemma entries_restrict:
  assumes "\<And>mid. mid \<in> set ord \<Longrightarrow> st_items s' mid = st_items s mid" "st_order s' = ord"
  shows "entries s' = map (item s) ord"
  unfolding entries_def assms(2) by (intro map_cong refl item_cong assms(1))

text \<open>Dropping the oldest entry.\<close>

definition drop_oldest :: "store_state \<Rightarrow> store_state" where
  "drop_oldest s = s\<lparr>st_bytes := st_bytes s - en_size (item s (hd (st_order s))),
     st_items := (st_items s)(hd (st_order s) := None), st_order := tl (st_order s)\<rparr>"

lemma drop_oldest_entries:
  assumes "store_ok s" "st_order s \<noteq> []"
  shows "entries (drop_oldest s) = tl (entries s)"
proof -
  from assms have "hd (st_order s) \<notin> set (tl (st_order s))"
    by (cases "st_order s") (auto simp: store_ok_def)
  then have "entries (drop_oldest s) = map (item s) (tl (st_order s))"
    by (intro entries_restrict) (auto simp: drop_oldest_def)
  then show ?thesis by (simp add: entries_def map_tl)
qed

lemma drop_oldest_ok:
  assumes ok: "store_ok s" and ne: "st_order s \<noteq> []"
  shows "store_ok (drop_oldest s)"
proof -
  from ne obtain mid ids where o: "st_order s = mid # ids" by (cases "st_order s") auto
  have e: "entries s = item s mid # map (item s) ids" by (simp add: entries_def o)
  have t: "entries (drop_oldest s) = map (item s) ids"
    using drop_oldest_entries [OF ok ne] by (simp add: e)
  have d: "st_order (drop_oldest s) = ids" "st_seq (drop_oldest s) = st_seq s"
    "st_max (drop_oldest s) = st_max s" "st_bytes (drop_oldest s) = st_bytes s - en_size (item s mid)"
    "st_items (drop_oldest s) = (st_items s)(mid := None)"
    by (simp_all add: drop_oldest_def o)
  show ?thesis using ok unfolding store_ok_def t d e o by auto
qed

lemma evict_step: "evict s gone =
    (if st_order s \<noteq> [] \<and> \<not> within_limits s then evict (drop_oldest s) (gone @ [hd (st_order s)]) else (s, gone))"
  by (subst evict.simps) (auto simp: within_limits_def drop_oldest_def Let_def)

lemma evict_spec:
  "store_ok s \<Longrightarrow> evict s gone = (s', gone') \<Longrightarrow>
     store_ok s' \<and> within_limits s' \<and> st_seq s' = st_seq s \<and> st_max s' = st_max s \<and>
     st_maxBytes s' = st_maxBytes s \<and>
     (\<exists>k. entries s' = drop k (entries s) \<and> gone' = gone @ take k (st_order s) \<and>
          (st_order s \<noteq> [] \<longrightarrow> k < length (st_order s)))"
proof (induction "length (st_order s)" arbitrary: s gone rule: less_induct)
  case less
  show ?case
  proof (cases "st_order s \<noteq> [] \<and> \<not> within_limits s")
    case True
    then have ok: "store_ok (drop_oldest s)" and le: "length (st_order (drop_oldest s)) < length (st_order s)"
      using less.prems drop_oldest_ok by (auto simp: drop_oldest_def)
    from True less.prems(2) have ev: "evict (drop_oldest s) (gone @ [hd (st_order s)]) = (s', gone')"
      by (simp add: evict_step [of s])
    from less.hyps [OF le ok ev] obtain k where k: "entries s' = drop k (entries (drop_oldest s))"
      "gone' = (gone @ [hd (st_order s)]) @ take k (st_order (drop_oldest s))"
      "st_order (drop_oldest s) \<noteq> [] \<longrightarrow> k < length (st_order (drop_oldest s))" by blast
    have "tl (st_order s) \<noteq> []"
    proof
      assume "tl (st_order s) = []"
      with True have "length (st_order s) = 1" by (cases "st_order s") auto
      with True less.prems(1) show False by (auto simp: within_limits_def store_ok_def)
    qed
    moreover have "entries (drop_oldest s) = tl (entries s)" "st_order (drop_oldest s) = tl (st_order s)"
      using True less.prems(1) drop_oldest_entries by (simp_all add: drop_oldest_def)
    ultimately have "entries s' = drop (Suc k) (entries s) \<and> gone' = gone @ take (Suc k) (st_order s) \<and>
        Suc k < length (st_order s)"
      using True k by (cases "st_order s") (auto simp: drop_Suc)
    moreover from less.hyps [OF le ok ev] have "store_ok s' \<and> within_limits s' \<and> st_seq s' = st_seq s \<and>
        st_max s' = st_max s \<and> st_maxBytes s' = st_maxBytes s" by (simp add: drop_oldest_def)
    ultimately show ?thesis by blast
  next
    case False
    with less.prems have "s' = s" "gone' = gone" by (simp_all add: evict_step [of s])
    moreover from False have "within_limits s" by (auto simp: within_limits_def)
    ultimately show ?thesis
      using less.prems(1) by (auto intro!: exI [of _ 0])
  qed
qed


section \<open>What the operations do to the list of messages\<close>

definition messages_of :: "store_state \<Rightarrow> mail_message list" where
  "messages_of s = map en_msg (entries s)"

lemma length_entries [simp]: "length (entries s) = length (st_order s)"
  by (simp add: entries_def)

definition appended :: "mail_message \<Rightarrow> string \<Rightarrow> store_state \<Rightarrow> store_state" where
  "appended m raw s = s\<lparr>st_seq := st_seq s + 1,
     st_items := (st_items s)(mm_id m \<mapsto> \<lparr>en_msg = m, en_raw = raw, en_size = sizeOf m raw, en_seq = st_seq s + 1\<rparr>),
     st_bytes := st_bytes s + sizeOf m raw, st_order := st_order s @ [mm_id m]\<rparr>"

lemma appended_entries:
  assumes "mm_id m \<notin> set (st_order s)"
  shows "entries (appended m raw s) =
    entries s @ [\<lparr>en_msg = m, en_raw = raw, en_size = sizeOf m raw, en_seq = st_seq s + 1\<rparr>]"
proof -
  have "map (item (appended m raw s)) (st_order s) = map (item s) (st_order s)"
    using assms by (intro map_cong refl item_cong) (auto simp: appended_def)
  then show ?thesis by (simp add: entries_def) (simp add: appended_def item_def)
qed

lemma appended_ok:
  assumes ok: "store_ok s" and new: "mm_id m \<notin> set (st_order s)"
  shows "store_ok (appended m raw s)"
proof -
  have d: "st_order (appended m raw s) = st_order s @ [mm_id m]" "st_seq (appended m raw s) = st_seq s + 1"
    "st_max (appended m raw s) = st_max s" "st_bytes (appended m raw s) = st_bytes s + sizeOf m raw"
    "dom (st_items (appended m raw s)) = insert (mm_id m) (dom (st_items s))"
    by (simp_all add: appended_def)
  show ?thesis
    using ok new unfolding store_ok_def d appended_entries [OF new] by (fastforce simp: sorted_wrt_append)
qed

lemma Save_spec:
  assumes ok: "store_ok s" and new: "mm_id m \<notin> set (st_order s)" and sv: "Save m raw s = (s', evs)"
  shows "store_ok s' \<and> within_limits s' \<and>
    (\<exists>k \<le> length (st_order s). messages_of s' = drop k (messages_of s) @ [m] \<and>
       entries s' = drop k (entries (appended m raw s)) \<and>
       evs = map MessageDeleted (take k (st_order s)) @ [MessageCreated (mm_id m)] \<and>
       st_evicted s' = st_evicted s + k)"
proof -
  obtain s2 gone where e: "evict (appended m raw s) [] = (s2, gone)" by fastforce
  have s': "s' = s2\<lparr>st_evicted := st_evicted s2 + length gone\<rparr>"
    and evs: "evs = map MessageDeleted gone @ [MessageCreated (mm_id m)]"
    using sv e by (auto simp: Save_def Let_def appended_def split: prod.splits)
  have ent: "entries s' = entries s2" by (simp add: entries_def s' item_def)
  from evict_spec [OF appended_ok [OF ok new] e] obtain k where
    k: "entries s2 = drop k (entries (appended m raw s))" "gone = take k (st_order s @ [mm_id m])"
      "k < length (st_order s @ [mm_id m])"
    and ok2: "store_ok s2" "within_limits s2" by (auto simp: appended_def)
  have ev: "st_evicted s2 = st_evicted s"
  proof -
    have "evict x g = (y, g') \<Longrightarrow> st_evicted y = st_evicted x" for x g y g'
      by (induction x g rule: evict.induct) (subst (asm) (2) evict.simps, auto simp: Let_def split: if_splits)
    from this [OF e] show ?thesis by (simp add: appended_def)
  qed
  have "k \<le> length (st_order s)" using k(3) by simp
  then have "messages_of s' = drop k (messages_of s) @ [m]" "gone = take k (st_order s)" "length gone = k"
    using k by (simp_all add: messages_of_def ent appended_entries [OF new] drop_map)
  moreover have "store_ok s' \<and> within_limits s'"
    using ok2 ent by (simp add: store_ok_def within_limits_def s')
  ultimately show ?thesis using \<open>k \<le> length (st_order s)\<close> evs ev k(1) ent s' by auto
qed

section \<open>Pages\<close>

lemma bsearch_spec:
  assumes mono: "\<And>a b. a \<le> b \<Longrightarrow> b < n \<Longrightarrow> below b \<Longrightarrow> below a"
  shows "i \<le> j \<Longrightarrow> j \<le> n \<Longrightarrow> (\<forall>k < i. below k) \<Longrightarrow> (\<forall>k. j \<le> k \<and> k < n \<longrightarrow> \<not> below k) \<Longrightarrow>
    bsearch below i j \<le> n \<and> (\<forall>k < bsearch below i j. below k) \<and>
    (\<forall>k. bsearch below i j \<le> k \<and> k < n \<longrightarrow> \<not> below k)"
proof (induction "j - i" arbitrary: i j rule: less_induct)
  case less
  show ?case
  proof (cases "i < j")
    case False
    then have "bsearch below i j = i" by (simp add: bsearch.simps [of below i j])
    with False less.prems show ?thesis by auto
  next
    case True
    define h where "h = (i + j) div 2"
    have h: "i \<le> h" "h < j" using True by (auto simp: h_def)
    have eq: "bsearch below i j = (if below h then bsearch below (h + 1) j else bsearch below i h)"
      using True by (subst bsearch.simps) (simp add: h_def Let_def)
    show ?thesis
    proof (cases "below h")
      case True
      then have "\<forall>k < h + 1. below k" using mono [of _ h] h less.prems(2) by auto
      with less.hyps [of j "h + 1"] less.prems h True eq show ?thesis by simp
    next
      case False
      then have "\<forall>k. h \<le> k \<and> k < n \<longrightarrow> \<not> below k" using mono [of h] by blast
      with less.hyps [of h i] less.prems h False eq show ?thesis by simp
    qed
  qed
qed

lemma page_loop_unlimited:
  "page_loop f 0 es out q = \<lparr>pg_messages = out @ map en_msg (filter (Match f \<circ> en_msg) es), pg_next = 0\<rparr>"
  by (induction es arbitrary: out q) auto

lemma page_loop_spec:
  assumes "0 < limit"
  shows "length out \<le> limit \<Longrightarrow>
    page_loop f limit es out q =
      (let l = filter (Match f \<circ> en_msg) es; r = limit - length out in
       \<lparr>pg_messages = out @ map en_msg (take r l),
        pg_next = (if r < length l then (if r = 0 then q else en_seq (l ! (r - 1))) else 0)\<rparr>)"
proof (induction es arbitrary: out q)
  case (Cons e es)
  show ?case
  proof (cases "Match f (en_msg e) \<and> length out < limit")
    case True
    then obtain r where r: "limit - length out = Suc r" by (metis Suc_diff_Suc)
    then have "limit - Suc (length out) = r" by simp
    with Cons.IH [of "out @ [en_msg e]" "en_seq e"] True r assms show ?thesis
      by (auto simp: Let_def nth_Cons')
  qed (use Cons assms in \<open>auto simp: Let_def\<close>)
qed simp

text \<open>The entries a page ranges over, newest first.\<close>

definition matching_below :: "go_filter \<Rightarrow> nat \<Rightarrow> store_state \<Rightarrow> entry list" where
  "matching_below f cursor s =
     rev (filter (\<lambda>e. Match f (en_msg e) \<and> (cursor = 0 \<or> en_seq e < cursor)) (entries s))"

lemma filter_prefix:
  assumes "k \<le> length xs" "\<forall>i < k. p (xs ! i)" "\<forall>i. k \<le> i \<and> i < length xs \<longrightarrow> \<not> p (xs ! i)"
  shows "filter p xs = take k xs"
proof -
  have "filter p (take k xs) = take k xs" using assms by (auto simp: filter_id_conv in_set_conv_nth)
  moreover have "filter p (drop k xs) = []"
    using assms by (auto simp: filter_empty_conv in_set_conv_nth)
  ultimately show ?thesis by (metis append_Nil2 append_take_drop_id filter_append)
qed

lemma cursor_prefix:
  assumes "store_ok s" "0 < cursor"
  shows "map (item s) (take (bsearch (\<lambda>i. en_seq (item s (st_order s ! i)) < cursor) 0 (length (st_order s))) (st_order s))
    = filter (\<lambda>e. en_seq e < cursor) (entries s)"
proof -
  let ?n = "length (st_order s)" and ?p = "\<lambda>i. en_seq (item s (st_order s ! i)) < cursor"
  have nth: "i < ?n \<Longrightarrow> entries s ! i = item s (st_order s ! i)" for i by (simp add: entries_def)
  have "?p a" if "a \<le> b" "b < ?n" "?p b" for a b
  proof (cases "a = b")
    case False
    with assms(1) that have "en_seq (entries s ! a) < en_seq (entries s ! b)"
      by (auto simp: store_ok_def sorted_wrt_iff_nth_less)
    with that show ?thesis by (simp add: nth)
  qed (use that in simp)
  note mono = this
  define k where "k = bsearch ?p 0 ?n"
  have "k \<le> ?n \<and> (\<forall>i < k. ?p i) \<and> (\<forall>i. k \<le> i \<and> i < ?n \<longrightarrow> \<not> ?p i)"
    unfolding k_def by (rule bsearch_spec [OF mono]) simp_all
  then have k: "k \<le> ?n" "i < k \<Longrightarrow> ?p i" "k \<le> i \<Longrightarrow> i < ?n \<Longrightarrow> \<not> ?p i" for i by blast+
  have "filter (\<lambda>e. en_seq e < cursor) (entries s) = take k (entries s)"
  proof (rule filter_prefix)
    show "\<forall>i < k. en_seq (entries s ! i) < cursor"
    proof (intro allI impI)
      fix i
      assume "i < k"
      with k(1) k(2) [of i] show "en_seq (entries s ! i) < cursor" by (simp add: nth)
    qed
  qed (use k(1,3) in \<open>auto simp: nth\<close>)
  then show ?thesis unfolding k_def by (simp add: entries_def take_map)
qed

lemma Page_spec:
  assumes "store_ok s"
  shows "Page f cursor limit s =
    (let l = matching_below f cursor s in
     if limit = 0 then \<lparr>pg_messages = map en_msg l, pg_next = 0\<rparr>
     else \<lparr>pg_messages = map en_msg (take limit l),
           pg_next = (if limit < length l then en_seq (l ! (limit - 1)) else 0)\<rparr>)"
proof -
  let ?stop = "if 0 < cursor
      then bsearch (\<lambda>i. en_seq (item s (st_order s ! i)) < cursor) 0 (length (st_order s))
      else length (st_order s)"
  have "map (item s) (take ?stop (st_order s)) = filter (\<lambda>e. cursor = 0 \<or> en_seq e < cursor) (entries s)"
    using cursor_prefix [OF assms] by (auto simp: entries_def)
  then have "filter (Match f \<circ> en_msg) (map (item s) (rev (take ?stop (st_order s)))) = matching_below f cursor s"
    by (simp add: rev_map [symmetric] rev_filter [symmetric] matching_below_def o_def conj_commute)
  then show ?thesis
    using page_loop_unlimited [of f] page_loop_spec [of limit "[]" f]
    unfolding Page_def Let_def by (cases "limit = 0") auto
qed

lemma List_messages_spec: "store_ok s \<Longrightarrow> List_messages f s = rev (filter (Match f) (messages_of s))"
  by (simp add: List_messages_def Page_spec matching_below_def messages_of_def rev_map filter_map o_def)

lemma Latest_spec: "Latest f s = find (Match f) (rev (messages_of s))"
  by (simp add: Latest_def messages_of_def entries_def rev_map)

lemma Latest_hd: "store_ok s \<Longrightarrow> Latest f s = (case List_messages f s of [] \<Rightarrow> None | m # _ \<Rightarrow> Some m)"
proof -
  have "find p xs = (case filter p xs of [] \<Rightarrow> None | x # _ \<Rightarrow> Some x)" for p and xs :: "mail_message list"
    by (induction xs) auto
  then show "store_ok s \<Longrightarrow> ?thesis" by (simp add: Latest_spec List_messages_spec rev_filter)
qed

lemma count_loop_spec: "count_loop p xs n = n + length (filter p xs)"
  by (induction xs arbitrary: n) auto

lemma Count_spec: "store_ok s \<Longrightarrow> Count f s = length (List_messages f s)"
  by (auto simp: Count_def List_messages_spec IsZero_def count_loop_spec messages_of_def entries_def filter_map o_def)


section \<open>Deletion\<close>

text \<open>Keeping the identifiers that satisfy \<open>p\<close>, the way both deletions leave the store.\<close>

definition keep :: "(string \<Rightarrow> bool) \<Rightarrow> store_state \<Rightarrow> store_state" where
  "keep p s = s\<lparr>st_bytes := sum_list (map en_size (map (item s) (filter p (st_order s)))),
     st_items := (\<lambda>i. if p i then st_items s i else None), st_order := filter p (st_order s)\<rparr>"

lemma keep_entries: "entries (keep p s) = map (item s) (filter p (st_order s))"
  by (rule entries_restrict) (auto simp: keep_def)

lemma keep_ok:
  assumes ok: "store_ok s" shows "store_ok (keep p s)"
proof -
  let ?ids = "filter p (st_order s)"
  have e: "entries (keep p s) = map (item s) ?ids" by (rule keep_entries)
  have ids: "map (mm_id \<circ> en_msg \<circ> item s) (st_order s) = st_order s"
    using ok by (simp add: store_ok_def entries_def o_assoc)
  have "sorted_wrt (\<lambda>a b. en_seq (item s a) < en_seq (item s b)) (st_order s)"
    using ok by (simp add: store_ok_def entries_def sorted_wrt_map)
  then have "sorted_wrt (\<lambda>a b. en_seq (item s a) < en_seq (item s b)) ?ids" by (rule sorted_wrt_filter)
  moreover have "map (mm_id \<circ> en_msg) (map (item s) ?ids) = ?ids"
  proof -
    from ids have "\<forall>i \<in> set (st_order s). mm_id (en_msg (item s i)) = i"
      by (simp add: map_eq_conv [of _ "st_order s" "\<lambda>x. x", simplified])
    then show ?thesis by (auto intro: map_idI)
  qed
  moreover have "dom (\<lambda>i. if p i then st_items s i else None) = {i \<in> dom (st_items s). p i}"
    by (auto split: if_splits)
  ultimately show ?thesis
    using ok unfolding store_ok_def e
    by (auto simp: keep_def sorted_wrt_map entries_def)
qed

lemma keep_limits: "store_ok s \<Longrightarrow> \<forall>e \<in> set (entries s). 0 \<le> en_size e \<Longrightarrow> within_limits s \<Longrightarrow> within_limits (keep p s)"
proof -
  assume ok: "store_ok s" and pos: "\<forall>e \<in> set (entries s). 0 \<le> en_size e" and w: "within_limits s"
  have "sum_list (map (\<lambda>i. en_size (item s i)) (filter p xs)) \<le> sum_list (map (\<lambda>i. en_size (item s i)) xs)"
    if "\<forall>i \<in> set xs. 0 \<le> en_size (item s i)" for xs using that by (induction xs) auto
  from this [of "st_order s"] pos have "st_bytes (keep p s) \<le> st_bytes s"
    using ok by (auto simp: keep_def store_ok_def entries_def o_def)
  moreover have "length (st_order (keep p s)) \<le> length (st_order s)" by (simp add: keep_def)
  moreover have "st_max (keep p s) = st_max s" "st_maxBytes (keep p s) = st_maxBytes s"
    by (simp_all add: keep_def)
  ultimately show ?thesis using w unfolding within_limits_def by auto
qed

lemma Delete_spec:
  assumes ok: "store_ok s"
  shows "Delete mid s = (if mid \<in> set (st_order s) then (True, keep (\<lambda>i. i \<noteq> mid) s, [MessageDeleted mid])
    else (False, s, []))"
proof (cases "st_items s mid")
  case None
  with ok have "mid \<notin> set (st_order s)" by (auto simp: store_ok_def)
  with None show ?thesis by (simp add: Delete_def)
next
  case (Some e)
  with ok have m: "mid \<in> set (st_order s)" by (auto simp: store_ok_def)
  then obtain xs ys where o: "st_order s = xs @ mid # ys" by (metis split_list)
  with ok have "mid \<notin> set xs" "mid \<notin> set ys" by (auto simp: store_ok_def)
  then have f: "filter (\<lambda>i. i \<noteq> mid) (st_order s) = xs @ ys"
    by (simp add: o) (metis (mono_tags, lifting) filter_True)
  have "st_bytes s - en_size e = sum_list (map en_size (map (item s) (xs @ ys)))"
    using ok Some by (simp add: store_ok_def entries_def o item_def)
  moreover have "(st_items s)(mid := None) = (\<lambda>i. if i \<noteq> mid then st_items s i else None)" by auto
  ultimately show ?thesis using Some m f by (simp add: Delete_def keep_def)
qed

lemma delete_loop_spec:
  "distinct (kept @ ids) \<Longrightarrow>
   (\<forall>i \<in> set ids. st_items s i = st_items s0 i) \<Longrightarrow>
   delete_loop f ids s kept removed =
     (s\<lparr>st_bytes := st_bytes s - sum_list (map (en_size \<circ> item s0) (filter (\<lambda>i. Match f (en_msg (item s0 i))) ids)),
        st_items := (\<lambda>i. if i \<in> set ids \<and> Match f (en_msg (item s0 i)) then None else st_items s i),
        st_order := kept @ filter (\<lambda>i. \<not> Match f (en_msg (item s0 i))) ids\<rparr>,
      removed @ filter (\<lambda>i. Match f (en_msg (item s0 i))) ids)"
proof (induction ids arbitrary: s kept removed)
  case (Cons i ids)
  have it: "item s i = item s0 i" using Cons.prems(2) by (intro item_cong) simp
  show ?case
  proof (cases "Match f (en_msg (item s0 i))")
    case True
    let ?s = "s\<lparr>st_bytes := st_bytes s - en_size (item s0 i), st_items := (st_items s)(i := None)\<rparr>"
    have "distinct (kept @ ids)" "\<forall>j \<in> set ids. st_items ?s j = st_items s0 j" using Cons.prems by auto
    from Cons.IH [OF this, of "removed @ [i]"] True it Cons.prems(1) show ?thesis
      by (auto simp: fun_eq_iff algebra_simps)
  next
    case False
    have "distinct ((kept @ [i]) @ ids)" "\<forall>j \<in> set ids. st_items s j = st_items s0 j" using Cons.prems by auto
    from Cons.IH [OF this, of removed] False it show ?thesis by (auto simp: fun_eq_iff)
  qed
qed simp

lemma DeleteMatching_spec:
  assumes ok: "store_ok s"
  shows "fst (DeleteMatching f s) = length (List_messages f s) \<and>
    fst (snd (DeleteMatching f s)) = keep (\<lambda>i. \<not> Match f (en_msg (item s i))) s"
proof (cases "IsZero f")
  case True
  then have "keep (\<lambda>i. \<not> Match f (en_msg (item s i))) s = s\<lparr>st_order := [], st_items := Map.empty, st_bytes := 0\<rparr>"
    by (simp add: keep_def IsZero_def)
  with True Count_spec [OF ok, of f] show ?thesis by (simp add: DeleteMatching_def Count_def)
next
  case False
  let ?p = "\<lambda>i. Match f (en_msg (item s i))"
  have d: "distinct ([] @ st_order s)" using ok by (simp add: store_ok_def)
  note l = delete_loop_spec [OF d, of s s f "[]"]
  have split: "sum_list (map g xs) - sum_list (map g (filter p xs)) = sum_list (map g (filter (\<lambda>x. \<not> p x) xs))"
    for g :: "string \<Rightarrow> int" and p xs by (induction xs) auto
  have it: "(\<lambda>i. if i \<in> set (st_order s) \<and> ?p i then None else st_items s i) = (\<lambda>i. if \<not> ?p i then st_items s i else None)"
    using ok by (auto simp: store_ok_def fun_eq_iff domIff)
  have "fst (snd (DeleteMatching f s)) = keep (\<lambda>i. \<not> ?p i) s"
    using False l it ok split [of "en_size \<circ> item s" "st_order s" ?p]
    by (simp add: DeleteMatching_def keep_def store_ok_def entries_def)
  moreover have "fst (DeleteMatching f s) = length (List_messages f s)"
    using False l Count_spec [OF ok, of f] by (simp add: DeleteMatching_def Count_def count_loop_spec)
  ultimately show ?thesis by blast
qed


section \<open>Walking through the pages\<close>

text \<open>Follow \<open>nextCursor\<close> from page to page, as a client that loads more does.\<close>

fun all_pages :: "nat \<Rightarrow> go_filter \<Rightarrow> nat \<Rightarrow> nat \<Rightarrow> store_state \<Rightarrow> mail_message list" where
  "all_pages 0 f limit cursor s = []"
| "all_pages (Suc n) f limit cursor s =
     (let p = Page f cursor limit s in
      pg_messages p @ (if pg_next p = 0 then [] else all_pages n f limit (pg_next p) s))"

lemma matching_below_next:
  assumes ok: "store_ok s" and n: "0 < n" "n < length (matching_below f cursor s)"
  shows "matching_below f (en_seq (matching_below f cursor s ! (n - 1))) s = drop n (matching_below f cursor s)"
proof -
  define l where "l = matching_below f cursor s"
  define c where "c = en_seq (l ! (n - 1))"
  have gt: "sorted_wrt (\<lambda>a b. en_seq b < en_seq a) l"
    using ok unfolding l_def matching_below_def sorted_wrt_rev
    by (auto simp: store_ok_def sorted_wrt_map intro: sorted_wrt_filter)
  have c: "0 < c" "cursor = 0 \<or> c < cursor"
  proof -
    have "l ! (n - 1) \<in> set l" using n by (simp add: l_def)
    then show "0 < c" "cursor = 0 \<or> c < cursor"
      using ok by (auto simp: c_def l_def matching_below_def store_ok_def)
  qed
  then have "matching_below f c s = filter (\<lambda>e. en_seq e < c) l"
    by (auto simp: l_def matching_below_def rev_filter intro: filter_cong)
  also have "\<dots> = filter (\<lambda>e. en_seq e < c) (take n l) @ filter (\<lambda>e. en_seq e < c) (drop n l)"
    by (metis append_take_drop_id filter_append)
  also have "filter (\<lambda>e. en_seq e < c) (take n l) = []"
  proof -
    have "\<not> en_seq (l ! i) < c" if "i < n" for i
    proof (cases "i = n - 1")
      case False
      with that n have "i < n - 1" "n - 1 < length l" by (simp_all add: l_def)
      with gt have "en_seq (l ! (n - 1)) < en_seq (l ! i)" unfolding sorted_wrt_iff_nth_less by blast
      then show ?thesis by (simp add: c_def)
    qed (simp add: c_def)
    then show ?thesis by (auto simp: filter_empty_conv in_set_conv_nth)
  qed
  also have "filter (\<lambda>e. en_seq e < c) (drop n l) = drop n l"
  proof -
    have "en_seq (l ! i) < c" if "n \<le> i" "i < length l" for i
      using gt that n unfolding sorted_wrt_iff_nth_less c_def by (auto dest!: spec [of _ "n - 1"])
    then show ?thesis by (auto simp: filter_id_conv in_set_conv_nth)
  qed
  finally show ?thesis by (simp add: l_def c_def)
qed

lemma all_pages_spec:
  assumes ok: "store_ok s" and limit: "0 < limit"
  shows "length (matching_below f cursor s) < n \<Longrightarrow>
    all_pages n f limit cursor s = map en_msg (matching_below f cursor s)"
proof (induction n arbitrary: cursor)
  case (Suc n)
  let ?l = "matching_below f cursor s"
  show ?case
  proof (cases "limit < length ?l")
    case False
    then show ?thesis using limit by (simp add: Page_spec [OF ok] Let_def)
  next
    case True
    then have "?l ! (limit - 1) \<in> set ?l" using limit by simp
    then have pos: "0 < en_seq (?l ! (limit - 1))"
      using ok by (auto simp: matching_below_def store_ok_def)
    have next_l: "matching_below f (en_seq (?l ! (limit - 1))) s = drop limit ?l"
      using matching_below_next [OF ok limit True] .
    have "length (drop limit ?l) < n" using Suc.prems True limit by simp
    with Suc.IH [of "en_seq (?l ! (limit - 1))"] next_l
    have "all_pages n f limit (en_seq (?l ! (limit - 1))) s = map en_msg (drop limit ?l)" by simp
    with True limit pos show ?thesis
      by (simp add: Page_spec [OF ok] Let_def map_append [symmetric] del: map_append)
  qed
qed simp

lemma matching_below_length: "length (matching_below f cursor s) \<le> length (st_order s)"
  by (simp add: matching_below_def) (metis length_entries length_filter_le)

lemma keep_messages:
  "messages_of (keep (\<lambda>i. \<not> Match f (en_msg (item s i))) s) = filter (\<lambda>m. \<not> Match f m) (messages_of s)"
  unfolding messages_of_def keep_entries by (simp add: entries_def filter_map o_def)

section \<open>The properties\<close>

text \<open>
  C7: Saving a message with a fresh identifier keeps the store's invariant and its limits,
  keeps the new message as the newest, and evicts only the oldest ones, each announced.
\<close>

theorem Save_keeps_newest:
  assumes "store_ok s" "mm_id m \<notin> set (st_order s)"
  shows "store_ok (fst (Save m raw s)) \<and> within_limits (fst (Save m raw s)) \<and>
    (\<exists>k. messages_of (fst (Save m raw s)) = drop k (messages_of s) @ [m] \<and>
      snd (Save m raw s) = map MessageDeleted (take k (st_order s)) @ [MessageCreated (mm_id m)])"
  using Save_spec [OF assms, of raw "fst (Save m raw s)" "snd (Save m raw s)"] by auto

theorem Save_keeps_newest_witness:
  "store_ok (fst (Save zero_message [] (New 1))) \<and> within_limits (fst (Save zero_message [] (New 1))) \<and>
    (\<exists>k. messages_of (fst (Save zero_message [] (New 1))) = drop k (messages_of (New 1)) @ [zero_message] \<and>
      snd (Save zero_message [] (New 1)) = map MessageDeleted (take k (st_order (New 1))) @ [MessageCreated (mm_id zero_message)])"
  by (rule Save_keeps_newest) (simp_all add: New_ok, simp add: New_def)

text \<open>
  C8: Following the cursors from page to page yields every matching message exactly once, newest
  first: the concatenation of the pages is the unpaged list.
\<close>

theorem pages_complete:
  assumes "store_ok s" "0 < limit"
  shows "all_pages (Suc (length (st_order s))) f limit 0 s = List_messages f s"
  using all_pages_spec [OF assms, of f 0 "Suc (length (st_order s))"] matching_below_length [of f 0 s] assms
  by (simp add: List_messages_def Page_spec Let_def del: all_pages.simps)

theorem pages_complete_witness:
  "all_pages (Suc (length (st_order (New 1)))) zero_filter 2 0 (New 1) = List_messages zero_filter (New 1)"
  by (rule pages_complete) (simp_all add: New_ok)

text \<open>
  A cursor is stable: mail that arrives between two pages changes nothing in the pages behind
  the cursor, as long as nothing is evicted.
\<close>

theorem Page_stable:
  assumes "store_ok s" "mm_id m \<notin> set (st_order s)" "0 < cursor" "cursor \<le> st_seq s"
    "st_evicted (fst (Save m raw s)) = st_evicted s"
  shows "Page f cursor limit (fst (Save m raw s)) = Page f cursor limit s"
proof -
  from Save_spec [OF assms(1,2), of raw "fst (Save m raw s)" "snd (Save m raw s)"] assms(5)
  have ok: "store_ok (fst (Save m raw s))" and e: "entries (fst (Save m raw s)) = entries (appended m raw s)" by auto
  have "matching_below f cursor (fst (Save m raw s)) = matching_below f cursor s"
    using assms(3,4) by (auto simp: matching_below_def e appended_entries [OF assms(2)])
  then show ?thesis using ok assms(1) by (simp add: Page_spec)
qed

theorem Page_stable_witness:
  "Page zero_filter 1 1 (fst (Save (zero_message\<lparr>mm_id := ''b''\<rparr>) [] (fst (Save zero_message [] (New 2))))) =
   Page zero_filter 1 1 (fst (Save zero_message [] (New 2)))"
proof (rule Page_stable)
  have ok: "store_ok (New 2)" "mm_id zero_message \<notin> set (st_order (New 2))"
    by (simp_all add: New_ok) (simp add: New_def)
  show "store_ok (fst (Save zero_message [] (New 2)))"
    using Save_spec [OF ok, of "[]" "fst (Save zero_message [] (New 2))" "snd (Save zero_message [] (New 2))"] by simp
qed (simp_all add: Save_def New_def evict.simps zero_message_def)

text \<open>
  Deleting by filter returns how many messages matched, removes exactly those and keeps the
  others in order, with the invariant.
\<close>

theorem DeleteMatching_exact:
  assumes "store_ok s"
  shows "store_ok (fst (snd (DeleteMatching f s))) \<and>
    fst (DeleteMatching f s) = length (List_messages f s) \<and>
    messages_of (fst (snd (DeleteMatching f s))) = filter (\<lambda>m. \<not> Match f m) (messages_of s)"
  using DeleteMatching_spec [OF assms, of f] keep_ok [OF assms] by (simp add: keep_messages)

theorem DeleteMatching_exact_witness:
  "store_ok (fst (snd (DeleteMatching zero_filter (New 1)))) \<and>
    fst (DeleteMatching zero_filter (New 1)) = length (List_messages zero_filter (New 1)) \<and>
    messages_of (fst (snd (DeleteMatching zero_filter (New 1)))) = filter (\<lambda>m. \<not> Match zero_filter m) (messages_of (New 1))"
  by (rule DeleteMatching_exact) (simp add: New_ok)

end
