(* ===== verification/Failures.thy ===== *)
theory Failures
  imports Store_Filter
begin

text \<open>
  Simulated SMTP failures (\<open>internal/failures/failures.go\<close>): rules that make the next deliveries
  fail, each with the number of deliveries it still applies to. The invariant says every pending
  rule is valid and still has deliveries left; a rule added with a count fires exactly that often.
\<close>

section \<open>Rules and operations\<close>

record rule =
  fr_id :: string
  fr_stage :: string
  fr_code :: int
  fr_message :: string
  fr_address :: string
  fr_remaining :: int

record rule_request =
  fq_stage :: string
  fq_code :: int
  fq_message :: string
  fq_address :: string
  fq_count :: int

record rule_set =
  fs_rules :: "rule list"
  fs_next :: nat

definition maxCount :: int where "maxCount = 10000"
definition maxRules :: nat where "maxRules = 1000"

definition defaultMessage :: "int \<Rightarrow> string" where
  "defaultMessage code = (if code < 500 then ''4.3.0 Temporary failure simulated by Mailpeek''
     else ''5.3.0 Permanent failure simulated by Mailpeek'')"

text \<open>The error texts, joined by newlines; none when the rule is valid.\<close>

definition validate :: "rule \<Rightarrow> string list" where
  "validate r =
     (if fr_stage r \<noteq> ''rcpt'' \<and> fr_stage r \<noteq> ''data''
      then [''stage must be '' @ json_string ''rcpt'' @ '' or '' @ json_string ''data''] else []) @
     (if fr_code r < 400 \<or> fr_code r > 599 then [''code must be an SMTP error code between 400 and 599''] else []) @
     (if CHR 0x0D \<in> set (fr_message r) \<or> CHR 0x0A \<in> set (fr_message r)
      then [''message must be a single line''] else []) @
     (if fr_remaining r < 1 \<or> fr_remaining r > maxCount then [''count must be between 1 and '' @ show_int maxCount] else [])"

definition filled :: "rule_request \<Rightarrow> rule" where
  "filled req =
     (let st = toLowerCase (TrimSpace (fq_stage req)) in
      \<lparr>fr_id = [], fr_stage = (if st = [] then ''data'' else st),
       fr_code = (if fq_code req = 0 then 451 else fq_code req),
       fr_message = TrimSpace (fq_message req), fr_address = TrimSpace (fq_address req),
       fr_remaining = (if fq_count req = 0 then 1 else fq_count req)\<rparr>)"

definition Add :: "rule_request \<Rightarrow> rule_set \<Rightarrow> (string + rule) \<times> rule_set" where
  "Add req s =
     (let r = filled req in
      if validate r \<noteq> [] then (Inl (join ''\<newline>'' (validate r)), s)
      else (let r = (if fr_message r = [] then r\<lparr>fr_message := defaultMessage (fr_code r)\<rparr> else r) in
        if maxRules \<le> length (fs_rules s)
        then (Inl (''at most '' @ show_nat maxRules @ '' failure rules can be pending''), s)
        else (let n = fs_next s + 1; r = r\<lparr>fr_id := show_nat n\<rparr> in
          (Inr r, s\<lparr>fs_next := n, fs_rules := fs_rules s @ [r]\<rparr>))))"

definition List_rules :: "rule_set \<Rightarrow> rule list" where
  "List_rules s = fs_rules s"

fun remove_rule :: "string \<Rightarrow> rule list \<Rightarrow> (rule list) option" where
  "remove_rule i [] = None"
| "remove_rule i (r # rs) = (if fr_id r = i then Some rs else map_option (\<lambda>rs. r # rs) (remove_rule i rs))"

definition Remove :: "string \<Rightarrow> rule_set \<Rightarrow> bool \<times> rule_set" where
  "Remove i s = (case remove_rule i (fs_rules s) of
     None \<Rightarrow> (False, s) | Some rs \<Rightarrow> (True, s\<lparr>fs_rules := rs\<rparr>))"

definition Clear :: "string \<Rightarrow> rule_set \<Rightarrow> nat \<times> rule_set" where
  "Clear address s =
     (let kept = filter (\<lambda>r. address \<noteq> [] \<and> \<not> EqualFold (fr_address r) (TrimSpace address)) (fs_rules s)
      in (length (fs_rules s) - length kept, s\<lparr>fs_rules := kept\<rparr>))"

definition matches_rcpt :: "rule \<Rightarrow> string list \<Rightarrow> bool" where
  "matches_rcpt r recipients \<longleftrightarrow> fr_address r = [] \<or> list_ex (\<lambda>rcpt. EqualFold rcpt (fr_address r)) recipients"

fun take_rule :: "string \<Rightarrow> string list \<Rightarrow> rule list \<Rightarrow> (rule \<times> rule list) option" where
  "take_rule st recipients [] = None"
| "take_rule st recipients (r # rs) =
     (if fr_stage r \<noteq> st \<or> \<not> matches_rcpt r recipients
      then map_option (\<lambda>(t, rs). (t, r # rs)) (take_rule st recipients rs)
      else (let taken = r\<lparr>fr_remaining := fr_remaining r - 1\<rparr> in
        Some (taken, if fr_remaining taken = 0 then rs else taken # rs)))"

definition Take :: "string \<Rightarrow> string list \<Rightarrow> rule_set \<Rightarrow> rule option \<times> rule_set" where
  "Take st recipients s = (case take_rule st recipients (fs_rules s) of
     None \<Rightarrow> (None, s) | Some (t, rs) \<Rightarrow> (Some t, s\<lparr>fs_rules := rs\<rparr>))"

section \<open>The invariant\<close>

definition rule_ok :: "rule \<Rightarrow> bool" where
  "rule_ok r \<longleftrightarrow> validate r = [] \<and> fr_message r \<noteq> []"

definition rules_ok :: "rule_set \<Rightarrow> bool" where
  "rules_ok s \<longleftrightarrow> list_all rule_ok (fs_rules s) \<and> length (fs_rules s) \<le> maxRules \<and>
     sorted_wrt (<) (map (the \<circ> read_nat \<circ> fr_id) (fs_rules s)) \<and>
     list_all (\<lambda>r. \<exists>n \<le> fs_next s. fr_id r = show_nat n) (fs_rules s)"

lemma validate_iff:
  "validate r = [] \<longleftrightarrow> fr_stage r \<in> {''rcpt'', ''data''} \<and> 400 \<le> fr_code r \<and> fr_code r \<le> 599 \<and>
     CHR 0x0D \<notin> set (fr_message r) \<and> CHR 0x0A \<notin> set (fr_message r) \<and>
     1 \<le> fr_remaining r \<and> fr_remaining r \<le> maxCount"
  by (auto simp: validate_def)

lemma default_single_line:
  "CHR 0x0D \<notin> set (defaultMessage n)" "CHR 0x0A \<notin> set (defaultMessage n)" "defaultMessage n \<noteq> []"
  by (simp_all add: defaultMessage_def)

definition completed :: "rule_request \<Rightarrow> rule" where
  "completed req = (let r = filled req in
     if fr_message r = [] then r\<lparr>fr_message := defaultMessage (fr_code r)\<rparr> else r)"

lemma completed_ok: "validate (filled req) = [] \<Longrightarrow> rule_ok (completed req)"
  using default_single_line [of "fr_code (filled req)"]
  by (simp add: completed_def rule_ok_def validate_iff Let_def)

lemma Add_cases:
  assumes "Add req s = (x, s')"
  obtains (rejected) e where "x = Inl e" "s' = s"
  | (added) "rule_ok (completed req)" "length (fs_rules s) < maxRules"
      "x = Inr ((completed req)\<lparr>fr_id := show_nat (fs_next s + 1)\<rparr>)"
      "s' = s\<lparr>fs_next := fs_next s + 1, fs_rules := fs_rules s @ [(completed req)\<lparr>fr_id := show_nat (fs_next s + 1)\<rparr>]\<rparr>"
proof (cases "validate (filled req) \<noteq> [] \<or> maxRules \<le> length (fs_rules s)")
  case True
  then have "isl (fst (Add req s)) \<and> snd (Add req s) = s" by (auto simp: Add_def Let_def)
  then obtain e where "Add req s = (Inl e, s)" by (metis isl_def prod.collapse)
  with assms show ?thesis by (intro rejected [of e]) simp_all
next
  case False
  have "Add req s = (Inr ((completed req)\<lparr>fr_id := show_nat (fs_next s + 1)\<rparr>),
      s\<lparr>fs_next := fs_next s + 1, fs_rules := fs_rules s @ [(completed req)\<lparr>fr_id := show_nat (fs_next s + 1)\<rparr>]\<rparr>)"
    using False by (simp add: Add_def completed_def Let_def)
  with assms False completed_ok [of req] show ?thesis by (intro added) simp_all
qed

lemma Add_ok: "rules_ok s \<Longrightarrow> Add req s = (x, s') \<Longrightarrow> rules_ok s'"
proof -
  assume ok: "rules_ok s" and a: "Add req s = (x, s')"
  from a show ?thesis
  proof (cases rule: Add_cases)
    case added
    have lt: "\<forall>q \<in> set (fs_rules s). (the \<circ> read_nat \<circ> fr_id) q < fs_next s + 1"
      using ok by (auto simp: rules_ok_def list_all_iff)
    have old: "\<forall>q \<in> set (fs_rules s). \<exists>n \<le> fs_next s + 1. fr_id q = show_nat n"
      using ok unfolding rules_ok_def list_all_iff by (meson trans_le_add1)
    have new: "rule_ok ((completed req)\<lparr>fr_id := show_nat (fs_next s + 1)\<rparr>)"
      using added(1) by (simp add: rule_ok_def validate_iff)
    from ok lt old new added show ?thesis
      by (auto simp: rules_ok_def sorted_wrt_append list_all_iff simp del: One_nat_def)
  qed (use ok in simp)
qed

text \<open>Every other operation keeps a sub-list of the rules, one of them possibly used once more.\<close>

lemma take_rule_shape:
  "take_rule st rc rs = Some (t, rs') \<Longrightarrow> \<exists>ys r zs. rs = ys @ r # zs \<and> fr_stage r = st \<and> matches_rcpt r rc \<and>
     (\<forall>y \<in> set ys. \<not> (fr_stage y = st \<and> matches_rcpt y rc)) \<and> t = r\<lparr>fr_remaining := fr_remaining r - 1\<rparr> \<and>
     rs' = ys @ (if fr_remaining r = 1 then [] else [t]) @ zs"
proof (induction rs arbitrary: rs')
  case (Cons r rs)
  show ?case
  proof (cases "fr_stage r = st \<and> matches_rcpt r rc")
    case True
    with Cons.prems show ?thesis by (intro exI [of _ "[]"]) (auto simp: Let_def split: if_splits)
  next
    case False
    with Cons.prems obtain rs1 where rs1: "take_rule st rc rs = Some (t, rs1)" "rs' = r # rs1" by auto
    from Cons.IH [OF rs1(1)] obtain ys q zs where "rs = ys @ q # zs" "fr_stage q = st" "matches_rcpt q rc"
      "\<forall>y \<in> set ys. \<not> (fr_stage y = st \<and> matches_rcpt y rc)" "t = q\<lparr>fr_remaining := fr_remaining q - 1\<rparr>"
      "rs1 = ys @ (if fr_remaining q = 1 then [] else [t]) @ zs" by blast
    with rs1(2) False show ?thesis by (intro exI [of _ "r # ys"] exI [of _ q] exI [of _ zs]) auto
  qed
qed simp

lemma Take_ok: "rules_ok s \<Longrightarrow> Take st rc s = (x, s') \<Longrightarrow> rules_ok s'"
proof -
  assume ok: "rules_ok s" and t: "Take st rc s = (x, s')"
  show ?thesis
  proof (cases "take_rule st rc (fs_rules s)")
    case (Some p)
    then obtain t1 rs' where p: "take_rule st rc (fs_rules s) = Some (t1, rs')" by (cases p) auto
    from take_rule_shape [OF p] obtain ys r zs where "fs_rules s = ys @ r # zs"
      "t1 = r\<lparr>fr_remaining := fr_remaining r - 1\<rparr>" "rs' = ys @ (if fr_remaining r = 1 then [] else [t1]) @ zs" by blast
    with ok p t show ?thesis
      by (auto simp: Take_def rules_ok_def rule_ok_def validate_iff sorted_wrt_append)
  qed (use ok t in \<open>simp add: Take_def\<close>)
qed

lemma rules_ok_sub:
  "rules_ok s \<Longrightarrow> rules_ok (s\<lparr>fs_rules := filter p (fs_rules s)\<rparr>)"
  by (auto simp: rules_ok_def list_all_iff sorted_wrt_map intro: sorted_wrt_filter order_trans [OF length_filter_le])

lemma Clear_ok: "rules_ok s \<Longrightarrow> Clear a s = (n, s') \<Longrightarrow> rules_ok s'"
  using rules_ok_sub by (auto simp: Clear_def Let_def)

lemma remove_rule_shape: "remove_rule i rs = Some rs' \<Longrightarrow> \<exists>ys r zs. rs = ys @ r # zs \<and> rs' = ys @ zs \<and> fr_id r = i"
proof (induction rs arbitrary: rs')
  case (Cons r rs)
  show ?case
  proof (cases "fr_id r = i")
    case True
    with Cons.prems show ?thesis by (intro exI [of _ "[]"]) auto
  next
    case False
    with Cons.prems obtain rs1 where rs1: "remove_rule i rs = Some rs1" "rs' = r # rs1" by auto
    from Cons.IH [OF this(1)] obtain ys q zs where "rs = ys @ q # zs" "rs1 = ys @ zs" "fr_id q = i" by blast
    with rs1(2) show ?thesis by (intro exI [of _ "r # ys"]) auto
  qed
qed simp

lemma Remove_ok: "rules_ok s \<Longrightarrow> Remove i s = (b, s') \<Longrightarrow> rules_ok s'"
  by (auto simp: Remove_def rules_ok_def sorted_wrt_append split: option.splits dest!: remove_rule_shape)

section \<open>A rule fires as often as it says\<close>

text \<open>Any deliveries one after the other, each at a stage with its recipients: the rule each of them got.\<close>

fun deliveries :: "(string \<times> string list) list \<Rightarrow> rule_set \<Rightarrow> rule option list \<times> rule_set" where
  "deliveries [] s = ([], s)"
| "deliveries ((st, rc) # ds) s =
     (let (x, s1) = Take st rc s; (xs, s2) = deliveries ds s1 in (x # xs, s2))"

definition hits :: "rule \<Rightarrow> string \<times> string list \<Rightarrow> bool" where
  "hits r d \<longleftrightarrow> fr_stage r = fst d \<and> matches_rcpt r (snd d)"

definition got :: "string \<Rightarrow> rule option \<Rightarrow> bool" where
  "got i x \<longleftrightarrow> map_option fr_id x = Some i"

lemma take_rule_app:
  "take_rule st rc (ys @ zs) = (case take_rule st rc ys of
     Some (t, ys') \<Rightarrow> Some (t, ys' @ zs) | None \<Rightarrow> map_option (\<lambda>(t, zs'). (t, ys @ zs')) (take_rule st rc zs))"
  by (induction ys) (auto simp: Let_def option.map_comp comp_def case_prod_unfold option.map_ident split: option.splits)

lemma take_rule_ids:
  assumes "take_rule st rc rs = Some (t, rs')"
  shows "fr_id t \<in> fr_id ` set rs \<and> fr_id ` set rs' \<subseteq> fr_id ` set rs"
proof -
  from take_rule_shape [OF assms] obtain ys r zs where "rs = ys @ r # zs" "t = r\<lparr>fr_remaining := fr_remaining r - 1\<rparr>"
    "rs' = ys @ (if fr_remaining r = 1 then [] else [t]) @ zs" by blast
  then show ?thesis by auto
qed

text \<open>
  A delivery reaches the rule when the rule matches it and none before it in the list took the delivery;
  \<open>earlier\<close> are the identifiers of those before it.
\<close>

definition reaches :: "string set \<Rightarrow> rule \<Rightarrow> (string \<times> string list) \<times> rule option \<Rightarrow> bool" where
  "reaches earlier r = (\<lambda>(d, x). hits r d \<and> (case x of None \<Rightarrow> True | Some t \<Rightarrow> fr_id t \<notin> earlier))"

lemma deliveries_gone:
  "i \<notin> fr_id ` set (fs_rules s) \<Longrightarrow>
   filter (got i) (fst (deliveries ds s)) = [] \<and> i \<notin> fr_id ` set (fs_rules (snd (deliveries ds s)))"
proof (induction ds arbitrary: s)
  case (Cons d ds)
  obtain st rc where d: "d = (st, rc)" by fastforce
  show ?case
  proof (cases "take_rule st rc (fs_rules s)")
    case None
    with Cons d show ?thesis by (simp add: Take_def case_prod_unfold Let_def got_def)
  next
    case (Some p)
    then obtain t rs' where p: "take_rule st rc (fs_rules s) = Some (t, rs')" by (cases p) auto
    from take_rule_ids [OF p] Cons.prems have "i \<noteq> fr_id t" "i \<notin> fr_id ` set rs'" by auto
    with Cons.IH [of "s\<lparr>fs_rules := rs'\<rparr>"] p d show ?thesis by (simp add: Take_def case_prod_unfold Let_def got_def)
  qed
qed simp

definition left_of :: "rule \<Rightarrow> nat \<Rightarrow> rule list" where
  "left_of r k = (if k = 0 then [] else [r\<lparr>fr_remaining := int k\<rparr>])"

lemma left_of_full: "fr_remaining r = int (Suc n) \<Longrightarrow> left_of r (Suc n) = [r]"
  by (simp add: left_of_def)

lemma deliveries_to:
  assumes "fr_id ` set ys \<subseteq> earlier" "fr_id r \<notin> earlier" "fr_id ` set zs \<inter> insert (fr_id r) earlier = {}"
    "fs_rules s = ys @ left_of r n @ zs"
  shows "length (filter (got (fr_id r)) (fst (deliveries ds s))) =
      min n (length (filter (reaches earlier r) (zip ds (fst (deliveries ds s))))) \<and>
    filter (\<lambda>q. fr_id q = fr_id r) (fs_rules (snd (deliveries ds s))) =
      left_of r (n - length (filter (got (fr_id r)) (fst (deliveries ds s)))) \<and>
    (\<forall>t \<in> set (filter (got (fr_id r)) (fst (deliveries ds s))). map_option fr_code t = Some (fr_code r) \<and>
       map_option fr_message t = Some (fr_message r))"
  using assms
proof (induction ds arbitrary: s ys zs n)
  case Nil
  have "fr_id r \<notin> fr_id ` set ys" "fr_id r \<notin> fr_id ` set zs" using Nil(1-3) by blast+
  then have "filter (\<lambda>q. fr_id q = fr_id r) ys = []" "filter (\<lambda>q. fr_id q = fr_id r) zs = []"
    by (metis (mono_tags, lifting) filter_False image_eqI)+
  with Nil show ?case by (simp add: left_of_def)
next
  case (Cons d ds)
  obtain st rc where d: "d = (st, rc)" by fastforce
  show ?case
  proof (cases n)
    case 0
    with Cons.prems have "fr_id r \<notin> fr_id ` set (fs_rules s)" by (auto simp: left_of_def)
    from deliveries_gone [OF this, of "d # ds"] 0 show ?thesis
      by (auto simp: left_of_def filter_empty_conv image_iff)
  next
    case (Suc m)
    show ?thesis
    proof (cases "take_rule st rc ys")
      case (Some p)
      then obtain t ys' where p: "take_rule st rc ys = Some (t, ys')" by (cases p) auto
      note ids = take_rule_ids [OF p]
      have "fr_id ` set ys' \<subseteq> earlier" using ids Cons.prems(1) by blast
      note IH = Cons.IH [OF this Cons.prems(2,3), of "s\<lparr>fs_rules := ys' @ left_of r n @ zs\<rparr>" n]
      have "Take st rc s = (Some t, s\<lparr>fs_rules := ys' @ left_of r n @ zs\<rparr>)"
        by (simp add: Take_def Cons.prems(4) take_rule_app p)
      moreover have "fr_id t \<in> earlier" "fr_id t \<noteq> fr_id r" using ids Cons.prems(1,2) by auto
      ultimately show ?thesis using IH d by (simp add: case_prod_unfold Let_def got_def reaches_def)
    next
      case None
      show ?thesis
      proof (cases "hits r d")
        case True
        let ?t = "r\<lparr>fr_remaining := int m\<rparr>"
        have "take_rule st rc (left_of r n @ zs) = Some (?t, left_of r m @ zs)"
          using True d by (auto simp: Suc left_of_def hits_def matches_rcpt_def Let_def)
        then have "Take st rc s = (Some ?t, s\<lparr>fs_rules := ys @ left_of r m @ zs\<rparr>)"
          by (simp add: Take_def Cons.prems(4) take_rule_app None)
        with Cons.IH [OF Cons.prems(1-3), of "s\<lparr>fs_rules := ys @ left_of r m @ zs\<rparr>" m] d Suc True Cons.prems(2) show ?thesis
          by (auto simp: case_prod_unfold Let_def got_def reaches_def)
      next
        case False
        have miss: "take_rule st rc (left_of r n) = None"
          using False d by (auto simp: Suc left_of_def hits_def matches_rcpt_def)
        show ?thesis
        proof (cases "take_rule st rc zs")
          case none: None
          have "Take st rc s = (None, s)"
            by (simp add: Take_def Cons.prems(4) take_rule_app None miss none)
          with Cons.IH [OF Cons.prems] d False show ?thesis
            by (simp add: case_prod_unfold Let_def got_def reaches_def)
        next
          case (Some p)
          then obtain t zs' where p: "take_rule st rc zs = Some (t, zs')" by (cases p) auto
          note ids = take_rule_ids [OF p]
          have z: "fr_id ` set zs' \<inter> insert (fr_id r) earlier = {}" "fr_id t \<noteq> fr_id r" using ids Cons.prems(3) by auto
          have "Take st rc s = (Some t, s\<lparr>fs_rules := ys @ left_of r n @ zs'\<rparr>)"
            by (simp add: Take_def Cons.prems(4) take_rule_app None miss p)
          with Cons.IH [OF Cons.prems(1,2) z(1), of "s\<lparr>fs_rules := ys @ left_of r n @ zs'\<rparr>" n] d False z(2) show ?thesis
            by (simp add: case_prod_unfold Let_def got_def reaches_def)
        qed
      qed
    qed
  qed
qed

text \<open>A rule that does not match does not change what the others do.\<close>

lemma take_rule_append_miss:
  "\<not> (fr_stage r = st \<and> matches_rcpt r rc) \<Longrightarrow>
   take_rule st rc (rs @ [r]) = map_option (\<lambda>(t, rs'). (t, rs' @ [r])) (take_rule st rc rs)"
  by (induction rs) (auto simp: option.map_comp o_def case_prod_unfold Let_def)

section \<open>The properties\<close>

text \<open>
  C17: Whatever deliveries follow, of any stages and recipients, a rule fires, with its code and message, for exactly
  as many of those that reach it as it has left, and for all of them while there are fewer: a delivery
  reaches it when the rule matches and no rule listed before it took the delivery. Afterwards the
  rule has that many fewer left, and is gone when none are.
\<close>

theorem rule_fires_count_times:
  assumes "rules_ok s" "fs_rules s = ys @ r # zs"
  shows "let (answers, s') = deliveries ds s; fired = filter (got (fr_id r)) answers; n = nat (fr_remaining r) in
    length fired = min n (length (filter (reaches (fr_id ` set ys) r) (zip ds answers))) \<and>
    list_all (\<lambda>x. map_option fr_code x = Some (fr_code r) \<and> map_option fr_message x = Some (fr_message r)) fired \<and>
    filter (\<lambda>q. fr_id q = fr_id r) (fs_rules s') =
      (if length fired = n then [] else [r\<lparr>fr_remaining := int (n - length fired)\<rparr>])"
proof -
  from assms have "1 \<le> fr_remaining r" by (simp add: rules_ok_def rule_ok_def validate_iff)
  then have n: "fr_remaining r = int (Suc (nat (fr_remaining r - 1)))" by simp
  have "distinct (map (the \<circ> read_nat) (map fr_id (fs_rules s)))"
    using assms(1) strict_sorted_iff [of "map (the \<circ> read_nat \<circ> fr_id) (fs_rules s)"] by (simp add: rules_ok_def comp_assoc)
  then have d: "distinct (map fr_id (fs_rules s))" by (simp only: distinct_map)
  have "fr_id ` set ys \<subseteq> fr_id ` set ys" "fr_id r \<notin> fr_id ` set ys" "fr_id ` set zs \<inter> insert (fr_id r) (fr_id ` set ys) = {}"
    using d unfolding assms(2) by auto
  note D = deliveries_to [OF this, of s "Suc (nat (fr_remaining r - 1))" ds]
  have "Suc (nat (fr_remaining r - 1)) = nat (fr_remaining r)" using n by arith
  with D assms(2) left_of_full [OF n] show ?thesis
    by (simp add: Let_def case_prod_unfold list_all_iff left_of_def)
qed

definition sample_rule :: rule where
  "sample_rule = \<lparr>fr_id = ''1'', fr_stage = ''data'', fr_code = 451, fr_message = ''no'', fr_address = ''a@x'', fr_remaining = 2\<rparr>"

theorem rule_fires_count_times_witness:
  "filter (got ''1'') (fst (deliveries [(''data'', [''a@x'']), (''data'', [''b@x'']), (''data'', [''a@x'', ''b@x''])]
     \<lparr>fs_rules = [sample_rule], fs_next = 1\<rparr>)) \<noteq> []"
proof -
  let ?ds = "[(''data'', [''a@x'']), (''data'', [''b@x'']), (''data'', [''a@x'', ''b@x''])]"
    and ?s = "\<lparr>fs_rules = [sample_rule], fs_next = 1\<rparr>"
  have ok: "rules_ok ?s" by code_simp
  have "fs_rules ?s = [] @ sample_rule # []" by simp
  from rule_fires_count_times [OF ok this, of ?ds]
  show ?thesis by (auto simp: Let_def sample_rule_def reaches_def hits_def matches_rcpt_def Take_def js_eval EqualFold_def got_def)
qed

text \<open>
  C18: The operations keep the rules valid: stages and codes in range, one to 10000 deliveries left,
  at most 1000 rules, identifiers in order of creation.
\<close>

theorem rules_stay_valid:
  assumes "rules_ok s"
  shows "rules_ok (snd (Add req s)) \<and> rules_ok (snd (Take st rc s)) \<and> rules_ok (snd (Remove i s)) \<and>
    rules_ok (snd (Clear a s))"
  using Add_ok [OF assms, of req] Take_ok [OF assms, of st rc] Remove_ok [OF assms, of i] Clear_ok [OF assms, of a]
  by (metis prod.collapse)

theorem rules_stay_valid_witness:
  "rules_ok (snd (Add \<lparr>fq_stage = [], fq_code = 0, fq_message = [], fq_address = [], fq_count = 0\<rparr> \<lparr>fs_rules = [], fs_next = 0\<rparr>)) \<and>
   rules_ok (snd (Take [] [] \<lparr>fs_rules = [], fs_next = 0\<rparr>)) \<and> rules_ok (snd (Remove [] \<lparr>fs_rules = [], fs_next = 0\<rparr>)) \<and>
    rules_ok (snd (Clear [] \<lparr>fs_rules = [], fs_next = 0\<rparr>))"
  by (rule rules_stay_valid) (simp add: rules_ok_def)

end
