(* ===== verification/Server.thy ===== *)
theory Server
  imports Client Store Failures
begin

text \<open>
  The server's REST handlers (\<open>internal/api/api.go\<close>, \<open>messages.go\<close> and \<open>failures.go\<close>) on a world
  of a clock, the store, the failure rules and the mail that will still arrive. A handler that waits advances the
  clock to the moment it answers. The world gives the SDK's environment a concrete \<open>fetch\<close>:
  the URL the client built is split, its query decoded and the request routed.
\<close>

section \<open>Request parameters\<close>

definition parseFilter :: "params \<Rightarrow> string + go_filter" where
  "parseFilter q = (case parse_since (values_Get q ''since'') of
     None \<Rightarrow> Inl ''since must be RFC 3339 or Unix milliseconds''
   | Some ns \<Rightarrow> Inr \<lparr>gf_To = values_Get q ''to'', gf_Address = values_Get q ''address'',
       gf_From = values_Get q ''from'', gf_Subject = values_Get q ''subject'', gf_Body = values_Get q ''body'',
       gf_Query = values_Get q ''q'', gf_Since = ns\<rparr>)"

text \<open>\<open>strconv.ParseUint(s, 10, 64)\<close> and \<open>strconv.Atoi\<close>.\<close>

definition ParseUint :: "string \<Rightarrow> nat option" where
  "ParseUint s = (case read_nat s of None \<Rightarrow> None | Some n \<Rightarrow> if n < 2 ^ 64 then Some n else None)"

definition parsePage :: "params \<Rightarrow> string + (nat \<times> nat)" where
  "parsePage q =
     (let c = values_Get q ''cursor''; l = values_Get q ''limit'';
          cursor = (if c = [] then Some 0 else case ParseUint c of None \<Rightarrow> None | Some n \<Rightarrow> if n = 0 then None else Some n);
          limit = (if l = [] then Some 0 else case ParseInt l of None \<Rightarrow> None | Some n \<Rightarrow> if n < 1 then None else Some (nat n))
      in case cursor of
        None \<Rightarrow> Inl ''cursor must be a nextCursor returned by an earlier page''
      | Some cur \<Rightarrow> (case limit of
            None \<Rightarrow> Inl ''limit must be a positive number''
          | Some lim \<Rightarrow> Inr (cur, lim)))"

text \<open>A \<open>time.Duration\<close> is a signed 64-bit number of nanoseconds; multiplication wraps around.\<close>

definition wrap64 :: "int \<Rightarrow> int" where
  "wrap64 x = (x + 2 ^ 63) mod 2 ^ 64 - 2 ^ 63"

definition Millisecond :: int where [simp]: "Millisecond = 1000000"
definition MaxWaitTimeout :: int where [simp]: "MaxWaitTimeout = 30000 * Millisecond"
definition DefaultWaitTimeout :: int where "DefaultWaitTimeout = 10000 * Millisecond"

definition parseTimeout :: "string \<Rightarrow> string + int" where
  "parseTimeout v =
     (if v = [] then Inr DefaultWaitTimeout
      else case ParseInt v of
        None \<Rightarrow> Inl ''timeout must be a non-negative number of milliseconds''
      | Some ms \<Rightarrow> if ms < 0 then Inl ''timeout must be a non-negative number of milliseconds''
          else Inr (min (wrap64 (ms * Millisecond)) MaxWaitTimeout))"

lemma wrap64_id: "- (2 ^ 63) \<le> x \<Longrightarrow> x < 2 ^ 63 \<Longrightarrow> wrap64 x = x"
  by (simp add: wrap64_def)

section \<open>Handlers\<close>

type_synonym arrival = "int \<times> mail_message \<times> string"

record world =
  wd_clock :: int
  wd_store :: store_state
  wd_pending :: "arrival list"
  wd_failures :: rule_set
  wd_info :: server_info

definition writeJSON :: "int \<Rightarrow> json_reply \<Rightarrow> http_response" where
  "writeJSON status j = \<lparr>rp_status = status, rp_json = j, rp_body = []\<rparr>"

definition writeError :: "int \<Rightarrow> string \<Rightarrow> http_response" where
  "writeError status msg = writeJSON status (J_error msg)"

definition listMessages :: "params \<Rightarrow> store_state \<Rightarrow> http_response" where
  "listMessages q s = (case parseFilter q of
     Inl e \<Rightarrow> writeError 400 e
   | Inr f \<Rightarrow> (case parsePage q of
       Inl e \<Rightarrow> writeError 400 e
     | Inr (cursor, limit) \<Rightarrow>
         (let p = Page f cursor limit s in
          writeJSON 200 (J_messages (map Summary (pg_messages p))
            (if 0 < pg_next p then Some (show_nat (pg_next p)) else None)))))"

definition countMessages :: "params \<Rightarrow> store_state \<Rightarrow> http_response" where
  "countMessages q s = (case parseFilter q of
     Inl e \<Rightarrow> writeError 400 e
   | Inr f \<Rightarrow> writeJSON 200 (J_count (int (Count f s))))"

definition latestMessage :: "params \<Rightarrow> store_state \<Rightarrow> http_response" where
  "latestMessage q s = (case parseFilter q of
     Inl e \<Rightarrow> writeError 400 e
   | Inr f \<Rightarrow> (case Latest f s of
       None \<Rightarrow> writeError 404 ''no matching message''
     | Some m \<Rightarrow> writeJSON 200 (J_message (json_message m))))"

definition getMessage :: "string \<Rightarrow> store_state \<Rightarrow> http_response" where
  "getMessage mid s = (case Get mid s of
     None \<Rightarrow> writeError 404 ''message not found''
   | Some m \<Rightarrow> writeJSON 200 (J_message (json_message m)))"

definition rawMessage :: "string \<Rightarrow> store_state \<Rightarrow> http_response" where
  "rawMessage mid s = (case Raw mid s of
     None \<Rightarrow> writeError 404 ''message not found''
   | Some r \<Rightarrow> \<lparr>rp_status = 200, rp_json = J_none, rp_body = r\<rparr>)"

definition Attachment :: "string \<Rightarrow> mail_message \<Rightarrow> mail_attachment option" where
  "Attachment aid m = find (\<lambda>a. mt_id a = aid) (mm_attachments m)"

definition attachment_handler :: "string \<Rightarrow> string \<Rightarrow> store_state \<Rightarrow> http_response" where
  "attachment_handler mid aid s = (case Get mid s of
     None \<Rightarrow> writeError 404 ''message not found''
   | Some m \<Rightarrow> (case Attachment aid m of
       None \<Rightarrow> writeError 404 ''attachment not found''
     | Some a \<Rightarrow> \<lparr>rp_status = 200, rp_json = J_none, rp_body = mt_data a\<rparr>))"

definition deleteMessage :: "string \<Rightarrow> store_state \<Rightarrow> http_response \<times> store_state" where
  "deleteMessage mid s = (case Delete mid s of
     (False, s', _) \<Rightarrow> (writeError 404 ''message not found'', s')
   | (True, s', _) \<Rightarrow> (writeJSON 204 J_none, s'))"

definition deleteMessages :: "params \<Rightarrow> store_state \<Rightarrow> http_response \<times> store_state" where
  "deleteMessages q s = (case parseFilter q of
     Inl e \<Rightarrow> (writeError 400 e, s)
   | Inr f \<Rightarrow> (case DeleteMatching f s of (n, s', _) \<Rightarrow> (writeJSON 200 (J_deleted (int n)), s')))"

definition getInfo :: "server_info \<Rightarrow> store_state \<Rightarrow> http_response" where
  "getInfo i s = writeJSON 200 (J_info (i\<lparr>si_store := Some (Stats s)\<rparr>))"

text \<open>
  The select loop of \<open>waitMessage\<close>: each arrival before the timer is an event that makes the
  handler look again, and so does the timer. The result is the message found, the arrivals
  left, the time and the store.
\<close>

fun wait_loop :: "go_filter \<Rightarrow> int \<Rightarrow> arrival list \<Rightarrow> store_state \<Rightarrow>
    mail_message option \<times> arrival list \<times> int \<times> store_state" where
  "wait_loop f stop [] s = (Latest f s, [], stop, s)"
| "wait_loop f stop ((t, m, r) # ps) s =
     (if stop < t then (Latest f s, (t, m, r) # ps, stop, s)
      else (let s' = fst (Save m r s) in
        case Latest f s' of
          Some x \<Rightarrow> (Some x, ps, t, s')
        | None \<Rightarrow> wait_loop f stop ps s'))"

text \<open>Subscribe, look, and wait only when there is nothing yet.\<close>

definition wait_until :: "go_filter \<Rightarrow> int \<Rightarrow> world \<Rightarrow> mail_message option \<times> world" where
  "wait_until f stop w = (case Latest f (wd_store w) of
     Some m \<Rightarrow> (Some m, w)
   | None \<Rightarrow> (case wait_loop f stop (wd_pending w) (wd_store w) of
       (m, ps, t, s) \<Rightarrow> (m, w\<lparr>wd_pending := ps, wd_clock := max (wd_clock w) t, wd_store := s\<rparr>)))"

definition waitMessage :: "params \<Rightarrow> world \<Rightarrow> http_response \<times> world" where
  "waitMessage q w = (case parseFilter q of
     Inl e \<Rightarrow> (writeError 400 e, w)
   | Inr f \<Rightarrow> (case parseTimeout (values_Get q ''timeout'') of
       Inl e \<Rightarrow> (writeError 400 e, w)
     | Inr timeout \<Rightarrow> (case wait_until f (wd_clock w + timeout div Millisecond) w of
         (Some m, w') \<Rightarrow> (writeJSON 200 (J_message (json_message m)), w')
       | (None, w') \<Rightarrow> (writeJSON 204 J_none, w'))))"

section \<open>Failure rules\<close>

definition stage_name :: "stage \<Rightarrow> string" where
  "stage_name st = (case st of Rcpt \<Rightarrow> ''rcpt'' | Data \<Rightarrow> ''data'')"

text \<open>\<open>JSON.stringify\<close> leaves an undefined member out, and Go decodes a missing one to its zero value.\<close>

definition decode_request :: "failure_options \<Rightarrow> rule_request" where
  "decode_request x = \<lparr>fq_stage = (case fo_stage x of None \<Rightarrow> [] | Some st \<Rightarrow> stage_name st),
     fq_code = nullish (fo_code x) 0, fq_message = nullish (fo_message x) [],
     fq_address = nullish (fo_address x) [], fq_count = nullish (fo_count x) 0\<rparr>"

definition json_rule :: "rule \<Rightarrow> smtp_failure" where
  "json_rule r = \<lparr>sf_id = fr_id r, sf_stage = (if fr_stage r = ''rcpt'' then Rcpt else Data), sf_code = fr_code r,
     sf_message = fr_message r, sf_address = omitempty (fr_address r), sf_remaining = fr_remaining r\<rparr>"

text \<open>The media type of a \<open>Content-Type\<close> header: what stands before the parameters.\<close>

definition media_type :: "string \<Rightarrow> string" where
  "media_type v = lower (fst (cut (CHR '';'') v))"

definition listFailures :: "rule_set \<Rightarrow> http_response" where
  "listFailures s = writeJSON 200 (J_failures (map json_rule (List_rules s)))"

definition addFailure :: "params \<Rightarrow> failure_options option \<Rightarrow> rule_set \<Rightarrow> http_response \<times> rule_set" where
  "addFailure headers body s =
     (if media_type (nullish (map_of headers ''Content-Type'') []) \<noteq> ''application/json''
      then (writeError 415 ''Content-Type must be application/json'', s)
      else case body of
        None \<Rightarrow> (writeError 400 ''invalid JSON body: EOF'', s)
      | Some x \<Rightarrow> (case Add (decode_request x) s of
          (Inl e, s') \<Rightarrow> (writeError 400 e, s')
        | (Inr r, s') \<Rightarrow> (writeJSON 201 (J_failure (json_rule r)), s')))"

definition clearFailures_handler :: "params \<Rightarrow> rule_set \<Rightarrow> http_response \<times> rule_set" where
  "clearFailures_handler q s = (case Clear (values_Get q ''address'') s of
     (n, s') \<Rightarrow> (writeJSON 200 (J_deleted (int n)), s'))"

definition deleteFailure :: "string \<Rightarrow> rule_set \<Rightarrow> http_response \<times> rule_set" where
  "deleteFailure i s = (case Remove i s of
     (False, s') \<Rightarrow> (writeError 404 ''failure rule not found'', s')
   | (True, s') \<Rightarrow> (writeJSON 204 J_none, s'))"

section \<open>Routing\<close>

definition with_store :: "http_response \<times> store_state \<Rightarrow> world \<Rightarrow> http_response \<times> world" where
  "with_store p w = (fst p, w\<lparr>wd_store := snd p\<rparr>)"

definition with_failures :: "http_response \<times> rule_set \<Rightarrow> world \<Rightarrow> http_response \<times> world" where
  "with_failures p w = (fst p, w\<lparr>wd_failures := snd p\<rparr>)"

definition path_id :: "string \<Rightarrow> string" where
  "path_id seg = nullish (PathUnescape seg) []"

text \<open>The routes of the API but the event stream and the OpenAPI document; \<open>post\<close> holds the headers
  and the body, which only \<open>POST\<close> reads.\<close>

definition route_get :: "string list \<Rightarrow> params \<Rightarrow> world \<Rightarrow> http_response \<times> world" where
  "route_get segs q w =
     (if segs = [''health''] then (writeJSON 200 (J_status ''ok''), w)
      else if segs = [''info''] then (getInfo (wd_info w) (wd_store w), w)
      else if segs = [''messages''] then (listMessages q (wd_store w), w)
      else if segs = [''messages'', ''count''] then (countMessages q (wd_store w), w)
      else if segs = [''messages'', ''latest''] then (latestMessage q (wd_store w), w)
      else if segs = [''messages'', ''wait''] then waitMessage q w
      else if segs = [''smtp'', ''failures''] then (listFailures (wd_failures w), w)
      else (case segs of
          [a, i] \<Rightarrow> if a = ''messages'' \<and> i \<noteq> [] then (getMessage (path_id i) (wd_store w), w)
                    else (writeError 404 ''not found'', w)
        | [a, i, b] \<Rightarrow> if a = ''messages'' \<and> i \<noteq> [] \<and> b = ''raw'' then (rawMessage (path_id i) (wd_store w), w)
                    else (writeError 404 ''not found'', w)
        | [a, i, b, j] \<Rightarrow> if a = ''messages'' \<and> i \<noteq> [] \<and> b = ''attachments'' \<and> j \<noteq> []
                    then (attachment_handler (path_id i) (path_id j) (wd_store w), w)
                    else (writeError 404 ''not found'', w)
        | _ \<Rightarrow> (writeError 404 ''not found'', w)))"

definition route_delete :: "string list \<Rightarrow> params \<Rightarrow> world \<Rightarrow> http_response \<times> world" where
  "route_delete segs q w =
     (if segs = [''messages''] then with_store (deleteMessages q (wd_store w)) w
      else if segs = [''smtp'', ''failures''] then with_failures (clearFailures_handler q (wd_failures w)) w
      else (case segs of
          [a, i] \<Rightarrow> if a = ''messages'' \<and> i \<noteq> [] then with_store (deleteMessage (path_id i) (wd_store w)) w
                    else (writeError 405 ''method not allowed'', w)
        | [a, b, i] \<Rightarrow> if a = ''smtp'' \<and> b = ''failures'' \<and> i \<noteq> [] then with_failures (deleteFailure (path_id i) (wd_failures w)) w
                    else (writeError 405 ''method not allowed'', w)
        | _ \<Rightarrow> (writeError 405 ''method not allowed'', w)))"

definition route :: "string \<Rightarrow> params \<times> failure_options option \<Rightarrow> string list \<Rightarrow> params \<Rightarrow> world \<Rightarrow>
    http_response \<times> world" where
  "route meth post segs q w =
     (if meth = ''GET'' then route_get segs q w
      else if meth = ''DELETE'' then route_delete segs q w
      else if meth = ''POST'' \<and> segs = [''smtp'', ''failures'']
      then with_failures (addFailure (fst post) (snd post) (wd_failures w)) w
      else (writeError 405 ''method not allowed'', w))"

definition handle_path :: "string \<Rightarrow> params \<times> failure_options option \<Rightarrow> string \<Rightarrow> world \<Rightarrow> http_response \<times> world" where
  "handle_path meth post path w =
     (let (p, q) = cut (CHR ''?'') path in route meth post (tl (split_on (CHR ''/'') p)) (ParseQuery q) w)"

text \<open>The server at a base URL, without a login, as the SDK's environment.\<close>

definition server_env :: "string \<Rightarrow> world env" where
  "server_env base = \<lparr>
     env_fetch = (\<lambda>rq w.
       if startsWith (rq_url rq) (base @ ''/api/v1'')
       then (case handle_path (rq_method rq) (rq_headers rq, rq_body rq) (drop (length (base @ ''/api/v1'')) (rq_url rq)) w of
               (res, w') \<Rightarrow> (Fetched res, w'))
       else (Rejected \<lparr>fe_error = None, fe_text = ''other host'', fe_userAborted = False, fe_userReason = None,
               fe_timerAborted = False\<rparr>, w)),
     env_now = (\<lambda>w. (wd_clock w, w)),
     env_aborted = (\<lambda>_. False)\<rparr>"

section \<open>The filter survives the URL\<close>

lemma key_name_inj: "key_name k = key_name k' \<longleftrightarrow> k = k'"
  by (cases k; cases k') (simp_all add: key_name_def)

lemma map_of_set_key:
  "map_of (set_key f k ps) x = (if x = key_name k \<and> ftruthy f k \<noteq> None then ftruthy f k else map_of ps x)"
  by (auto simp: set_key_def map_of_obj_set split: option.splits)

lemma map_of_extra:
  "distinct (map fst extra) \<Longrightarrow> map_of (fold (\<lambda>(k, v). obj_set k v) extra ps) = map_of ps ++ map_of extra"
  using map_of_obj_spread by (simp add: obj_spread_def)

lemma map_of_query_params:
  assumes "distinct (map fst extra)" "map_of extra (key_name k) = None" "k \<noteq> K_since"
  shows "map_of (query_params f extra) (key_name k) = ftruthy f k"
proof -
  have "map_of (query_params f extra) (key_name k) =
      map_of (fold (set_key f) [K_to, K_address, K_from, K_subject, K_body, K_q] []) (key_name k)"
    using assms by (cases k)
      (auto simp: query_params_def Let_def map_of_extra map_add_def map_of_obj_set key_name_def split: option.splits)
  also have "\<dots> = ftruthy f k"
    using assms(3) by (cases k) (simp_all add: map_of_set_key key_name_inj)
  finally show ?thesis .
qed

lemma map_of_query_since:
  assumes "distinct (map fst extra)" "map_of extra ''since'' = None"
  shows "map_of (query_params f extra) ''since'' = since_param (fget f K_since)"
proof -
  have "map_of (fold (set_key f) [K_to, K_address, K_from, K_subject, K_body, K_q] []) ''since'' = None"
    by (simp add: map_of_set_key) (simp add: key_name_def)
  with assms show ?thesis
    by (auto simp: query_params_def Let_def map_of_extra map_add_def map_of_obj_set split: option.splits)
qed

text \<open>A \<open>since\<close> the protocol can carry: a Date of the years 0 to 9999, a 64-bit number, or a text
  the server accepts.\<close>

definition since_sendable :: "fval \<Rightarrow> bool" where
  "since_sendable v = (case v of FUndef \<Rightarrow> True
     | FDate t \<Rightarrow> - 62167219200000 \<le> t \<and> t < 253402300800000
     | FNum n \<Rightarrow> - (2 ^ 63) < n \<and> n < 2 ^ 63
     | FStr s \<Rightarrow> parse_since s \<noteq> None)"

lemma parse_since_param:
  assumes "since_sendable v"
  shows "parse_since (nullish (since_param v) []) = since_ns v"
proof (cases v)
  case (FNum n)
  then have "ParseInt (show_int n) = Some n" using assms by (intro ParseInt_show_int) (simp_all add: since_sendable_def)
  moreover have "show_int n \<noteq> []" by (simp add: show_int_def)
  ultimately show ?thesis using FNum by (simp add: since_param_def since_ns_def parse_since_def)
next
  case (FDate t)
  then show ?thesis
    using assms parse_since_toISOString by (simp add: since_sendable_def since_param_def since_ns_def)
qed (simp_all add: since_param_def since_ns_def parse_since_def)

lemma since_sendable_ns: "since_sendable v \<Longrightarrow> \<exists>ns. since_ns v = Some ns"
  by (cases v) (auto simp: since_sendable_def since_ns_def)

lemma values_query_params:
  assumes "distinct (map fst extra)" "map_of extra (key_name k) = None" "k \<noteq> K_since"
  shows "values_Get (query_params f extra) (key_name k) = nullish (ftruthy f k) []"
  using map_of_query_params [OF assms, of f] by (simp add: values_Get_def)

lemma parseFilter_query_params:
  assumes d: "distinct (map fst extra)" and n: "\<And>k. map_of extra (key_name k) = None"
    and s: "since_sendable (fget f K_since)"
  shows "parseFilter (query_params f extra) = Inr (to_go_filter f (the (since_ns (fget f K_since))))"
proof -
  have "values_Get (query_params f extra) ''since'' = nullish (since_param (fget f K_since)) []"
    using map_of_query_since [OF d, of f] n [of K_since] by (simp add: values_Get_def key_name_def)
  then have "parse_since (values_Get (query_params f extra) ''since'') = since_ns (fget f K_since)"
    using parse_since_param [OF s] by simp
  moreover obtain ns where "since_ns (fget f K_since) = Some ns" using since_sendable_ns [OF s] by blast
  ultimately show ?thesis
    using values_query_params [OF d n, of K_to f] values_query_params [OF d n, of K_address f]
      values_query_params [OF d n, of K_from f] values_query_params [OF d n, of K_subject f]
      values_query_params [OF d n, of K_body f] values_query_params [OF d n, of K_q f]
    by (simp add: parseFilter_def to_go_filter_def key_name_def)
qed


section \<open>Requests to the server\<close>

lemma cut_append: "d \<notin> set p \<Longrightarrow> cut d (p @ d # q) = (p, q)"
  by (induction p) (auto simp: cut_def)

lemma cut_none: "d \<notin> set p \<Longrightarrow> cut d p = (p, [])"
  by (induction p) (auto simp: cut_def)

lemma cut_query:
  assumes "CHR ''?'' \<notin> set p"
  shows "cut (CHR ''?'') (p @ query f extra) = (p, params_toString (query_params f extra))"
  using cut_append [OF assms] cut_none [OF assms] by (auto simp: query_def Let_def)

lemma handle_path_query:
  assumes "CHR ''?'' \<notin> set p"
  shows "handle_path meth post (p @ query f extra) w = route meth post (tl (split_on (CHR ''/'') p)) (query_params f extra) w"
  by (simp add: handle_path_def cut_query [OF assms] ParseQuery_toString)

text \<open>The reply's status decides whether \<open>request\<close> resolves or rejects.\<close>

definition accepts :: "int list \<Rightarrow> http_response \<Rightarrow> bool" where
  "accepts allowed res \<longleftrightarrow> http_ok res \<or> rp_status res \<in> set allowed"

lemma server_request:
  assumes "c_baseUrl c = base"
  shows "request (server_env base) c path ini allowed w =
    (let meth = nullish (in_method ini) ''GET''; (res, w') = handle_path meth (obj_spread (c_headers c) (in_headers ini), in_body ini) path w in
     (if accepts allowed res then Inr res else Inl (reply_error c meth path res), w'))"
proof -
  have "startsWith (base @ ''/api/v1'' @ path) (base @ ''/api/v1'')" by (auto simp: prefix_def)
  moreover have "drop (length (base @ ''/api/v1'')) (base @ ''/api/v1'' @ path) = path" by simp
  ultimately show ?thesis
    unfolding request_def server_env_def Let_def assms
    by (cases "handle_path (nullish (in_method ini) ''GET'') (obj_spread (c_headers c) (in_headers ini), in_body ini) path w")
      (simp add: accepts_def del: nullish_def)
qed

section \<open>Time does not go back\<close>

lemma wait_loop_204:
  "wait_loop f stop ps s = (None, ps', t, s') \<Longrightarrow> t = stop"
  by (induction f stop ps s rule: wait_loop.induct) (auto simp: Let_def split: if_splits option.splits)

lemma wait_until_clock: "wd_clock w \<le> wd_clock (snd (wait_until f stop w))"
  by (auto simp: wait_until_def split: option.splits prod.splits)

lemma wait_until_none:
  "wait_until f stop w = (None, w') \<Longrightarrow> stop \<le> wd_clock w'"
  by (auto simp: wait_until_def split: option.splits prod.splits dest: wait_loop_204)

lemma waitMessage_clock: "wd_clock w \<le> wd_clock (snd (waitMessage q w))"
  using wait_until_clock
  by (fastforce simp: waitMessage_def split: sum.splits prod.splits option.splits dest: arg_cong [where f = snd])

lemma route_clock: "wd_clock w \<le> wd_clock (snd (route meth post segs q w))"
  by (auto simp: route_def route_get_def route_delete_def waitMessage_clock with_store_def with_failures_def
      split: list.splits)

lemma server_request_clock:
  assumes "c_baseUrl c = base" "request (server_env base) c path ini allowed w = (r, w')"
  shows "wd_clock w \<le> wd_clock w'"
  using assms(2) route_clock
  by (auto simp: server_request [OF assms(1)] Let_def handle_path_def split: prod.splits)
     (metis snd_conv)

end
