(* ===== verification/Wait_Server.thy ===== *)
theory Wait_Server
  imports Wait Server
begin

text \<open>
  \<open>waitFor\<close> and \<open>waitForEmails\<close> against the server's handlers. The interpretation of
  \<open>wait_service\<close> gives that \<open>waitFor\<close> returns. Its result is that of one uninterrupted wait of
  the server until the deadline (\<open>wait_until\<close>), however many requests of at most 30 seconds it is
  cut into; and \<open>waitForEmails\<close> returns the first messages in order of arrival, or times out
  with what it found.
\<close>

section \<open>The server provides it\<close>

lemma wait_path_route:
  "handle_path ''GET'' post (wait_path f chunk) w = waitMessage (query_params f [(''timeout'', show_int chunk)]) w"
proof -
  have "tl (split_on (CHR ''/'') ''/messages/wait'') = [''messages'', ''wait'']" by simp
  then show ?thesis
    unfolding wait_path_def by (subst handle_path_query) (simp_all add: route_def route_get_def)
qed

lemma timeout_param:
  assumes "0 \<le> chunk" "chunk \<le> MAX_SERVER_WAIT"
  shows "parseTimeout (values_Get (query_params f [(''timeout'', show_int chunk)]) ''timeout'') = Inr (chunk * Millisecond)"
proof -
  have "map_of (query_params f [(''timeout'', show_int chunk)]) ''timeout'' = Some (show_int chunk)"
    by (simp add: query_params_def Let_def map_of_obj_set)
  moreover have "ParseInt (show_int chunk) = Some chunk" using assms by (intro ParseInt_show_int) auto
  moreover have "show_int chunk \<noteq> []" by (simp add: show_int_def)
  ultimately show ?thesis using assms by (simp add: parseTimeout_def values_Get_def wrap64_id)
qed

lemma server_wait_request:
  assumes "c_baseUrl c = base"
  shows "wait_request (server_env base) c f sig chunk w =
    (let (res, w') = waitMessage (query_params f [(''timeout'', show_int chunk)]) w in
     (if accepts [204] res then Inr res else Inl (reply_error c ''GET'' (wait_path f chunk) res), w'))"
  by (simp add: wait_request_def server_request [OF assms] with_signal_def no_init_def wait_path_route
      split: prod.splits)

lemma server_wait_lasts:
  assumes "c_baseUrl c = base" "0 \<le> chunk" "chunk \<le> MAX_SERVER_WAIT"
    "wait_request (server_env base) c f sig chunk w = (Inr res, w')" "rp_status res \<noteq> 200"
  shows "wd_clock w + chunk \<le> wd_clock w'"
proof -
  let ?q = "query_params f [(''timeout'', show_int chunk)]"
  from assms(4) have m: "waitMessage ?q w = (res, w')" and a: "accepts [204] res"
    by (auto simp: server_wait_request [OF assms(1)] Let_def split: prod.splits if_splits)
  note tp = timeout_param [OF assms(2,3), of f]
  from a have "parseFilter ?q \<noteq> Inl e" for e
    using m by (auto simp: waitMessage_def writeError_def writeJSON_def accepts_def http_ok_def)
  then obtain g where g: "parseFilter ?q = Inr g" by (cases "parseFilter ?q") auto
  obtain m' w'' where w: "wait_until g (wd_clock w + chunk) w = (m', w'')" by fastforce
  with m g tp assms(5) have "m' = None" "w'' = w'"
    by (auto simp: waitMessage_def writeJSON_def split: option.splits)
  with w show ?thesis by (auto dest: wait_until_none)
qed

interpretation server: wait_service "server_env (c_baseUrl c)" c wd_clock for c
proof
  show "env_now (server_env (c_baseUrl c)) w = (t, w') \<Longrightarrow> wd_clock w \<le> t \<and> t \<le> wd_clock w'" for w t w'
    by (auto simp: server_env_def)
  show "request (server_env (c_baseUrl c)) c path ini allowed w = (r, w') \<Longrightarrow> wd_clock w \<le> wd_clock w'"
    for path ini allowed w r w'
    by (rule server_request_clock [OF refl])
  show "0 \<le> chunk \<Longrightarrow> chunk \<le> MAX_SERVER_WAIT \<Longrightarrow>
      wait_request (server_env (c_baseUrl c)) c f sig chunk w = (Inr res, w') \<Longrightarrow> rp_status res \<noteq> 200 \<Longrightarrow>
      wd_clock w + chunk \<le> wd_clock w'" for chunk f sig w res w'
    by (rule server_wait_lasts [OF refl])
qed

section \<open>One wait, however many requests\<close>

text \<open>A wait that found nothing, continued, is a longer wait; one that found something would have
  found it in a longer wait too.\<close>

lemma wait_loop_none:
  "wait_loop f stop ps s = (None, ps', t, s') \<Longrightarrow> stop \<le> stop2 \<Longrightarrow>
     Latest f s' = None \<and> wait_loop f stop2 ps s = wait_loop f stop2 ps' s'"
  by (induction f stop ps s rule: wait_loop.induct) (auto simp: Let_def split: if_splits option.splits)

lemma wait_loop_some:
  "wait_loop f stop ps s = (Some m, ps', t, s') \<Longrightarrow> Latest f s = None \<Longrightarrow> stop \<le> stop2 \<Longrightarrow>
     wait_loop f stop2 ps s = (Some m, ps', t, s')"
  by (induction f stop ps s rule: wait_loop.induct) (auto simp: Let_def split: if_splits option.splits)

lemma wait_until_none_clock:
  "wait_until f stop w = (None, w') \<Longrightarrow> wd_clock w' = max (wd_clock w) stop"
  by (auto simp: wait_until_def split: option.splits prod.splits dest: wait_loop_204)

lemma wait_until_none_then:
  assumes "wait_until f stop w = (None, w')" "stop \<le> stop2"
  shows "fst (wait_until f stop2 w) = fst (wait_until f stop2 w') \<and>
    wd_store (snd (wait_until f stop2 w)) = wd_store (snd (wait_until f stop2 w')) \<and>
    wd_pending (snd (wait_until f stop2 w)) = wd_pending (snd (wait_until f stop2 w'))"
proof -
  from assms(1) obtain ps t s where l: "Latest f (wd_store w) = None"
    and w: "wait_loop f stop (wd_pending w) (wd_store w) = (None, ps, t, s)"
    and w': "w' = w\<lparr>wd_pending := ps, wd_clock := max (wd_clock w) t, wd_store := s\<rparr>"
    by (auto simp: wait_until_def split: option.splits prod.splits)
  from wait_loop_none [OF w assms(2)] l w' show ?thesis
    by (simp add: wait_until_def split: prod.splits)
qed

lemma wait_until_some_then:
  assumes "wait_until f stop w = (Some m, w')" "stop \<le> stop2"
  shows "wait_until f stop2 w = (Some m, w')"
proof (cases "Latest f (wd_store w)")
  case None
  with assms(1) obtain ps t s where
    w: "wait_loop f stop (wd_pending w) (wd_store w) = (Some m, ps, t, s)"
    and w': "w' = w\<lparr>wd_pending := ps, wd_clock := max (wd_clock w) t, wd_store := s\<rparr>"
    by (auto simp: wait_until_def split: prod.splits)
  from wait_loop_some [OF w None assms(2)] None w' show ?thesis by (simp add: wait_until_def)
qed (use assms(1) in \<open>simp add: wait_until_def\<close>)

text \<open>The filter the server sees.\<close>

definition go_of :: "message_filter \<Rightarrow> go_filter" where
  "go_of f = to_go_filter f (the (since_ns (fget f K_since)))"

lemma key_not_timeout: "map_of [(''timeout'', v)] (key_name k) = None"
  by (cases k) (simp_all add: key_name_def)

lemma server_wait_request_eq:
  assumes base: "c_baseUrl c = base" and s: "since_sendable (fget f K_since)"
    and chunk: "0 \<le> chunk" "chunk \<le> MAX_SERVER_WAIT"
  shows "wait_request (server_env base) c f sig chunk w =
    (let (m, w') = wait_until (go_of f) (wd_clock w + chunk) w in
     (Inr (case m of None \<Rightarrow> writeJSON 204 J_none | Some m \<Rightarrow> writeJSON 200 (J_message (json_message m))), w'))"
proof -
  have pf: "parseFilter (query_params f [(''timeout'', show_int chunk)]) = Inr (go_of f)"
    unfolding go_of_def by (rule parseFilter_query_params [OF _ key_not_timeout s]) simp
  show ?thesis
    using timeout_param [OF chunk, of f]
    by (auto simp: server_wait_request [OF base] waitMessage_def pf accepts_def http_ok_def writeJSON_def Let_def
        split: prod.splits option.splits)
qed

lemma server_waitFor_loop:
  assumes base: "c_baseUrl c = base" and s: "since_sendable (fget f K_since)"
  shows "(case wait_until (go_of f) (max deadline (wd_clock w)) w of
      (Some m, w') \<Rightarrow> \<exists>w''. waitFor_loop (server_env base) c f timeout sig deadline w =
         Some (Inr (new_Email (json_message m)), w'') \<and> wd_store w'' = wd_store w' \<and> wd_pending w'' = wd_pending w'
    | (None, w') \<Rightarrow> \<exists>w'' d w3. waitFor_loop (server_env base) c f timeout sig deadline w =
         Some (Inl (new_timeout_error f timeout d None), w3) \<and> diagnose (server_env base) c f sig w'' = (d, w3) \<and>
         wd_store w'' = wd_store w' \<and> wd_pending w'' = wd_pending w' \<and> deadline \<le> wd_clock w'')"
proof (induction "nat (deadline - wd_clock w)" arbitrary: w rule: less_induct)
  case less
  let ?env = "server_env base" and ?g = "go_of f"
  define t where "t = wd_clock w"
  define chunk where "chunk = wait_chunk deadline t"
  have chunk: "0 \<le> chunk" "chunk \<le> MAX_SERVER_WAIT" "t + chunk \<le> max deadline t"
    by (auto simp: chunk_def wait_chunk_def)
  have now: "env_now ?env w = (wd_clock w, w)" for w by (simp add: server_env_def)
  obtain m w2 where wu: "wait_until ?g (t + chunk) w = (m, w2)" by fastforce
  note rq = server_wait_request_eq [OF base s chunk(1,2), of sig w, folded t_def, unfolded wu]
  show ?case
  proof (cases m)
    case (Some x)
    have "waitFor_loop ?env c f timeout sig deadline w = Some (Inr (new_Email (json_message x)), w2)"
      using rq Some
      by (subst waitFor_loop.simps)
         (simp add: now flip: t_def, simp add: chunk_def [symmetric] writeJSON_def read_email_def return_op_def)
    with wait_until_some_then [OF wu [unfolded Some] chunk(3)] show ?thesis by (simp add: t_def)
  next
    case None
    note wu = wu [unfolded None]
    obtain d w3 where d: "diagnose ?env c f sig w2 = (d, w3)" by fastforce
    have eq: "waitFor_loop ?env c f timeout sig deadline w =
        (if deadline \<le> wd_clock w2 then Some (Inl (new_timeout_error f timeout d None), w3)
         else waitFor_loop ?env c f timeout sig deadline w2)"
      using rq None d
      by (subst waitFor_loop.simps)
         (simp add: now flip: t_def, simp add: chunk_def [symmetric] writeJSON_def now)
    have clk: "wd_clock w2 = t + chunk"
      using wait_until_none_clock [OF wu] chunk(1) by (simp add: t_def)
    show ?thesis
    proof (cases "deadline \<le> wd_clock w2")
      case True
      then have "max deadline t = t + chunk" using clk by (auto simp: chunk_def wait_chunk_def)
      with wu True eq d show ?thesis by (simp add: t_def) blast
    next
      case False
      then have lt: "nat (deadline - wd_clock w2) < nat (deadline - wd_clock w)" and m: "max deadline (wd_clock w2) = max deadline t"
        using clk chunk by (auto simp: chunk_def wait_chunk_def t_def)
      note same = wait_until_none_then [OF wu chunk(3)]
      obtain m3 w4 where a: "wait_until ?g (max deadline t) w = (m3, w4)" by fastforce
      obtain m5 w5 where b: "wait_until ?g (max deadline t) w2 = (m5, w5)" by fastforce
      from same a b have "m3 = m5" "wd_store w4 = wd_store w5" "wd_pending w4 = wd_pending w5" by simp_all
      with less [OF lt] False show ?thesis
        unfolding eq m b a t_def [symmetric] by (simp split: option.splits)
    qed
  qed
qed


section \<open>The other requests\<close>

lemma GET_init [simp]: "nullish (in_method (with_signal sig)) ''GET'' = ''GET''"
  "nullish (in_method ((with_signal sig)\<lparr>in_timeout := x\<rparr>)) ''GET'' = ''GET''"
  by (simp_all add: with_signal_def no_init_def)

lemma server_messages:
  assumes base: "c_baseUrl c = base" and s: "since_sendable (fget f K_since)"
    and get: "nullish (in_method ini) ''GET'' = ''GET''"
  shows "messages (server_env base) c f ini w =
    (Inr (map Summary (List_messages (go_of f) (wd_store w))), w)"
proof -
  have pf: "parseFilter (query_params f []) = Inr (go_of f)"
    unfolding go_of_def by (rule parseFilter_query_params [OF _ _ s]) simp_all
  have no: "map_of (query_params f []) k = None" if "k \<in> {''cursor'', ''limit''}" for k
    using that by (auto simp: query_params_def Let_def map_of_set_key map_of_obj_set key_name_def split: option.splits)
  then have pp: "parsePage (query_params f []) = Inr (0, 0)" by (simp add: parsePage_def values_Get_def)
  have "handle_path ''GET'' post (''/messages'' @ query f []) w = (listMessages (query_params f []) (wd_store w), w)" for post
    by (subst handle_path_query) (simp_all add: route_def route_get_def)
  then show ?thesis
    by (simp add: messages_def then_op_def server_request [OF base] get Let_def listMessages_def pf pp
        writeJSON_def accepts_def http_ok_def read_messages_def return_op_def List_messages_def del: nullish_def)
qed

lemma server_info:
  assumes base: "c_baseUrl c = base" and get: "nullish (in_method ini) ''GET'' = ''GET''"
  shows "info (server_env base) c ini w = (Inr ((wd_info w)\<lparr>si_store := Some (Stats (wd_store w))\<rparr>), w)"
proof -
  have "handle_path ''GET'' post ''/info'' w = (getInfo (wd_info w) (wd_store w), w)" for post
    by (simp add: handle_path_def cut_def route_def route_get_def)
  then show ?thesis
    by (simp add: info_def then_op_def server_request [OF base] get Let_def getInfo_def
        writeJSON_def accepts_def http_ok_def return_op_def del: nullish_def)
qed

lemma encodeURIComponent_inj: "encodeURIComponent a = encodeURIComponent b \<Longrightarrow> a = b"
  by (metis PathUnescape_component option.inject)

lemma reserved_plain: "encodeURIComponent ''count'' = ''count''" "encodeURIComponent ''latest'' = ''latest''" "encodeURIComponent ''wait'' = ''wait''"
  by (simp_all add: js_eval)

lemma server_get:
  assumes base: "c_baseUrl c = base" and get: "nullish (in_method ini) ''GET'' = ''GET''"
    and m: "Get mid (wd_store w) = Some m" and ne: "mid \<noteq> ''count''" "mid \<noteq> ''latest''" "mid \<noteq> ''wait''" "mid \<noteq> []"
  shows "get (server_env base) c mid ini w = (Inr (new_Email (json_message m)), w)"
proof -
  have q: "CHR ''?'' \<notin> set (''/messages/'' @ encodeURIComponent mid)"
    and sl: "CHR ''/'' \<notin> set (encodeURIComponent mid)"
    using component_plain [of _ mid] by auto
  have "tl (split_on (CHR ''/'') (''/messages/'' @ encodeURIComponent mid)) = [''messages'', encodeURIComponent mid]"
    using split_on_no_sep [OF sl] by simp
  moreover have "encodeURIComponent mid \<noteq> ''count''" "encodeURIComponent mid \<noteq> ''latest''" "encodeURIComponent mid \<noteq> ''wait''"
    using ne encodeURIComponent_inj [of mid "''count''"] encodeURIComponent_inj [of mid "''latest''"] encodeURIComponent_inj [of mid "''wait''"]
    by (auto simp: reserved_plain)
  ultimately have "handle_path ''GET'' post (''/messages/'' @ encodeURIComponent mid) w = (getMessage mid (wd_store w), w)" for post
    using cut_none [OF q] ne(4) by (simp add: handle_path_def route_def route_get_def path_id_def del: append.simps)
  with m show ?thesis
    by (simp add: get_def then_op_def server_request [OF base] assms(2) Let_def getMessage_def
        writeJSON_def accepts_def http_ok_def read_email_def return_op_def del: nullish_def)
qed

lemma go_of_Nil [simp]: "go_of [] = zero_filter"
  by (simp add: go_of_def to_go_filter_def ftruthy_def fstr_def since_ns_def zero_filter_def)

text \<open>What the diagnosis of a timeout contains.\<close>

definition server_diagnosis :: "mp_client \<Rightarrow> message_filter \<Rightarrow> store_state \<Rightarrow> diagnostics" where
  "server_diagnosis c f s = (let ms = map Summary (List_messages zero_filter s) in
     \<lparr>dg_recent = map (\<lambda>m. (m, explainMismatch m f)) (take 5 ms), dg_total = int (length ms),
      dg_evicted = int (st_evicted s), dg_inspectUrl = inspectUrl c f\<rparr>)"

lemma server_diagnose:
  assumes base: "c_baseUrl c = base"
  shows "diagnose (server_env base) c f sig w = (Some (server_diagnosis c f (wd_store w)), w)"
proof -
  let ?opts = "(with_signal sig)\<lparr>in_timeout := Some DIAGNOSE_TIMEOUT\<rparr>"
  have "messages (server_env base) c [] ?opts w = (Inr (map Summary (List_messages zero_filter (wd_store w))), w)"
    using server_messages [OF base _ GET_init(2), of "[]"] by (simp add: since_sendable_def)
  moreover note server_info [OF base GET_init(2)]
  moreover have "\<not> env_aborted (server_env base) w" by (simp add: server_env_def)
  ultimately show ?thesis
    using slice_take [of "map Summary (List_messages zero_filter (wd_store w))" 5]
    by (simp add: diagnose_def Let_def server_diagnosis_def Stats_def)
qed

lemma recent_line_Summary:
  assumes "in_calendar m" shows "recent_line (Summary m, rs) \<noteq> None"
proof -
  have "Date_parse (s_createdAt (Summary m)) \<noteq> None"
    using createdAt_ms [of m] assms by (auto simp: in_calendar_def zero_time_def)
  then show ?thesis by (simp add: recent_line_def Let_def)
qed

lemma timeout_text:
  assumes ok: "store_ok s" and cal: "\<forall>m \<in> set (messages_of s). in_calendar m"
  shows "\<exists>msg. new_timeout_error f timeout (Some (server_diagnosis c f s)) p =
    MailpeekTimeoutError f timeout (Some (server_diagnosis c f s)) p msg"
proof -
  have "recent_line p \<noteq> None" if "p \<in> set (dg_recent (server_diagnosis c f s))" for p
  proof -
    from that obtain m where "m \<in> set (List_messages zero_filter s)" "p = (Summary m, explainMismatch (Summary m) f)"
      by (auto simp: server_diagnosis_def Let_def dest!: in_set_takeD)
    with cal show ?thesis by (simp add: List_messages_spec [OF ok] recent_line_Summary)
  qed
  then have "None \<notin> set (map recent_line (dg_recent (server_diagnosis c f s)))" by force
  then show ?thesis by (auto simp: new_timeout_error_def timeoutMessage_def Let_def split: option.splits)
qed

section \<open>Worlds that stay well-formed\<close>

definition arriving :: "arrival \<Rightarrow> mail_message" where
  "arriving a = fst (snd a)"

definition all_messages :: "store_state \<Rightarrow> arrival list \<Rightarrow> mail_message list" where
  "all_messages s ps = messages_of s @ map arriving ps"

text \<open>
  Identifiers are unique and none is a word of the routes, time stamps do not decrease and are
  representable.
\<close>

definition dated :: "mail_message \<Rightarrow> bool" where
  "dated m \<longleftrightarrow> zero_time \<le> mm_createdAt m \<and> mm_createdAt m < 253402300799000000000 \<and>
     mm_id m \<notin> {''count'', ''latest'', ''wait'', []}"

definition mail_ok :: "store_state \<Rightarrow> arrival list \<Rightarrow> bool" where
  "mail_ok s ps \<longleftrightarrow> store_ok s \<and> distinct (map mm_id (all_messages s ps)) \<and>
     list_all dated (all_messages s ps) \<and> sorted (map mm_createdAt (all_messages s ps))"

definition world_ok :: "world \<Rightarrow> bool" where
  "world_ok w \<longleftrightarrow> mail_ok (wd_store w) (wd_pending w)"

lemma store_order: "store_ok s \<Longrightarrow> st_order s = map mm_id (messages_of s)"
  by (simp add: store_ok_def messages_of_def)

lemma map_fix: "map f xs = xs \<Longrightarrow> x \<in> set xs \<Longrightarrow> f x = x"
  by (induction xs) auto

lemma Get_messages: "store_ok s \<Longrightarrow> m \<in> set (messages_of s) \<Longrightarrow> Get (mm_id m) s = Some m"
proof -
  assume ok: "store_ok s" and "m \<in> set (messages_of s)"
  then obtain i where i: "i \<in> set (st_order s)" "m = en_msg (item s i)" by (auto simp: messages_of_def entries_def)
  moreover from ok have "map (\<lambda>i. mm_id (en_msg (item s i))) (st_order s) = st_order s"
    by (simp add: store_ok_def entries_def o_def)
  ultimately have "mm_id m = i" using map_fix [of "\<lambda>i. mm_id (en_msg (item s i))"] by blast
  moreover from ok i(1) obtain e where "st_items s i = Some e" by (auto simp: store_ok_def)
  ultimately show ?thesis using i(2) by (simp add: Get_def item_def)
qed

lemma all_messages_Cons: "all_messages s ((t, m, r) # ps) = messages_of s @ m # map arriving ps"
  by (simp add: all_messages_def arriving_def)

lemma mail_ok_Save:
  assumes "mail_ok s ((t, m, r) # ps)"
  shows "mail_ok (fst (Save m r s)) ps"
proof -
  from assms have ok: "store_ok s" and d: "distinct (map mm_id (messages_of s @ m # map arriving ps))"
    by (simp_all add: mail_ok_def all_messages_Cons)
  then have new: "mm_id m \<notin> set (st_order s)" by (auto simp: store_order)
  from Save_spec [OF ok new, of r "fst (Save m r s)" "snd (Save m r s)"] obtain k where
    ok': "store_ok (fst (Save m r s))" and k: "k \<le> length (st_order s)"
    and ms: "messages_of (fst (Save m r s)) = drop k (messages_of s) @ [m]" by auto
  then have "all_messages (fst (Save m r s)) ps = drop k (all_messages s ((t, m, r) # ps))"
    using ok by (simp add: all_messages_def arriving_def store_order)
  with assms ok' show ?thesis
    by (auto simp: mail_ok_def list_all_iff simp flip: drop_map
        intro: distinct_drop sorted_wrt_drop dest: in_set_dropD)
qed

lemma wait_loop_ok:
  "mail_ok s ps \<Longrightarrow> wait_loop f stop ps s = (r, ps', t, s') \<Longrightarrow> Latest f s = None \<Longrightarrow>
     mail_ok s' ps' \<and> Latest f s' = r \<and> length ps' \<le> length ps \<and> (r \<noteq> None \<longrightarrow> length ps' < length ps)"
proof (induction f stop ps s rule: wait_loop.induct)
  case (2 f stop t0 m0 r0 ps s)
  show ?case
  proof (cases "stop < t0")
    case False
    have ok: "mail_ok (fst (Save m0 r0 s)) ps" using "2.prems"(1) by (rule mail_ok_Save)
    show ?thesis
    proof (cases "Latest f (fst (Save m0 r0 s))")
      case None
      with "2.IH" [OF False refl None ok _ None] "2.prems" False show ?thesis by auto
    next
      case (Some x)
      with False "2.prems" ok show ?thesis by auto
    qed
  qed (use 2 in auto)
qed auto

lemma wait_until_ok:
  assumes "world_ok w" "wait_until f stop w = (r, w')"
  shows "world_ok w' \<and> Latest f (wd_store w') = r \<and> length (wd_pending w') \<le> length (wd_pending w) \<and>
    (Latest f (wd_store w) = None \<and> r \<noteq> None \<longrightarrow> length (wd_pending w') < length (wd_pending w))"
proof (cases "Latest f (wd_store w)")
  case None
  obtain m ps t s where l: "wait_loop f stop (wd_pending w) (wd_store w) = (m, ps, t, s)"
    by (metis prod_cases4)
  from wait_loop_ok [OF assms(1) [unfolded world_ok_def] l None] assms(2) None l
  show ?thesis by (auto simp: wait_until_def world_ok_def)
qed (use assms in \<open>auto simp: wait_until_def\<close>)

lemma Latest_matches:
  assumes "store_ok s" "Latest f s = Some m"
  shows "Match f m \<and> m \<in> set (messages_of s)"
  using assms by (auto simp: Latest_spec find_Some_iff) (metis length_rev nth_mem set_rev)

lemma Latest_None: "Latest f s = None \<longleftrightarrow> filter (Match f) (messages_of s) = []"
  by (auto simp: Latest_spec find_None_iff filter_empty_conv)

lemma dated_calendar: "dated m \<Longrightarrow> in_calendar m"
  by (auto simp: dated_def in_calendar_def)

lemma world_ok_timeout:
  assumes "world_ok w"
  shows "\<exists>msg. new_timeout_error f timeout (Some (server_diagnosis c f (wd_store w))) p =
    MailpeekTimeoutError f timeout (Some (server_diagnosis c f (wd_store w))) p msg"
  using assms by (intro timeout_text)
    (auto simp: world_ok_def mail_ok_def list_all_iff all_messages_def dated_calendar)

text \<open>\<open>waitFor\<close> on the server, with the world it leaves.\<close>

lemma server_waitFor:
  assumes base: "c_baseUrl c = base" and s: "since_sendable (fget (w_filter opts) K_since)" and ok: "world_ok w"
    and tm: "timeout = nullish (w_timeout opts) (c_timeout c)"
    and wu: "wait_until (go_of (w_filter opts)) (wd_clock w + max 0 timeout) w = (r, w')"
  shows "\<exists>w''. wd_store w'' = wd_store w' \<and> wd_pending w'' = wd_pending w' \<and>
    (case r of
       Some m \<Rightarrow> waitFor (server_env base) c opts w = Some (Inr (new_Email (json_message m)), w'')
     | None \<Rightarrow> wd_clock w + timeout \<le> wd_clock w'' \<and> (\<exists>msg. waitFor (server_env base) c opts w =
         Some (Inl (MailpeekTimeoutError (w_filter opts) timeout
           (Some (server_diagnosis c (w_filter opts) (wd_store w''))) None msg), w'')))"
proof -
  have now: "env_now (server_env base) w = (wd_clock w, w)" by (simp add: server_env_def)
  have mx: "max (wd_clock w + timeout) (wd_clock w) = wd_clock w + max 0 timeout" by simp
  have eq: "waitFor (server_env base) c opts w =
      waitFor_loop (server_env base) c (w_filter opts) timeout (w_signal opts) (wd_clock w + timeout) w"
    by (simp add: waitFor_def now tm Let_def del: nullish_def)
  note L = server_waitFor_loop [OF base s, where deadline = "wd_clock w + timeout" and w = w and
      timeout = timeout and sig = "w_signal opts", unfolded mx wu]
  show ?thesis
  proof (cases r)
    case (Some m)
    with L show ?thesis unfolding eq by auto
  next
    case None
    with L obtain w2 d w3 where l: "waitFor_loop (server_env base) c (w_filter opts) timeout (w_signal opts)
        (wd_clock w + timeout) w = Some (Inl (new_timeout_error (w_filter opts) timeout d None), w3)"
      and d: "diagnose (server_env base) c (w_filter opts) (w_signal opts) w2 = (d, w3)"
      and w2: "wd_store w2 = wd_store w'" "wd_pending w2 = wd_pending w'" "wd_clock w + timeout \<le> wd_clock w2"
      by auto
    from d have "w3 = w2" "d = Some (server_diagnosis c (w_filter opts) (wd_store w2))"
      by (auto simp: server_diagnose [OF base])
    moreover have "world_ok w2" using wait_until_ok [OF ok wu] w2 by (simp add: world_ok_def)
    ultimately show ?thesis using l w2 None world_ok_timeout [of w2] unfolding eq by fastforce
  qed
qed

section \<open>Waiting for several\<close>

lemma server_get_all:
  assumes base: "c_baseUrl c = base" and ok: "world_ok w"
  shows "set ms \<subseteq> set (messages_of (wd_store w)) \<Longrightarrow>
    get_all (server_env base) c sig (map mm_id ms) w = (Inr (map (new_Email \<circ> json_message) ms), w)"
proof (induction ms)
  case (Cons m ms)
  then have m: "m \<in> set (messages_of (wd_store w))" by simp
  with ok have g: "Get (mm_id m) (wd_store w) = Some m" and "dated m"
    using Get_messages by (auto simp: world_ok_def mail_ok_def list_all_iff all_messages_def)
  from this(2) have "get (server_env base) c (mm_id m) (with_signal sig) w = (Inr (new_Email (json_message m)), w)"
    by (intro server_get [OF base GET_init(1) g]) (auto simp: dated_def)
  with Cons show ?case by (simp add: then_op_def return_op_def)
qed (simp add: return_op_def)

text \<open>Replacing \<open>since\<close> changes only that field of the server's filter.\<close>

lemma go_of_since: "go_of (obj_set K_since v f) = (go_of f)\<lparr>gf_Since := the (since_ns v)\<rparr>"
  by (simp add: go_of_def to_go_filter_def fget_obj_set ftruthy_def fstr_def)

lemma Match_since:
  "Match (g\<lparr>gf_Since := ns\<rparr>) m \<longleftrightarrow> (ns = zero_time \<or> ns \<le> mm_createdAt m) \<and> Match (g\<lparr>gf_Since := zero_time\<rparr>) m"
  by (auto simp: Match_iff)

lemma Match_since_split:
  "Match g m \<longleftrightarrow> (gf_Since g = zero_time \<or> gf_Since g \<le> mm_createdAt m) \<and> Match (g\<lparr>gf_Since := zero_time\<rparr>) m"
  by (auto simp: Match_iff)

text \<open>No stored message that matches is newer than the newest one listed.\<close>

lemma next_since_ok:
  assumes ok: "world_ok w" and s: "since_sendable (fget f K_since)"
    and list: "list = map Summary (List_messages (go_of f) (wd_store w))"
  shows "\<exists>v. next_since list f = Inr v \<and> since_sendable v \<and> Latest (go_of (obj_set K_since v f)) (wd_store w) = None"
proof (cases "List_messages (go_of f) (wd_store w)")
  case Nil
  have "go_of (obj_set K_since (fget f K_since) f) = go_of f"
    by (simp add: go_of_since) (simp add: go_of_def to_go_filter_def)
  with Nil s list ok show ?thesis
    by (simp add: next_since_def Latest_hd world_ok_def mail_ok_def)
next
  case (Cons m ms)
  let ?s = "wd_store w" and ?g = "go_of f"
  from ok have so: "store_ok ?s" and d: "list_all dated (messages_of ?s)" and srt: "sorted (map mm_createdAt (messages_of ?s))"
    by (simp_all add: world_ok_def mail_ok_def all_messages_def sorted_append)
  have L: "rev (filter (Match ?g) (messages_of ?s)) = m # ms" using Cons so by (simp add: List_messages_spec)
  have set_L: "set (m # ms) = {x \<in> set (messages_of ?s). Match ?g x}" unfolding L [symmetric] by simp
  then have m: "m \<in> set (messages_of ?s)" "Match ?g m" by auto
  with d have "dated m" by (simp add: list_all_iff)
  then have cal: "zero_time \<le> mm_createdAt m" "mm_createdAt m < 253402300799000000000" by (simp_all add: dated_def)
  define q where "q = mm_createdAt m div 1000000"
  have q: "q * 1000000 \<le> mm_createdAt m" "mm_createdAt m < (q + 1) * 1000000"
    using int_div_bounds [of 1000000 "mm_createdAt m"] by (simp_all add: q_def algebra_simps)
  have "Date_parse (s_createdAt (Summary m)) = Some q"
    using createdAt_ms [of m] cal by (simp add: q_def zero_time_def)
  then have ns: "next_since list f = Inr (FDate (q + 1))" using Cons list by (simp add: next_since_def)
  moreover have "since_sendable (FDate (q + 1))"
    using q cal by (simp add: since_sendable_def zero_time_def)
  moreover have "Latest (go_of (obj_set K_since (FDate (q + 1)) f)) ?s = None"
  proof -
    have "\<not> Match (?g\<lparr>gf_Since := (q + 1) * 1000000\<rparr>) x" if x: "x \<in> set (messages_of ?s)" for x
    proof
      assume M: "Match (?g\<lparr>gf_Since := (q + 1) * 1000000\<rparr>) x"
      have nz: "(q + 1) * 1000000 \<noteq> zero_time" using q cal by (auto simp: zero_time_def)
      from M nz have new: "(q + 1) * 1000000 \<le> mm_createdAt x" and base: "Match (?g\<lparr>gf_Since := zero_time\<rparr>) x"
        unfolding Match_since [where ns = "(q + 1) * 1000000"] by simp_all
      have "gf_Since ?g = zero_time \<or> gf_Since ?g \<le> mm_createdAt x"
        using m(2) new q by (auto simp: Match_since_split [of ?g m])
      with base have "Match ?g x" by (simp add: Match_since_split [of ?g x])
      with x have "x \<in> set (m # ms)" unfolding set_L by simp
      moreover have "\<forall>y \<in> set (m # ms). mm_createdAt y \<le> mm_createdAt m"
      proof -
        have "sorted (map mm_createdAt (filter (Match ?g) (messages_of ?s)))" using srt by (rule sorted_filter)
        then have "sorted_wrt (\<ge>) (map mm_createdAt (m # ms))"
          unfolding L [symmetric] by (simp add: sorted_wrt_rev flip: rev_map)
        then show ?thesis by auto
      qed
      ultimately show False using new q by fastforce
    qed
    then show ?thesis by (simp add: go_of_since Latest_None since_ns_def filter_empty_conv)
  qed
  ultimately show ?thesis by blast
qed

text \<open>What \<open>waitForEmails\<close> may return.\<close>

definition emails_result ::
  "mp_client \<Rightarrow> nat \<Rightarrow> message_filter \<Rightarrow> int \<Rightarrow> int \<Rightarrow> mp_error + email list \<Rightarrow> world \<Rightarrow> bool" where
  "emails_result c count f timeout deadline r w \<longleftrightarrow>
     (let found = filter (Match (go_of f)) (messages_of (wd_store w)) in
      case r of
        Inr es \<Rightarrow> count \<le> length found \<and> es = map (new_Email \<circ> json_message) (take count found)
      | Inl e \<Rightarrow> length found < count \<and> deadline \<le> wd_clock w \<and>
          (\<exists>msg. e = MailpeekTimeoutError f timeout (Some (server_diagnosis c f (wd_store w)))
             (Some (int (length found), int count)) msg))"

lemma server_waitForEmails_loop:
  assumes base: "c_baseUrl c = base" and s: "since_sendable (fget f K_since)" and count: "0 < count"
  shows "world_ok w \<Longrightarrow> \<exists>r w'. waitForEmails_loop (server_env base) c (int count) f timeout sig deadline w = Some (r, w') \<and>
    emails_result c count f timeout deadline r w'"
proof (induction "2 * length (wd_pending w) + (if deadline \<le> wd_clock w then 0 else 1 :: nat)" arbitrary: w rule: less_induct)
  case less
  let ?env = "server_env base" and ?found = "filter (Match (go_of f)) (messages_of (wd_store w))"
  let ?list = "map Summary (List_messages (go_of f) (wd_store w))"
  note ok = less.prems
  have so: "store_ok (wd_store w)" using ok by (simp add: world_ok_def mail_ok_def)
  have L: "List_messages (go_of f) (wd_store w) = rev ?found" by (rule List_messages_spec [OF so])
  have msgs: "messages ?env c f (with_signal sig) w = (Inr ?list, w)" by (rule server_messages [OF base s GET_init(1)])
  have now: "env_now ?env w = (wd_clock w, w)" by (simp add: server_env_def)
  note unf = waitForEmails_loop.simps [of ?env c "int count" f timeout sig deadline w]
  show ?case
  proof (cases "count \<le> length ?found")
    case True
    have "map s_id (rev (slice_from ?list (- int count))) = map mm_id (take count ?found)"
      using count by (simp add: rev_slice_from_neg L take_map rev_map Summary_def o_def)
    moreover have "get_all ?env c sig (map mm_id (take count ?found)) w =
        (Inr (map (new_Email \<circ> json_message) (take count ?found)), w)"
      by (rule server_get_all [OF base ok]) (auto dest: in_set_takeD)
    ultimately have "waitForEmails_loop ?env c (int count) f timeout sig deadline w =
        Some (Inr (map (new_Email \<circ> json_message) (take count ?found)), w)"
      using True by (subst unf) (simp add: msgs L)
    with True show ?thesis by (simp add: emails_result_def)
  next
    case False
    show ?thesis
    proof (cases "deadline \<le> wd_clock w")
      case True
      have "waitForEmails_loop ?env c (int count) f timeout sig deadline w = Some (Inl (new_timeout_error f timeout
          (Some (server_diagnosis c f (wd_store w))) (Some (int (length ?found), int count))), w)"
        using False True by (subst unf) (simp add: msgs L now server_diagnose [OF base])
      with False True world_ok_timeout [OF ok] show ?thesis by (fastforce simp: emails_result_def)
    next
      case late: False
      obtain v where v: "next_since ?list f = Inr v" "since_sendable v"
        "Latest (go_of (obj_set K_since v f)) (wd_store w) = None"
        using next_since_ok [OF ok s refl] by blast
      let ?opts = "\<lparr>w_filter = obj_set K_since v f, w_timeout = Some (deadline - wd_clock w), w_signal = sig\<rparr>"
      obtain r w1 where wu: "wait_until (go_of (w_filter ?opts)) (wd_clock w + max 0 (deadline - wd_clock w)) w = (r, w1)"
        by fastforce
      have ss: "since_sendable (fget (w_filter ?opts) K_since)" using v(2) by (simp add: fget_obj_set)
      have tm: "deadline - wd_clock w = nullish (w_timeout ?opts) (c_timeout c)" by simp
      from server_waitFor [OF base ss ok tm wu] obtain w2 where
        w2: "wd_store w2 = wd_store w1" "wd_pending w2 = wd_pending w1"
        and res: "case r of Some m \<Rightarrow> waitFor ?env c ?opts w = Some (Inr (new_Email (json_message m)), w2)
          | None \<Rightarrow> wd_clock w + (deadline - wd_clock w) \<le> wd_clock w2 \<and> (\<exists>msg d. waitFor ?env c ?opts w =
              Some (Inl (MailpeekTimeoutError (w_filter ?opts) (deadline - wd_clock w) d None msg), w2))"
        by (auto split: option.splits)
      from wait_until_ok [OF ok wu] v(3) w2 have ok2: "world_ok w2"
        and p: "length (wd_pending w2) \<le> length (wd_pending w)" "r \<noteq> None \<Longrightarrow> length (wd_pending w2) < length (wd_pending w)"
        by (auto simp: world_ok_def)
      have again: "waitForEmails_loop ?env c (int count) f timeout sig deadline w =
          waitForEmails_loop ?env c (int count) f timeout sig deadline w2"
        using False late v(1) res by (subst unf) (auto simp: msgs L now split: option.splits)
      have "2 * length (wd_pending w2) + (if deadline \<le> wd_clock w2 then 0 else 1 :: nat) <
          2 * length (wd_pending w) + (if deadline \<le> wd_clock w then 0 else 1)"
        using late p res by (cases r) auto
      from less.hyps [OF this ok2] again show ?thesis by simp
    qed
  qed
qed

lemma server_waitForEmails:
  assumes "world_ok w" "since_sendable (fget (w_filter opts) K_since)" "0 < count"
  shows "\<exists>r w'. waitForEmails (server_env (c_baseUrl c)) c (int count) opts w = Some (r, w') \<and>
    emails_result c count (w_filter opts) (nullish (w_timeout opts) (c_timeout c))
      (wd_clock w + nullish (w_timeout opts) (c_timeout c)) r w'"
proof -
  have "env_now (server_env (c_baseUrl c)) w = (wd_clock w, w)" by (simp add: server_env_def)
  with server_waitForEmails_loop [OF refl assms(2,3,1)] show ?thesis
    by (simp add: waitForEmails_def Let_def del: nullish_def)
qed

section \<open>The properties\<close>

text \<open>A server that holds nothing and receives nothing, and default options.\<close>

definition quiet_world :: world where
  "quiet_world = \<lparr>wd_clock = 0, wd_store = New 10, wd_pending = [], wd_failures = \<lparr>fs_rules = [], fs_next = 0\<rparr>,
     wd_info = \<lparr>si_version = [], si_smtpPort = 1026, si_httpPort = 8026, si_maxMessages = 10, si_maxMessageSize = 0,
       si_maxStoreSize = 0, si_smtpAuth = False, si_uiAuth = False, si_store = None\<rparr>\<rparr>"

definition no_options :: wait_options where
  "no_options = \<lparr>w_filter = [], w_timeout = None, w_signal = False\<rparr>"

definition local_client :: mp_client where
  "local_client = \<lparr>c_baseUrl = ''http://localhost:8026'', c_timeout = 10000, c_requestTimeout = 10000,
     c_inboxDomain = ''mailpeek.local'', c_headers = []\<rparr>"

lemma quiet_ok: "world_ok quiet_world" "since_sendable (fget (w_filter no_options) K_since)"
  using New_ok [of 10]
  by (simp_all add: world_ok_def mail_ok_def quiet_world_def all_messages_def messages_of_def entries_def no_options_def
      since_sendable_def) (simp_all add: New_def)

text \<open>A server that holds a message for Ana and receives one for Bob three seconds later.\<close>

definition bobs_message :: mail_message where
  "bobs_message = sample_message\<lparr>mm_id := ''2'', mm_to := [], mm_env_to := [''bob@x.test''], mm_createdAt := 3000000001\<rparr>"

definition busy_world :: world where
  "busy_world = quiet_world\<lparr>wd_store := fst (Save sample_message [] (New 10)), wd_pending := [(3000, bobs_message, [])]\<rparr>"

lemma busy_messages: "messages_of (wd_store busy_world) = [sample_message]"
proof -
  obtain s evs where s: "Save sample_message [] (New 10) = (s, evs)" by fastforce
  have "st_order (New 10) = []" "messages_of (New 10) = []" by (simp_all add: messages_of_def entries_def New_def)
  with Save_spec [OF New_ok [of 10, THEN conjunct1] _ s] show ?thesis by (auto simp: busy_world_def s)
qed

lemma busy_ok: "world_ok busy_world"
proof -
  have "mail_ok (New 10) [(0, sample_message, []), (3000, bobs_message, [])]"
    using New_ok [of 10]
    by (simp add: mail_ok_def all_messages_def messages_of_def entries_def arriving_def dated_def bobs_message_def
        sample_message_def zero_time_def) (simp add: New_def)
  from mail_ok_Save [OF this] show ?thesis by (simp add: world_ok_def busy_world_def)
qed

text \<open>
  C1: \<open>waitFor\<close> resolves with a message exactly when one uninterrupted wait of the server up to the
  deadline finds one, and then with that message; otherwise it rejects with a
  \<open>MailpeekTimeoutError\<close> after the deadline, carrying the diagnosis of what the server holds.
\<close>

theorem waitFor_is_one_wait:
  assumes "world_ok w" "since_sendable (fget (w_filter opts) K_since)"
    "timeout = nullish (w_timeout opts) (c_timeout c)"
    "wait_until (go_of (w_filter opts)) (wd_clock w + max 0 timeout) w = (r, w')"
  shows "\<exists>w''. wd_store w'' = wd_store w' \<and>
    (case r of
       Some m \<Rightarrow> waitFor (server_env (c_baseUrl c)) c opts w = Some (Inr (new_Email (json_message m)), w'') \<and>
         Match (go_of (w_filter opts)) m \<and> m \<in> set (messages_of (wd_store w''))
     | None \<Rightarrow> wd_clock w + timeout \<le> wd_clock w'' \<and> Latest (go_of (w_filter opts)) (wd_store w'') = None \<and>
         (\<exists>msg. waitFor (server_env (c_baseUrl c)) c opts w =
           Some (Inl (MailpeekTimeoutError (w_filter opts) timeout
             (Some (server_diagnosis c (w_filter opts) (wd_store w''))) None msg), w'')))"
proof -
  from wait_until_ok [OF assms(1,4)] have l: "Latest (go_of (w_filter opts)) (wd_store w') = r"
    and so: "store_ok (wd_store w')" by (simp_all add: world_ok_def mail_ok_def)
  from server_waitFor [OF refl assms(2,1,3,4)] l Latest_matches [OF so] show ?thesis
    by (cases r) fastforce+
qed

theorem waitFor_is_one_wait_witness:
  "\<exists>r w' w''. wait_until (go_of []) (wd_clock busy_world + max 0 10000) busy_world = (r, w') \<and>
    wd_store w'' = wd_store w' \<and>
    (case r of
       Some m \<Rightarrow> waitFor (server_env (c_baseUrl local_client)) local_client no_options busy_world =
           Some (Inr (new_Email (json_message m)), w'') \<and>
         Match (go_of []) m \<and> m \<in> set (messages_of (wd_store w''))
     | None \<Rightarrow> wd_clock busy_world + 10000 \<le> wd_clock w'' \<and> Latest (go_of []) (wd_store w'') = None \<and>
         (\<exists>msg. waitFor (server_env (c_baseUrl local_client)) local_client no_options busy_world =
           Some (Inl (MailpeekTimeoutError [] 10000 (Some (server_diagnosis local_client [] (wd_store w''))) None msg), w'')))"
proof -
  obtain r w' where w: "wait_until (go_of []) (wd_clock busy_world + max 0 10000) busy_world = (r, w')" by fastforce
  have f: "w_filter no_options = []" and t: "10000 = nullish (w_timeout no_options) (c_timeout local_client)"
    by (simp_all add: no_options_def local_client_def)
  from waitFor_is_one_wait [OF busy_ok quiet_ok(2) t, unfolded f, OF w] w show ?thesis by blast
qed

text \<open>
  C11: \<open>waitFor\<close> always returns when it talks to the server: the loop of requests is finite, whatever
  the filter, the timeout and the mail that arrives.
\<close>

theorem waitFor_terminates:
  "\<exists>r w'. waitFor (server_env (c_baseUrl c)) c opts w = Some (r, w')"
  by (rule server.waitFor_returns)

text \<open>
  C2: \<open>waitForEmails\<close> for a positive count returns: either with the first \<open>count\<close> matching messages in
  order of arrival, or, after the deadline and with fewer messages there, with a timeout error that
  says how many of them arrived.
\<close>

theorem waitForEmails_first:
  assumes "world_ok w" "since_sendable (fget (w_filter opts) K_since)" "0 < count"
  shows "\<exists>r w'. waitForEmails (server_env (c_baseUrl c)) c (int count) opts w = Some (r, w') \<and>
    emails_result c count (w_filter opts) (nullish (w_timeout opts) (c_timeout c))
      (wd_clock w + nullish (w_timeout opts) (c_timeout c)) r w'"
  by (rule server_waitForEmails [OF assms])

theorem waitForEmails_first_witness:
  "\<exists>r w'. waitForEmails (server_env (c_baseUrl local_client)) local_client (int 2) no_options busy_world = Some (r, w') \<and>
    emails_result local_client 2 (w_filter no_options) (nullish (w_timeout no_options) (c_timeout local_client))
      (wd_clock busy_world + nullish (w_timeout no_options) (c_timeout local_client)) r w'"
  by (rule waitForEmails_first [OF busy_ok quiet_ok(2)]) simp

text \<open>
  C40: A count of zero is the exception: \<open>slice(-0)\<close> is the whole list, so every matching message is
  returned instead of none.
\<close>

theorem waitForEmails_zero:
  assumes "world_ok w" "since_sendable (fget (w_filter opts) K_since)"
  shows "waitForEmails (server_env (c_baseUrl c)) c 0 opts w =
    Some (Inr (map (new_Email \<circ> json_message) (filter (Match (go_of (w_filter opts))) (messages_of (wd_store w)))), w)"
proof -
  let ?found = "filter (Match (go_of (w_filter opts))) (messages_of (wd_store w))"
  have so: "store_ok (wd_store w)" using assms(1) by (simp add: world_ok_def mail_ok_def)
  have now: "env_now (server_env (c_baseUrl c)) w = (wd_clock w, w)" by (simp add: server_env_def)
  have msgs: "messages (server_env (c_baseUrl c)) c (w_filter opts) (with_signal (w_signal opts)) w =
      (Inr (map Summary (rev ?found)), w)"
    using server_messages [OF refl assms(2) GET_init(1)] by (simp add: List_messages_spec [OF so])
  have "map s_id (rev (slice_from (map Summary (rev ?found)) (- 0))) = map mm_id ?found"
    by (simp add: slice_from_def rel_index_def rev_map Summary_def o_def)
  with server_get_all [OF refl assms(1), of ?found c "w_signal opts"] show ?thesis
    unfolding waitForEmails_def now Let_def prod.case
    by (subst waitForEmails_loop.simps) (simp add: msgs)
qed

theorem waitForEmails_zero_witness:
  "waitForEmails (server_env (c_baseUrl local_client)) local_client 0 no_options busy_world =
    Some (Inr (map (new_Email \<circ> json_message) (filter (Match (go_of (w_filter no_options))) (messages_of (wd_store busy_world)))), busy_world)"
  by (rule waitForEmails_zero [OF busy_ok quiet_ok(2)])

end
