(* ===== verification/Inbox.thy ===== *)
theory Inbox
  imports Wait_Server "HOL-Library.Word"
begin

text \<open>
  Isolated inboxes (\<open>packages/client/src/inbox.ts\<close>, and \<open>createInbox\<close> and \<open>inbox\<close> of \<open>client.ts\<close>).
  \<open>InboxClient\<close>, the part of the client an inbox needs, is a record of operations. The locale
  \<open>inbox_service\<close> states what they promise about the stored mail and the failure rules; inside it
  an inbox is shown to see, wait for, delete and disturb only its own address. The client on the
  server's handlers interprets it.
\<close>

section \<open>Inboxes\<close>

record request_options =
  ro_signal :: bool

record 'w inbox_client =
  ic_messages :: "message_filter \<Rightarrow> request_options \<Rightarrow> ('w, message_summary list) operation"
  ic_latest :: "message_filter \<Rightarrow> request_options \<Rightarrow> ('w, email option) operation"
  ic_waitFor :: "wait_options \<Rightarrow> 'w \<Rightarrow> ((mp_error + email) \<times> 'w) option"
  ic_waitForEmails :: "int \<Rightarrow> wait_options \<Rightarrow> 'w \<Rightarrow> ((mp_error + email list) \<times> 'w) option"
  ic_clear :: "message_filter \<Rightarrow> request_options \<Rightarrow> ('w, int) operation"
  ic_failNext :: "failure_options \<Rightarrow> request_options \<Rightarrow> ('w, smtp_failure) operation"
  ic_clearFailures :: "string option \<Rightarrow> request_options \<Rightarrow> ('w, int) operation"

record inbox_options =
  io_prefix :: "string option"
  io_domain :: "string option"

record 'w inbox =
  ib_client :: "'w inbox_client"
  ib_address :: string

definition alphabet :: string where
  "alphabet = ''abcdefghijklmnopqrstuvwxyz0123456789''"

text \<open>\<open>bytes\<close> is what \<open>getRandomValues\<close> put into the array of \<open>length\<close> bytes.\<close>

definition randomId :: "8 word list \<Rightarrow> string" where
  "randomId bytes = map (\<lambda>b. alphabet ! (unat b mod length alphabet)) bytes"

text \<open>\<open>{ ...filter, address: this.address }\<close>\<close>

definition addressed :: "'w inbox \<Rightarrow> message_filter \<Rightarrow> message_filter" where
  "addressed ib f = obj_set K_address (FStr (ib_address ib)) f"

definition inbox_messages :: "'w inbox \<Rightarrow> message_filter \<Rightarrow> request_options \<Rightarrow> ('w, message_summary list) operation" where
  "inbox_messages ib f options = ic_messages (ib_client ib) (addressed ib f) options"

definition inbox_latest :: "'w inbox \<Rightarrow> message_filter \<Rightarrow> request_options \<Rightarrow> ('w, email option) operation" where
  "inbox_latest ib f options = ic_latest (ib_client ib) (addressed ib f) options"

definition waitForEmail :: "'w inbox \<Rightarrow> wait_options \<Rightarrow> 'w \<Rightarrow> ((mp_error + email) \<times> 'w) option" where
  "waitForEmail ib options = ic_waitFor (ib_client ib) (options\<lparr>w_filter := addressed ib (w_filter options)\<rparr>)"

definition inbox_waitForEmails :: "'w inbox \<Rightarrow> int \<Rightarrow> wait_options \<Rightarrow> 'w \<Rightarrow> ((mp_error + email list) \<times> 'w) option" where
  "inbox_waitForEmails ib count options =
     ic_waitForEmails (ib_client ib) count (options\<lparr>w_filter := addressed ib (w_filter options)\<rparr>)"

definition inbox_failNext :: "'w inbox \<Rightarrow> failure_options \<Rightarrow> request_options \<Rightarrow> ('w, smtp_failure) operation" where
  "inbox_failNext ib failure options = ic_failNext (ib_client ib) (failure\<lparr>fo_address := Some (ib_address ib)\<rparr>) options"

text \<open>\<open>Promise.all\<close> starts both requests; a rejection of either is the result.\<close>

definition inbox_clear :: "'w inbox \<Rightarrow> request_options \<Rightarrow> ('w, int) operation" where
  "inbox_clear ib options w =
     (let (deleted, w1) = ic_clear (ib_client ib) [(K_address, FStr (ib_address ib))] options w;
          (failures, w2) = ic_clearFailures (ib_client ib) (Some (ib_address ib)) options w1
      in (case deleted of
            Inl e \<Rightarrow> Inl e
          | Inr n \<Rightarrow> (case failures of Inl e \<Rightarrow> Inl e | Inr _ \<Rightarrow> Inr n), w2))"

definition inbox_toString :: "'w inbox \<Rightarrow> string" where
  "inbox_toString ib = ib_address ib"

section \<open>Making inboxes\<close>

definition init_of :: "request_options \<Rightarrow> init" where
  "init_of ro = no_init\<lparr>in_signal := ro_signal ro\<rparr>"

text \<open>The client seen as an \<open>InboxClient\<close>.\<close>

definition as_inbox_client :: "'w env \<Rightarrow> mp_client \<Rightarrow> 'w inbox_client" where
  "as_inbox_client env c = \<lparr>
     ic_messages = (\<lambda>f ro. messages env c f (init_of ro)),
     ic_latest = (\<lambda>f ro. latest env c f (init_of ro)),
     ic_waitFor = waitFor env c,
     ic_waitForEmails = waitForEmails env c,
     ic_clear = (\<lambda>f ro. clear env c f (init_of ro)),
     ic_failNext = (\<lambda>x ro. failNext env c x (init_of ro)),
     ic_clearFailures = (\<lambda>a ro. clearFailures env c a (init_of ro))\<rparr>"

definition createInbox :: "'w env \<Rightarrow> mp_client \<Rightarrow> inbox_options \<Rightarrow> 8 word list \<Rightarrow> 'w inbox" where
  "createInbox env c options bytes =
     (let prefix = nullish (io_prefix options) ''test''; domain = nullish (io_domain options) (c_inboxDomain c)
      in \<lparr>ib_client = as_inbox_client env c, ib_address = prefix @ ''-'' @ randomId bytes @ ''@'' @ domain\<rparr>)"

definition inbox_of :: "'w env \<Rightarrow> mp_client \<Rightarrow> string \<Rightarrow> 'w inbox" where
  "inbox_of env c address = \<lparr>ib_client = as_inbox_client env c, ib_address = address\<rparr>"

section \<open>The address in the filter\<close>

lemma Match_addressed:
  assumes "ib_address ib \<noteq> []"
  shows "Match (go_of (addressed ib f)) =
    (\<lambda>m. hasRecipient m (ib_address ib) \<and> Match ((go_of f)\<lparr>gf_Address := []\<rparr>) m)"
  using assms by (auto simp: fun_eq_iff Match_iff go_of_def to_go_filter_def addressed_def ftruthy_obj_set fget_obj_set)

lemma sendable_addressed: "since_sendable (fget f K_since) \<Longrightarrow> since_sendable (fget (addressed ib f) K_since)"
  by (simp add: addressed_def fget_obj_set)

lemma Match_address_only:
  "a \<noteq> [] \<Longrightarrow> Match (go_of [(K_address, FStr a)]) = (\<lambda>m. hasRecipient m a)"
  by (simp add: fun_eq_iff Match_iff go_of_def to_go_filter_def ftruthy_def fstr_def fget_def since_ns_def)

lemma sendable_address_only: "since_sendable (fget [(K_address, FStr a)] K_since)"
  by (simp add: fget_def since_sendable_def)

section \<open>What an inbox relies on\<close>

text \<open>
  Listing and waiting return stored mail that matches the filter; clearing removes exactly that;
  a failure rule is appended with the address that was asked for, and clearing an address removes
  exactly its rules.
\<close>

locale inbox_service =
  fixes ic :: "'w inbox_client" and stored :: "'w \<Rightarrow> mail_message list" and rules :: "'w \<Rightarrow> rule list"
    and ok :: "'w \<Rightarrow> bool"
  assumes list_law: "ok w \<Longrightarrow> since_sendable (fget f K_since) \<Longrightarrow>
      ic_messages ic f ro w = (Inr (map Summary (rev (filter (Match (go_of f)) (stored w)))), w)"
    and latest_law: "ok w \<Longrightarrow> since_sendable (fget f K_since) \<Longrightarrow>
      ic_latest ic f ro w = (Inr (map_option (new_Email \<circ> json_message) (find (Match (go_of f)) (rev (stored w)))), w)"
    and wait_law: "ok w \<Longrightarrow> since_sendable (fget (w_filter opts) K_since) \<Longrightarrow>
      ic_waitFor ic opts w = Some (Inr e, w') \<Longrightarrow>
      \<exists>m \<in> set (stored w'). e = new_Email (json_message m) \<and> Match (go_of (w_filter opts)) m"
    and emails_law: "ok w \<Longrightarrow> since_sendable (fget (w_filter opts) K_since) \<Longrightarrow> 0 < count \<Longrightarrow>
      ic_waitForEmails ic (int count) opts w = Some (Inr es, w') \<Longrightarrow>
      es = map (new_Email \<circ> json_message) (take count (filter (Match (go_of (w_filter opts))) (stored w')))"
    and clear_law: "ok w \<Longrightarrow> since_sendable (fget f K_since) \<Longrightarrow>
      \<exists>w'. ic_clear ic f ro w = (Inr (int (length (filter (Match (go_of f)) (stored w)))), w') \<and> ok w' \<and>
        stored w' = filter (\<lambda>m. \<not> Match (go_of f) m) (stored w) \<and> rules w' = rules w"
    and fail_law: "ic_failNext ic x ro w = (Inr y, w') \<Longrightarrow>
      \<exists>r. rules w' = rules w @ [r] \<and> fr_address r = TrimSpace (nullish (fo_address x) []) \<and> stored w' = stored w"
    and unfail_law: "ok w \<Longrightarrow> a \<noteq> [] \<Longrightarrow>
      \<exists>n w'. ic_clearFailures ic (Some a) ro w = (Inr n, w') \<and> ok w' \<and> stored w' = stored w \<and>
        rules w' = filter (\<lambda>r. \<not> EqualFold (fr_address r) (TrimSpace a)) (rules w)"
begin

lemma messages_only_own:
  assumes "ok w" "ib_client ib = ic" "ib_address ib \<noteq> []" "since_sendable (fget f K_since)"
  shows "inbox_messages ib f ro w = (Inr (map Summary (rev (filter
    (\<lambda>m. hasRecipient m (ib_address ib) \<and> Match ((go_of f)\<lparr>gf_Address := []\<rparr>) m) (stored w)))), w)"
  using list_law [OF assms(1) sendable_addressed [OF assms(4)], of ib] assms(2)
  by (simp add: inbox_messages_def Match_addressed [OF assms(3)])

lemma latest_only_own:
  assumes "ok w" "ib_client ib = ic" "ib_address ib \<noteq> []" "since_sendable (fget f K_since)"
  shows "inbox_latest ib f ro w = (Inr (map_option (new_Email \<circ> json_message) (find
    (\<lambda>m. hasRecipient m (ib_address ib) \<and> Match ((go_of f)\<lparr>gf_Address := []\<rparr>) m) (rev (stored w)))), w)"
  using latest_law [OF assms(1) sendable_addressed [OF assms(4)], of ib] assms(2)
  by (simp add: inbox_latest_def Match_addressed [OF assms(3)])

lemma waits_only_for_own:
  assumes "ok w" "ib_client ib = ic" "ib_address ib \<noteq> []" "since_sendable (fget (w_filter opts) K_since)"
    "waitForEmail ib opts w = Some (Inr e, w')"
  shows "\<exists>m \<in> set (stored w'). e = new_Email (json_message m) \<and> hasRecipient m (ib_address ib)"
  using wait_law [OF assms(1), of "opts\<lparr>w_filter := addressed ib (w_filter opts)\<rparr>"] assms(2,5)
    sendable_addressed [OF assms(4)] Match_addressed [OF assms(3)]
  by (fastforce simp: waitForEmail_def)

lemma emails_only_own:
  assumes "ok w" "ib_client ib = ic" "ib_address ib \<noteq> []" "since_sendable (fget (w_filter opts) K_since)" "0 < count"
    "inbox_waitForEmails ib (int count) opts w = Some (Inr es, w')"
  shows "es = map (new_Email \<circ> json_message) (take count (filter
    (\<lambda>m. hasRecipient m (ib_address ib) \<and> Match ((go_of (w_filter opts))\<lparr>gf_Address := []\<rparr>) m) (stored w')))"
  using emails_law [OF assms(1), of "opts\<lparr>w_filter := addressed ib (w_filter opts)\<rparr>" count es w'] assms(2,5,6)
    sendable_addressed [OF assms(4), of ib]
  by (simp add: inbox_waitForEmails_def Match_addressed [OF assms(3)])

lemma clear_only_own:
  assumes "ok w" "ib_client ib = ic" "ib_address ib \<noteq> []"
  shows "\<exists>w'. inbox_clear ib ro w = (Inr (int (length (filter (\<lambda>m. hasRecipient m (ib_address ib)) (stored w)))), w') \<and>
    ok w' \<and> stored w' = filter (\<lambda>m. \<not> hasRecipient m (ib_address ib)) (stored w) \<and>
    rules w' = filter (\<lambda>r. \<not> EqualFold (fr_address r) (TrimSpace (ib_address ib))) (rules w)"
proof -
  let ?f = "[(K_address, FStr (ib_address ib))]"
  from clear_law [OF assms(1) sendable_address_only, of "ib_address ib" ro] obtain w1 where
    c: "ic_clear ic ?f ro w = (Inr (int (length (filter (\<lambda>m. hasRecipient m (ib_address ib)) (stored w)))), w1)"
    and w1: "ok w1" "stored w1 = filter (\<lambda>m. \<not> hasRecipient m (ib_address ib)) (stored w)" "rules w1 = rules w"
    by (auto simp: Match_address_only [OF assms(3)])
  from unfail_law [OF w1(1) assms(3), of ro] obtain n w2 where
    "ic_clearFailures ic (Some (ib_address ib)) ro w1 = (Inr n, w2)" "ok w2" "stored w2 = stored w1"
    "rules w2 = filter (\<lambda>r. \<not> EqualFold (fr_address r) (TrimSpace (ib_address ib))) (rules w1)" by blast
  with c w1 show ?thesis by (simp add: inbox_clear_def assms(2))
qed

lemma failNext_only_own:
  assumes "ib_client ib = ic" "TrimSpace (ib_address ib) \<noteq> []" "inbox_failNext ib x ro w = (Inr y, w')"
    "\<not> list_ex (\<lambda>rcpt. EqualFold rcpt (TrimSpace (ib_address ib))) rc"
  shows "map_option fst (take_rule st rc (rules w')) = map_option fst (take_rule st rc (rules w))"
proof -
  from assms(1,3) fail_law [of "x\<lparr>fo_address := Some (ib_address ib)\<rparr>" ro w y w'] obtain r where
    "rules w' = rules w @ [r]" "fr_address r = TrimSpace (ib_address ib)"
    by (auto simp: inbox_failNext_def)
  with assms(2,4) take_rule_append_miss [of r st rc "rules w"] show ?thesis
    by (auto simp: matches_rcpt_def option.map_comp o_def case_prod_unfold)
qed

end

section \<open>The client on the server\<close>

lemma init_of_method [simp]: "in_method (init_of ro) = None" "in_body (init_of ro) = None" "in_headers (init_of ro) = []"
  by (simp_all add: init_of_def no_init_def)

lemma go_filter_query: "since_sendable (fget f K_since) \<Longrightarrow> parseFilter (query_params f []) = Inr (go_of f)"
  unfolding go_of_def by (rule parseFilter_query_params) simp_all

lemma handle_messages:
  "handle_path ''DELETE'' post (''/messages'' @ query f []) w =
     with_store (deleteMessages (query_params f []) (wd_store w)) w"
  "handle_path ''GET'' post (''/messages/latest'' @ query f []) w = (latestMessage (query_params f []) (wd_store w), w)"
  by (subst handle_path_query; simp add: route_def route_get_def route_delete_def)+

lemma server_latest:
  assumes "c_baseUrl c = base" "since_sendable (fget f K_since)"
  shows "latest (server_env base) c f (init_of ro) w =
    (Inr (map_option (new_Email \<circ> json_message) (find (Match (go_of f)) (rev (messages_of (wd_store w))))), w)"
  using handle_messages(2) go_filter_query [OF assms(2)]
  by (cases "find (Match (go_of f)) (rev (messages_of (wd_store w)))")
     (simp_all add: latest_def then_op_def server_request [OF assms(1)] Let_def latestMessage_def Latest_spec
      writeJSON_def writeError_def accepts_def http_ok_def read_email_def return_op_def)

lemma mail_ok_keep:
  assumes "mail_ok s ps"
  shows "mail_ok (keep (\<lambda>i. \<not> Match f (en_msg (item s i))) s) ps"
proof -
  let ?s = "keep (\<lambda>i. \<not> Match f (en_msg (item s i))) s"
  have a: "all_messages ?s ps = filter (\<lambda>m. \<not> Match f m) (messages_of s) @ map arriving ps"
    by (simp add: all_messages_def keep_messages)
  have "sorted (map mm_createdAt (filter (\<lambda>m. \<not> Match f m) (messages_of s)))"
    using assms by (auto simp: mail_ok_def all_messages_def sorted_append intro: sorted_filter)
  moreover have "distinct (map mm_id (filter (\<lambda>m. \<not> Match f m) (messages_of s)))"
    using assms by (auto simp: mail_ok_def all_messages_def intro: distinct_map_filter)
  ultimately show ?thesis
    using assms keep_ok unfolding mail_ok_def a by (auto simp: all_messages_def sorted_append list_all_iff)
qed

lemma server_clear:
  assumes "c_baseUrl c = base" "since_sendable (fget f K_since)" "world_ok w"
  shows "\<exists>w'. clear (server_env base) c f (init_of ro) w =
      (Inr (int (length (filter (Match (go_of f)) (messages_of (wd_store w))))), w') \<and> world_ok w' \<and>
    messages_of (wd_store w') = filter (\<lambda>m. \<not> Match (go_of f) m) (messages_of (wd_store w)) \<and>
    wd_failures w' = wd_failures w"
proof -
  let ?g = "go_of f" and ?s = "wd_store w"
  have ok: "store_ok ?s" and m: "mail_ok ?s (wd_pending w)" using assms(3) by (simp_all add: world_ok_def mail_ok_def)
  obtain n s' ev where d: "DeleteMatching ?g ?s = (n, s', ev)" by (cases "DeleteMatching ?g ?s") auto
  with DeleteMatching_spec [OF ok, of ?g] have n: "n = length (filter (Match ?g) (messages_of ?s))"
    and s': "s' = keep (\<lambda>i. \<not> Match ?g (en_msg (item ?s i))) ?s"
    by (simp_all add: List_messages_spec [OF ok])
  have "clear (server_env base) c f (init_of ro) w = (Inr (int n), w\<lparr>wd_store := s'\<rparr>)"
    by (simp add: clear_def then_op_def server_request [OF assms(1)] Let_def handle_messages(1) [simplified]
        deleteMessages_def go_filter_query [OF assms(2)] d with_store_def writeJSON_def accepts_def http_ok_def
        read_deleted_def return_op_def)
  with n s' mail_ok_keep [OF m, of ?g] keep_messages [of ?g ?s] show ?thesis by (auto simp: world_ok_def)
qed

lemma handle_failures:
  "handle_path ''DELETE'' post (''/smtp/failures'' @ ''?'' @ params_toString ps) w =
     with_failures (clearFailures_handler ps (wd_failures w)) w"
  "handle_path ''POST'' post ''/smtp/failures'' w = with_failures (addFailure (fst post) (snd post) (wd_failures w)) w"
proof -
  have p: "cut (CHR ''?'') (''/smtp/failures'' @ ''?'' @ qs) = (''/smtp/failures'', qs)" for qs
    using cut_append [of "CHR ''?''" "''/smtp/failures''" qs] by simp
  show "handle_path ''DELETE'' post (''/smtp/failures'' @ ''?'' @ params_toString ps) w =
      with_failures (clearFailures_handler ps (wd_failures w)) w"
    unfolding handle_path_def p by (simp add: ParseQuery_toString route_def route_delete_def)
  show "handle_path ''POST'' post ''/smtp/failures'' w = with_failures (addFailure (fst post) (snd post) (wd_failures w)) w"
    by (simp add: handle_path_def cut_def route_def)
qed

lemma server_clearFailures:
  assumes "c_baseUrl c = base" "a \<noteq> []"
  shows "\<exists>n. clearFailures (server_env base) c (Some a) (init_of ro) w =
    (Inr n, w\<lparr>wd_failures := (wd_failures w)\<lparr>fs_rules :=
       filter (\<lambda>r. \<not> EqualFold (fr_address r) (TrimSpace a)) (fs_rules (wd_failures w))\<rparr>\<rparr>)"
  using assms(2) handle_failures(1) [of _ "[(''address'', a)]" w]
  by (simp add: clearFailures_def then_op_def server_request [OF assms(1)] Let_def truthy_def clearFailures_handler_def
      Clear_def values_Get_def with_failures_def writeJSON_def accepts_def http_ok_def read_deleted_def return_op_def)

lemma server_failNext:
  assumes "c_baseUrl c = base" "failNext (server_env base) c x (init_of ro) w = (Inr y, w')"
  shows "\<exists>r. wd_failures w' = (snd (Add (decode_request x) (wd_failures w))) \<and> wd_store w' = wd_store w \<and>
    fst (Add (decode_request x) (wd_failures w)) = Inr r \<and> y = json_rule r"
  using assms(2)
  by (auto simp: failNext_def then_op_def server_request [OF assms(1)] Let_def handle_failures(2) addFailure_def
      with_failures_def writeJSON_def writeError_def accepts_def http_ok_def return_op_def throw_op_def
      split: if_splits sum.splits prod.splits json_reply.splits)

lemma fst_Take: "fst (Take st rc s) = map_option fst (take_rule st rc (fs_rules s))"
  by (simp add: Take_def split: option.splits prod.splits)

lemma Add_rules:
  assumes "Add req s = (Inr r, s')"
  shows "\<exists>r. fs_rules s' = fs_rules s @ [r] \<and> fr_address r = TrimSpace (fq_address req)"
  using assms by (cases rule: Add_cases) (auto simp: completed_def filled_def Let_def)

lemma server_wait_matches:
  assumes "world_ok w" "since_sendable (fget (w_filter opts) K_since)"
    "waitFor (server_env (c_baseUrl c)) c opts w = Some (Inr e, w')"
  shows "\<exists>m \<in> set (messages_of (wd_store w')). e = new_Email (json_message m) \<and> Match (go_of (w_filter opts)) m"
proof -
  define timeout where "timeout = nullish (w_timeout opts) (c_timeout c)"
  obtain r w1 where wu: "wait_until (go_of (w_filter opts)) (wd_clock w + max 0 timeout) w = (r, w1)" by fastforce
  from wait_until_ok [OF assms(1) wu] have ok: "store_ok (wd_store w1)" and l: "Latest (go_of (w_filter opts)) (wd_store w1) = r"
    by (simp_all add: world_ok_def mail_ok_def)
  from server_waitFor [OF refl assms(2,1) timeout_def wu] assms(3) obtain m where
    "r = Some m" "e = new_Email (json_message m)" "wd_store w' = wd_store w1"
    by (cases r) auto
  with Latest_matches [OF ok] l show ?thesis by auto
qed

interpretation own: inbox_service "as_inbox_client (server_env (c_baseUrl c)) c" "messages_of \<circ> wd_store"
    "fs_rules \<circ> wd_failures" world_ok for c
proof (unfold_locales, goal_cases)
  case (1 w f ro)
  then have "store_ok (wd_store w)" by (simp add: world_ok_def mail_ok_def)
  with 1 show ?case
    using server_messages [of c "c_baseUrl c" f "init_of ro" w] by (simp add: as_inbox_client_def List_messages_spec)
next
  case (2 w f ro)
  then show ?case using server_latest [of c "c_baseUrl c" f ro w] by (simp add: as_inbox_client_def)
next
  case (3 w opts e w')
  then show ?case using server_wait_matches by (simp add: as_inbox_client_def)
next
  case (4 w opts count es w')
  then show ?case using server_waitForEmails [of w opts count c]
    by (auto simp: as_inbox_client_def emails_result_def Let_def)
next
  case (5 w f ro)
  then show ?case using server_clear [of c "c_baseUrl c" f w ro] by (auto simp: as_inbox_client_def)
next
  case (6 x ro w y w')
  from server_failNext [OF refl, of c x ro w y w'] 6 Add_rules [of "decode_request x" "wd_failures w"]
  obtain r s where "Add (decode_request x) (wd_failures w) = (Inr r, s)" "wd_failures w' = s" "wd_store w' = wd_store w"
    by (cases "Add (decode_request x) (wd_failures w)") (auto simp: as_inbox_client_def)
  with Add_rules [of "decode_request x" "wd_failures w" r s] show ?case by (auto simp: decode_request_def)
next
  case (7 w a ro)
  then show ?case using server_clearFailures [of c "c_baseUrl c" a ro w]
    by (auto simp: as_inbox_client_def world_ok_def)
qed

lemma alphabet_chars: "list_all (\<lambda>x. is_lower x \<or> is_digit x) alphabet" "length alphabet = 36"
  by (simp_all add: alphabet_def is_lower_def is_digit_def)

lemma alphabet_nth: "j < 36 \<Longrightarrow> alphabet ! i = alphabet ! j \<longleftrightarrow> i = j" if "i < 36"
  using that nth_eq_iff_index_eq [of alphabet i j] alphabet_chars(2) by (simp add: alphabet_def)

lemma lower_alphabet: "i < 36 \<Longrightarrow> lower_char (alphabet ! i) = alphabet ! i"
proof -
  have "list_all (\<lambda>x. lower_char x = x) alphabet" by code_simp
  then show "i < 36 \<Longrightarrow> lower_char (alphabet ! i) = alphabet ! i" by (simp add: list_all_length alphabet_chars(2))
qed

lemma same_code_iff:
  assumes "length bytes' = length bytes"
  shows "map lower_char (randomId bytes) = map lower_char (randomId bytes') \<longleftrightarrow>
    (\<forall>i < length bytes. unat (bytes ! i) mod 36 = unat (bytes' ! i) mod 36)"
  using assms by (simp add: list_eq_iff_nth_eq randomId_def alphabet_chars(2) lower_alphabet alphabet_nth)

lemma randomId_chars: "list_all (\<lambda>x. is_lower x \<or> is_digit x) (randomId bytes)"
  using alphabet_chars by (auto simp: randomId_def list_all_iff)

lemma inbox_of_client [simp]: "ib_client (inbox_of env c a) = as_inbox_client env c" "ib_address (inbox_of env c a) = a"
  by (simp_all add: inbox_of_def)

section \<open>The properties\<close>

text \<open>
  C4: An inbox lists exactly the stored messages addressed to it (in To, Cc or the envelope, whatever the
  case) that also match the caller's filter, newest first, and no other test's mail.
\<close>

theorem inbox_lists_own:
  assumes "world_ok w" "address \<noteq> []" "since_sendable (fget f K_since)"
  shows "inbox_messages (inbox_of (server_env (c_baseUrl c)) c address) f ro w =
    (Inr (map Summary (rev (filter (\<lambda>m. hasRecipient m address \<and> Match ((go_of f)\<lparr>gf_Address := []\<rparr>) m)
      (messages_of (wd_store w))))), w)"
  using own.messages_only_own [OF assms(1) inbox_of_client(1) [of "server_env (c_baseUrl c)" c address]] assms(2,3) by simp

definition no_request_options :: request_options where
  "no_request_options = \<lparr>ro_signal = False\<rparr>"

lemma ana_gets: "hasRecipient sample_message ''ana@x.test''"
  by (simp add: hasRecipient_def js_eval)

theorem inbox_lists_own_witness:
  "inbox_messages (inbox_of (server_env (c_baseUrl local_client)) local_client ''ana@x.test'') [] no_request_options busy_world =
    (Inr (map Summary (rev (filter (\<lambda>m. hasRecipient m ''ana@x.test'' \<and> Match ((go_of [])\<lparr>gf_Address := []\<rparr>) m)
      (messages_of (wd_store busy_world))))), busy_world) \<and>
    hasRecipient sample_message ''ana@x.test'' \<and> sample_message \<in> set (messages_of (wd_store busy_world))"
proof (intro conjI)
  show "inbox_messages (inbox_of (server_env (c_baseUrl local_client)) local_client ''ana@x.test'') [] no_request_options busy_world =
    (Inr (map Summary (rev (filter (\<lambda>m. hasRecipient m ''ana@x.test'' \<and> Match ((go_of [])\<lparr>gf_Address := []\<rparr>) m)
      (messages_of (wd_store busy_world))))), busy_world)"
    by (rule inbox_lists_own [OF busy_ok]) (simp_all add: since_sendable_def)
  show "hasRecipient sample_message ''ana@x.test''" "sample_message \<in> set (messages_of (wd_store busy_world))"
    by (simp_all add: ana_gets busy_messages)
qed

text \<open>
  C5: Clearing an inbox deletes exactly the mail addressed to it and the failure rules of its address,
  and answers how many messages were removed; every other message and rule stays.
\<close>

theorem inbox_clears_own:
  assumes "world_ok w" "address \<noteq> []"
  shows "\<exists>w'. inbox_clear (inbox_of (server_env (c_baseUrl c)) c address) ro w =
      (Inr (int (length (filter (\<lambda>m. hasRecipient m address) (messages_of (wd_store w))))), w') \<and> world_ok w' \<and>
    messages_of (wd_store w') = filter (\<lambda>m. \<not> hasRecipient m address) (messages_of (wd_store w)) \<and>
    fs_rules (wd_failures w') =
      filter (\<lambda>r. \<not> EqualFold (fr_address r) (TrimSpace address)) (fs_rules (wd_failures w))"
  using own.clear_only_own [OF assms(1) inbox_of_client(1) [of "server_env (c_baseUrl c)" c address]] assms(2) by simp

theorem inbox_clears_own_witness:
  "\<exists>w'. inbox_clear (inbox_of (server_env (c_baseUrl local_client)) local_client ''ana@x.test'') no_request_options busy_world =
      (Inr 1, w') \<and> world_ok w' \<and> messages_of (wd_store w') = [] \<and>
    fs_rules (wd_failures w') =
      filter (\<lambda>r. \<not> EqualFold (fr_address r) (TrimSpace ''ana@x.test'')) (fs_rules (wd_failures busy_world))"
  using inbox_clears_own [OF busy_ok, of "''ana@x.test''" local_client no_request_options]
  by (simp add: busy_messages ana_gets)

text \<open>
  C19: \<open>waitForEmails\<close> of an inbox resolves only with mail addressed to it: the first \<open>count\<close> such
  messages in order of arrival.
\<close>

theorem inbox_waits_for_own:
  assumes "world_ok w" "address \<noteq> []" "since_sendable (fget (w_filter opts) K_since)" "0 < count"
  shows "\<exists>r w'. inbox_waitForEmails (inbox_of (server_env (c_baseUrl c)) c address) (int count) opts w = Some (r, w') \<and>
    (\<forall>es. r = Inr es \<longrightarrow> es = map (new_Email \<circ> json_message) (take count (filter
      (\<lambda>m. hasRecipient m address \<and> Match ((go_of (w_filter opts))\<lparr>gf_Address := []\<rparr>) m)
      (messages_of (wd_store w')))))"
proof -
  let ?ib = "inbox_of (server_env (c_baseUrl c)) c address"
  have "\<exists>r w'. inbox_waitForEmails ?ib (int count) opts w = Some (r, w')"
    using server_waitForEmails [OF assms(1), of "opts\<lparr>w_filter := addressed ?ib (w_filter opts)\<rparr>" count c]
      sendable_addressed [OF assms(3), of ?ib] assms(4)
    by (fastforce simp: inbox_waitForEmails_def as_inbox_client_def)
  with own.emails_only_own [OF assms(1) inbox_of_client(1) [of "server_env (c_baseUrl c)" c address] _ assms(3,4)] assms(2) show ?thesis by fastforce
qed

theorem inbox_waits_for_own_witness:
  "\<exists>r w'. inbox_waitForEmails (inbox_of (server_env (c_baseUrl local_client)) local_client ''ana@x.test'') (int 1)
      no_options busy_world = Some (r, w') \<and>
    (\<forall>es. r = Inr es \<longrightarrow> es = map (new_Email \<circ> json_message) (take 1 (filter
      (\<lambda>m. hasRecipient m ''ana@x.test'' \<and> Match ((go_of (w_filter no_options))\<lparr>gf_Address := []\<rparr>) m)
      (messages_of (wd_store w')))))"
  by (rule inbox_waits_for_own [OF busy_ok _ quiet_ok(2)]) simp_all

text \<open>
  C20: A failure asked for through an inbox does not disturb deliveries to other addresses: the failure
  the server would report to them, if any, is the one it would have reported before.
\<close>

theorem inbox_fails_own:
  assumes "inbox_failNext (inbox_of (server_env (c_baseUrl c)) c address) x ro w = (Inr y, w')"
    "TrimSpace address \<noteq> []" "\<not> list_ex (\<lambda>rcpt. EqualFold rcpt (TrimSpace address)) recipients"
  shows "fst (Take st recipients (wd_failures w')) = fst (Take st recipients (wd_failures w))"
  using own.failNext_only_own [OF inbox_of_client(1) _ assms(1), of recipients st] assms(2,3)
  by (simp add: fst_Take)

definition no_failure_options :: failure_options where
  "no_failure_options = \<lparr>fo_stage = None, fo_code = None, fo_message = None, fo_address = None, fo_count = None\<rparr>"

theorem inbox_fails_own_witness:
  "\<exists>y w'. inbox_failNext (inbox_of (server_env (c_baseUrl local_client)) local_client ''a@x'') no_failure_options
      no_request_options quiet_world = (Inr y, w') \<and>
    fst (Take ''data'' [''b@x''] (wd_failures w')) = fst (Take ''data'' [''b@x''] (wd_failures quiet_world))"
proof -
  let ?ib = "inbox_of (server_env (c_baseUrl local_client)) local_client ''a@x''"
  obtain y w' where r: "inbox_failNext ?ib no_failure_options no_request_options quiet_world = (Inr y, w')"
    by (simp add: inbox_failNext_def as_inbox_client_def failNext_def then_op_def server_request Let_def
        handle_failures(2) addFailure_def media_type_def cut_def lower_def js_eval obj_spread_def no_failure_options_def
        decode_request_def Add_def filled_def validate_def quiet_world_def local_client_def with_failures_def
        writeJSON_def accepts_def http_ok_def return_op_def maxCount_def maxRules_def)
  from inbox_fails_own [OF this, of "[''b@x'']" "''data''"] r show ?thesis by (auto simp: js_eval)
qed

text \<open>
  C39: Created inboxes do not share mail: each address is the prefix, a dash, eight lower-case letters or digits and the
  domain, and two inboxes of one client with the same options have addresses that the server takes for the same
  (upper and lower case alike) only if each of their eight random bytes leaves the same remainder modulo 36.
\<close>

theorem createInbox_address:
  assumes "length bytes = 8" "length bytes' = 8"
  shows "(\<exists>code. ib_address (createInbox env c options bytes) =
      nullish (io_prefix options) ''test'' @ ''-'' @ code @ ''@'' @ nullish (io_domain options) (c_inboxDomain c) \<and>
      length code = 8 \<and> list_all (\<lambda>x. is_lower x \<or> is_digit x) code) \<and>
    (EqualFold (ib_address (createInbox env c options bytes)) (ib_address (createInbox env c options bytes')) \<longleftrightarrow>
      (\<forall>i < 8. unat (bytes ! i) mod 36 = unat (bytes' ! i) mod 36))"
  using randomId_chars [of bytes] assms same_code_iff [of bytes bytes']
  by (auto simp: createInbox_def Let_def randomId_def EqualFold_def toLowerCase_def)

theorem createInbox_address_witness:
  "\<not> EqualFold (ib_address (createInbox (server_env []) local_client \<lparr>io_prefix = None, io_domain = None\<rparr> [0, 1, 2, 3, 4, 5, 6, 7]))
     (ib_address (createInbox (server_env []) local_client \<lparr>io_prefix = None, io_domain = None\<rparr> [0, 1, 2, 3, 4, 5, 6, 44]))"
proof
  let ?b = "[0, 1, 2, 3, 4, 5, 6, 7] :: 8 word list" and ?b' = "[0, 1, 2, 3, 4, 5, 6, 44] :: 8 word list"
  let ?a = "\<lambda>b. ib_address (createInbox (server_env []) local_client \<lparr>io_prefix = None, io_domain = None\<rparr> b)"
  assume "EqualFold (?a ?b) (?a ?b')"
  from createInbox_address [of ?b ?b', THEN conjunct2, THEN iffD1, OF _ _ this]
  have "\<forall>i < 8. unat (?b ! i) mod 36 = unat (?b' ! i) mod 36" by simp
  from this [rule_format, of 7] show False by simp
qed

end
