(* ===== verification/Fixture.thy ===== *)
theory Fixture
  imports Inbox
begin

text \<open>
  The Playwright integration (\<open>packages/playwright/src\<close>): the \<open>mail\<close> fixture with its inboxes,
  what happens when a test ends (attaching mail to the report, clearing the inboxes), and the
  web-server entry of the configuration. The world of a fixture is the client's world and the
  report the test runner keeps.
\<close>

section \<open>JSON text\<close>

datatype json = JStr string | JArr "json list" | JObj "(string \<times> json) list"

definition spaces :: "nat \<Rightarrow> string" where
  "spaces n = replicate n (CHR '' '')"

text \<open>\<open>JSON.stringify(v, null, 2)\<close>, the text at an indentation.\<close>

fun stringify :: "nat \<Rightarrow> json \<Rightarrow> string" where
  "stringify ind (JStr s) = json_string s"
| "stringify ind (JArr []) = ''[]''"
| "stringify ind (JArr xs) =
     ''[\<newline>'' @ join '',\<newline>'' (map (\<lambda>x. spaces (ind + 2) @ stringify (ind + 2) x) xs) @ ''\<newline>'' @ spaces ind @ '']''"
| "stringify ind (JObj []) = ''{}''"
| "stringify ind (JObj ms) =
     ''{\<newline>'' @ join '',\<newline>'' (map (\<lambda>(k, x). spaces (ind + 2) @ json_string k @ '': '' @ stringify (ind + 2) x) ms) @
     ''\<newline>'' @ spaces ind @ ''}''"

section \<open>The report\<close>

record report_entry =
  re_name :: string
  re_contentType :: string
  re_body :: string

record test_info =
  ti_status :: string
  ti_expectedStatus :: string

datatype mailpeek_cleanup = Passed | Always | Never

type_synonym 'w test_world = "'w \<times> report_entry list"

definition on_world :: "('w, 'a) operation \<Rightarrow> ('w test_world, 'a) operation" where
  "on_world m t = (case m (fst t) of (r, w) \<Rightarrow> (r, (w, snd t)))"

definition attach :: "string \<Rightarrow> string \<Rightarrow> string \<Rightarrow> ('w test_world, unit) operation" where
  "attach name contentType body t =
     (Inr (), (fst t, snd t @ [\<lparr>re_name = name, re_contentType = contentType, re_body = body\<rparr>]))"

definition MAX_ATTACHED :: nat where "MAX_ATTACHED = 5"

definition summary_json :: "message_summary \<Rightarrow> json" where
  "summary_json m = JObj [(''id'', JStr (s_id m)), (''subject'', JStr (s_subject m)),
     (''from'', JStr (a_address (s_from m))), (''to'', JArr (map (JStr \<circ> a_address) (s_to m))),
     (''receivedAt'', JStr (s_createdAt m))]"

definition summary_body :: "mp_client \<Rightarrow> string \<Rightarrow> message_summary list \<Rightarrow> string" where
  "summary_body c address ms = stringify 0 (JObj [(''address'', JStr address),
     (''inspect'', JStr (inspectUrl c [(K_address, FStr address)])), (''messages'', JArr (map summary_json ms))])"

definition email_name :: "nat \<Rightarrow> message_summary \<Rightarrow> string" where
  "email_name i m = Prelude.slice (''email '' @ show_nat (i + 1) @ '' - '' @ or_str (s_subject m) ''(no subject)'') 0 80"

text \<open>One turn of the inner loop: the raw message, then its HTML when it has some.\<close>

definition no_opts :: request_options where
  "no_opts = \<lparr>ro_signal = False\<rparr>"

definition attach_email :: "'w env \<Rightarrow> mp_client \<Rightarrow> nat \<Rightarrow> message_summary \<Rightarrow> ('w test_world, unit) operation" where
  "attach_email env c i m =
     (let name = email_name i m in
      then_op (on_world (raw env c (s_id m) (init_of no_opts))) (\<lambda>body.
      then_op (attach (name @ ''.eml'') ''message/rfc822'' body) (\<lambda>_.
      then_op (on_world (get env c (s_id m) (init_of no_opts))) (\<lambda>e.
        if e_html e \<noteq> [] then attach (name @ ''.html'') ''text/html'' (e_html e) else return_op ()))))"

fun attach_list :: "'w env \<Rightarrow> mp_client \<Rightarrow> nat \<Rightarrow> message_summary list \<Rightarrow> ('w test_world, unit) operation" where
  "attach_list env c i [] = return_op ()"
| "attach_list env c i (m # ms) = then_op (attach_email env c i m) (\<lambda>_. attach_list env c (Suc i) ms)"

fun attachEmails :: "'w env \<Rightarrow> mp_client \<Rightarrow> 'w inbox list \<Rightarrow> ('w test_world, unit) operation" where
  "attachEmails env c [] = return_op ()"
| "attachEmails env c (ib # ibs) =
     then_op (on_world (inbox_messages ib [] no_opts)) (\<lambda>ms.
     then_op (attach (''mailpeek '' @ ib_address ib) ''application/json'' (summary_body c (ib_address ib) ms)) (\<lambda>_.
     then_op (attach_list env c 0 (Prelude.slice ms 0 (int MAX_ATTACHED))) (\<lambda>_. attachEmails env c ibs)))"

section \<open>The fixture\<close>

text \<open>
  A \<open>Set\<close> of inbox objects, in insertion order. An object is known by a reference: 0 is the
  worker's inbox, every created one gets a new number.
\<close>

record 'w fixture_state =
  fx_next :: nat
  fx_inboxes :: "(nat \<times> 'w inbox) list"

definition new_fixture :: "'w fixture_state" where
  "new_fixture = \<lparr>fx_next = 1, fx_inboxes = []\<rparr>"

definition set_add :: "nat \<times> 'w inbox \<Rightarrow> 'w fixture_state \<Rightarrow> 'w fixture_state" where
  "set_add p s = (if fst p \<in> fst ` set (fx_inboxes s) then s else s\<lparr>fx_inboxes := fx_inboxes s @ [p]\<rparr>)"

record 'w mail_fixture =
  mf_client :: mp_client
  mf_messages :: "message_filter \<Rightarrow> ('w, message_summary list) operation"
  mf_latest :: "message_filter \<Rightarrow> ('w, email option) operation"
  mf_waitFor :: "wait_options \<Rightarrow> 'w \<Rightarrow> ((mp_error + email) \<times> 'w) option"
  mf_waitForEmails :: "int \<Rightarrow> wait_options \<Rightarrow> 'w \<Rightarrow> ((mp_error + email list) \<times> 'w) option"
  mf_get :: "string \<Rightarrow> ('w, email) operation"
  mf_delete :: "string \<Rightarrow> ('w, unit) operation"
  mf_clear :: "message_filter \<Rightarrow> ('w, int) operation"
  mf_createInbox :: "inbox_options \<Rightarrow> 8 word list \<Rightarrow> 'w fixture_state \<Rightarrow> 'w inbox \<times> 'w fixture_state"
  mf_workerInbox :: "'w fixture_state \<Rightarrow> 'w inbox \<times> 'w fixture_state"

definition worker_inbox :: "'w env \<Rightarrow> mp_client \<Rightarrow> nat \<Rightarrow> 8 word list \<Rightarrow> 'w inbox" where
  "worker_inbox env c workerIndex bytes =
     createInbox env c \<lparr>io_prefix = Some (''worker-'' @ show_nat workerIndex), io_domain = None\<rparr> bytes"

definition mail_fixture_of :: "'w env \<Rightarrow> mp_client \<Rightarrow> 'w inbox \<Rightarrow> 'w mail_fixture" where
  "mail_fixture_of env c worker = \<lparr>
     mf_client = c,
     mf_messages = (\<lambda>f. messages env c f no_init),
     mf_latest = (\<lambda>f. latest env c f no_init),
     mf_waitFor = waitFor env c,
     mf_waitForEmails = waitForEmails env c,
     mf_get = (\<lambda>i. get env c i no_init),
     mf_delete = (\<lambda>i. delete env c i no_init),
     mf_clear = (\<lambda>f. clear env c f no_init),
     mf_createInbox = (\<lambda>options bytes s.
       let ib = createInbox env c options bytes
       in (ib, set_add (fx_next s, ib) (s\<lparr>fx_next := fx_next s + 1\<rparr>))),
     mf_workerInbox = (\<lambda>s. (worker, set_add (0, worker) s))\<rparr>"

text \<open>Clearing the inboxes when a test ends; a failure to clear one is ignored.\<close>

fun clear_all :: "'w inbox list \<Rightarrow> 'w \<Rightarrow> 'w" where
  "clear_all [] w = w"
| "clear_all (ib # ibs) w = clear_all ibs (snd (inbox_clear ib no_opts w))"

definition test_failed :: "test_info \<Rightarrow> bool" where
  "test_failed ti \<longleftrightarrow> ti_status ti \<noteq> ti_expectedStatus ti"

definition cleanup_wanted :: "mailpeek_cleanup \<Rightarrow> bool \<Rightarrow> bool" where
  "cleanup_wanted cleanup failed \<longleftrightarrow> cleanup = Always \<or> (cleanup = Passed \<and> \<not> failed)"

definition after_use :: "'w env \<Rightarrow> mp_client \<Rightarrow> mailpeek_cleanup \<Rightarrow> bool \<Rightarrow> test_info \<Rightarrow> 'w fixture_state \<Rightarrow>
    'w test_world \<Rightarrow> 'w test_world" where
  "after_use env c cleanup attachOnFailure ti s t =
     (let inboxes = map snd (fx_inboxes s);
          failed = test_failed ti;
          t1 = (if failed \<and> attachOnFailure then snd (attachEmails env c inboxes t) else t)
      in if cleanup_wanted cleanup failed then (clear_all inboxes (fst t1), snd t1) else t1)"

text \<open>The options of a test with their defaults, the worker's client, and a whole test: its body uses the fixture.\<close>

record test_options =
  to_url :: string
  to_cleanup :: mailpeek_cleanup
  to_attachOnFailure :: bool

definition default_test_options :: "string option \<Rightarrow> test_options" where
  "default_test_options var = \<lparr>to_url = or_str (nullish var []) ''http://localhost:8026'', to_cleanup = Passed, to_attachOnFailure = True\<rparr>"

definition worker_client :: "(string \<Rightarrow> url_parts option) \<Rightarrow> string option \<Rightarrow> test_options \<Rightarrow> mp_error + mp_client" where
  "worker_client URL var opts =
     new_Mailpeek URL var \<lparr>o_baseUrl = Some (to_url opts), o_auth = None, o_timeout = None,
       o_requestTimeout = None, o_inboxDomain = None\<rparr>"

definition run_test :: "'w env \<Rightarrow> mp_client \<Rightarrow> test_options \<Rightarrow> 'w inbox \<Rightarrow>
    ('w mail_fixture \<Rightarrow> 'w fixture_state \<times> 'w test_world \<Rightarrow> 'w fixture_state \<times> 'w test_world) \<Rightarrow> test_info \<Rightarrow>
    'w test_world \<Rightarrow> 'w test_world" where
  "run_test env c opts worker body ti t =
     (case body (mail_fixture_of env c worker) (new_fixture, t) of (s, t1) \<Rightarrow>
       after_use env c (to_cleanup opts) (to_attachOnFailure opts) ti s t1)"

section \<open>The web server entry\<close>

record web_server_options =
  wo_smtpPort :: "int option"
  wo_httpPort :: "int option"
  wo_image :: "string option"
  wo_binary :: "string option"
  wo_args :: "string list option"
  wo_reuseExistingServer :: "bool option"
  wo_timeout :: "int option"

record web_server =
  ws_command :: string
  ws_url :: string
  ws_reuseExistingServer :: bool
  ws_timeout :: int
  ws_stdout :: string
  ws_stderr :: string

text \<open>\<open>CI\<close> is the value of that environment variable.\<close>

definition mailpeekWebServer :: "string option \<Rightarrow> web_server_options \<Rightarrow> web_server" where
  "mailpeekWebServer CI options =
     (let smtpPort = show_int (nullish (wo_smtpPort options) 1026);
          httpPort = show_int (nullish (wo_httpPort options) 8026);
          flags = join '' '' ([''--smtp-port '' @ smtpPort, ''--http-port '' @ httpPort] @ nullish (wo_args options) []);
          command = (if truthy (wo_binary options) then nullish (wo_binary options) [] @ '' '' @ flags
            else ''docker run --rm -p '' @ smtpPort @ '':'' @ smtpPort @ '' -p '' @ httpPort @ '':'' @ httpPort @ '' '' @
              nullish (wo_image options) ''4ndbrslz/mailpeek'' @ '' '' @ flags)
      in \<lparr>ws_command = command, ws_url = ''http://localhost:'' @ httpPort @ ''/api/v1/health'',
          ws_reuseExistingServer = nullish (wo_reuseExistingServer options) (\<not> truthy CI),
          ws_timeout = nullish (wo_timeout options) 60000, ws_stdout = ''ignore'', ws_stderr = ''pipe''\<rparr>)"

section \<open>Clearing\<close>

text \<open>The inboxes of a fixture talk to the same server, and each has an address.\<close>

definition inboxes_ok :: "world inbox_client \<Rightarrow> world inbox list \<Rightarrow> bool" where
  "inboxes_ok ic ibs \<longleftrightarrow> (\<forall>ib \<in> set ibs. ib_client ib = ic \<and> ib_address ib \<noteq> [])"

abbreviation server_client :: "mp_client \<Rightarrow> world inbox_client" where
  "server_client c \<equiv> as_inbox_client (server_env (c_baseUrl c)) c"

lemma clear_all_spec:
  "world_ok w \<Longrightarrow> inboxes_ok (server_client c) ibs \<Longrightarrow>
    world_ok (clear_all ibs w) \<and>
    messages_of (wd_store (clear_all ibs w)) =
      filter (\<lambda>m. \<forall>ib \<in> set ibs. \<not> hasRecipient m (ib_address ib)) (messages_of (wd_store w)) \<and>
    fs_rules (wd_failures (clear_all ibs w)) =
      filter (\<lambda>r. \<forall>ib \<in> set ibs. \<not> EqualFold (fr_address r) (TrimSpace (ib_address ib))) (fs_rules (wd_failures w))"
proof (induction ibs arbitrary: w)
  case (Cons ib ibs)
  then have ib: "ib_client ib = server_client c" "ib_address ib \<noteq> []" and ibs: "inboxes_ok (server_client c) ibs"
    by (simp_all add: inboxes_ok_def)
  from own.clear_only_own [OF Cons.prems(1) ib, of no_opts] obtain n w' where
    w': "inbox_clear ib no_opts w = (Inr n, w')" "world_ok w'"
    "messages_of (wd_store w') = filter (\<lambda>m. \<not> hasRecipient m (ib_address ib)) (messages_of (wd_store w))"
    "fs_rules (wd_failures w') =
      filter (\<lambda>r. \<not> EqualFold (fr_address r) (TrimSpace (ib_address ib))) (fs_rules (wd_failures w))" by auto
  from Cons.IH [OF w'(2) ibs] show ?case by (simp add: w'(1,3,4) conj_commute)
qed simp

text \<open>What the fixture's own methods do to its set of inboxes.\<close>

definition fixture_ok :: "mp_client \<Rightarrow> world fixture_state \<Rightarrow> bool" where
  "fixture_ok c s \<longleftrightarrow> inboxes_ok (server_client c) (map snd (fx_inboxes s)) \<and> distinct (map fst (fx_inboxes s)) \<and>
     (\<forall>p \<in> set (fx_inboxes s). fst p < fx_next s) \<and> 0 < fx_next s"

lemma createInbox_ok: "ib_client (createInbox env c options bytes) = as_inbox_client env c"
  "ib_address (createInbox env c options bytes) \<noteq> []"
  by (simp_all add: createInbox_def Let_def)

lemma set_add_ok:
  assumes "fixture_ok c s" "ib_client ib = server_client c" "ib_address ib \<noteq> []" "i < fx_next s"
  shows "fixture_ok c (set_add (i, ib) s)"
  using assms by (auto simp: fixture_ok_def inboxes_ok_def set_add_def)

lemma fresh_ok: "fixture_ok c s \<Longrightarrow> fixture_ok c (s\<lparr>fx_next := fx_next s + 1\<rparr>)"
  by (auto simp: fixture_ok_def)

lemma mail_fixture_ok:
  fixes worker :: "world inbox"
  assumes "fixture_ok c s" "ib_client worker = server_client c" "ib_address worker \<noteq> []"
  shows "fixture_ok c (snd (mf_createInbox (mail_fixture_of (server_env (c_baseUrl c)) c worker) options bytes s))"
    and "fixture_ok c (snd (mf_workerInbox (mail_fixture_of (server_env (c_baseUrl c)) c worker) s))"
  using set_add_ok [OF fresh_ok [OF assms(1)] createInbox_ok, of "fx_next s"] set_add_ok [OF assms, of 0] assms(1)
  by (simp_all add: mail_fixture_of_def Let_def fixture_ok_def)

section \<open>Attaching\<close>

lemma server_raw:
  assumes base: "c_baseUrl c = base" and r: "Raw mid (wd_store w) = Some body" and ne: "mid \<noteq> []"
  shows "raw (server_env base) c mid (init_of ro) w = (Inr body, w)"
proof -
  have q: "CHR ''?'' \<notin> set (''/messages/'' @ encodeURIComponent mid @ ''/raw'')"
    and sl: "CHR ''/'' \<notin> set (encodeURIComponent mid)"
    using component_plain [of _ mid] by auto
  have "tl (split_on (CHR ''/'') (''/messages/'' @ encodeURIComponent mid @ ''/raw'')) =
      [''messages'', encodeURIComponent mid, ''raw'']"
    using split_on_append [OF sl, of "''raw''"] by simp
  then have "handle_path ''GET'' post (''/messages/'' @ encodeURIComponent mid @ ''/raw'') w = (rawMessage mid (wd_store w), w)" for post
    using cut_none [OF q] ne by (simp add: handle_path_def route_def route_get_def path_id_def del: append.simps)
  with r show ?thesis
    by (simp add: raw_def then_op_def server_request [OF base] Let_def rawMessage_def accepts_def http_ok_def return_op_def)
qed

text \<open>What the report gets: a summary of each inbox, and of its newest messages the source and the
  HTML part.\<close>

definition email_entries :: "store_state \<Rightarrow> nat \<Rightarrow> mail_message \<Rightarrow> report_entry list" where
  "email_entries s i m =
     \<lparr>re_name = email_name i (Summary m) @ ''.eml'', re_contentType = ''message/rfc822'', re_body = the (Raw (mm_id m) s)\<rparr> #
     (if mm_html m = [] then []
      else [\<lparr>re_name = email_name i (Summary m) @ ''.html'', re_contentType = ''text/html'', re_body = mm_html m\<rparr>])"

fun list_entries :: "store_state \<Rightarrow> nat \<Rightarrow> mail_message list \<Rightarrow> report_entry list" where
  "list_entries s i [] = []"
| "list_entries s i (m # ms) = email_entries s i m @ list_entries s (Suc i) ms"

definition inbox_entries :: "mp_client \<Rightarrow> store_state \<Rightarrow> 'w inbox \<Rightarrow> report_entry list" where
  "inbox_entries c s ib =
     (let own = rev (filter (\<lambda>m. hasRecipient m (ib_address ib)) (messages_of s)) in
      \<lparr>re_name = ''mailpeek '' @ ib_address ib, re_contentType = ''application/json'',
        re_body = summary_body c (ib_address ib) (map Summary own)\<rparr> # list_entries s 0 (take MAX_ATTACHED own))"

lemma Raw_messages: "store_ok s \<Longrightarrow> m \<in> set (messages_of s) \<Longrightarrow> Raw (mm_id m) s = Some (the (Raw (mm_id m) s))"
  using Get_messages [of s m] by (auto simp: Get_def Raw_def)

lemma attach_email_spec:
  assumes ok: "world_ok w" and m: "m \<in> set (messages_of (wd_store w))"
  shows "attach_email (server_env (c_baseUrl c)) c i (Summary m) (w, entries0) =
    (Inr (), (w, entries0 @ email_entries (wd_store w) i m))"
proof -
  have so: "store_ok (wd_store w)" using ok by (simp add: world_ok_def mail_ok_def)
  have "dated m" using ok m by (auto simp: world_ok_def mail_ok_def list_all_iff all_messages_def)
  then have g: "get (server_env (c_baseUrl c)) c (mm_id m) (init_of no_opts) w = (Inr (new_Email (json_message m)), w)"
    using Get_messages [OF so m] by (intro server_get) (auto simp: dated_def)
  have r: "raw (server_env (c_baseUrl c)) c (mm_id m) (init_of no_opts) w = (Inr (the (Raw (mm_id m) (wd_store w))), w)"
    using \<open>dated m\<close> by (intro server_raw [OF refl Raw_messages [OF so m]]) (simp add: dated_def)
  show ?thesis
    by (simp add: attach_email_def then_op_def on_world_def g r attach_def return_op_def email_entries_def Let_def
        new_Email_def json_message_def Summary_def)
qed

lemma attach_list_spec:
  "world_ok w \<Longrightarrow> set ms \<subseteq> set (messages_of (wd_store w)) \<Longrightarrow>
    attach_list (server_env (c_baseUrl c)) c i (map Summary ms) (w, entries0) =
      (Inr (), (w, entries0 @ list_entries (wd_store w) i ms))"
  by (induction ms arbitrary: i entries0) (simp_all add: return_op_def then_op_def attach_email_spec)

lemma inbox_messages_spec:
  assumes "world_ok w" "ib_client ib = server_client c" "ib_address ib \<noteq> []"
  shows "inbox_messages ib [] no_opts w =
    (Inr (map Summary (rev (filter (\<lambda>m. hasRecipient m (ib_address ib)) (messages_of (wd_store w))))), w)"
proof -
  have "Match (zero_filter\<lparr>gf_Address := []\<rparr>) m" for m by (simp add: Match_iff zero_filter_def)
  with own.messages_only_own [OF assms, of "[]" no_opts] show ?thesis by (simp add: since_sendable_def)
qed

lemma attachEmails_spec:
  "world_ok w \<Longrightarrow> inboxes_ok (server_client c) ibs \<Longrightarrow>
    attachEmails (server_env (c_baseUrl c)) c ibs (w, entries0) =
      (Inr (), (w, entries0 @ concat (map (inbox_entries c (wd_store w)) ibs)))"
proof (induction ibs arbitrary: entries0)
  case (Cons ib ibs)
  let ?own = "rev (filter (\<lambda>m. hasRecipient m (ib_address ib)) (messages_of (wd_store w)))"
  from Cons.prems have ib: "ib_client ib = server_client c" "ib_address ib \<noteq> []" and ibs: "inboxes_ok (server_client c) ibs"
    by (simp_all add: inboxes_ok_def)
  have "set (take MAX_ATTACHED ?own) \<subseteq> set (messages_of (wd_store w))" by (auto dest: in_set_takeD)
  note l = attach_list_spec [OF Cons.prems(1) this, of c 0]
  have t: "Prelude.slice (map Summary ?own) 0 (int MAX_ATTACHED) = map Summary (take MAX_ATTACHED ?own)"
    by (simp only: slice_take take_map)
  show ?case
    using Cons.IH [OF Cons.prems(1) ibs] inbox_messages_spec [OF Cons.prems(1) ib]
    by (simp add: then_op_def on_world_def attach_def t l inbox_entries_def Let_def del: filter.simps)
qed (simp add: return_op_def)

lemma list_entries_bound: "length (list_entries s i ms) \<le> 2 * length ms"
proof (induction ms arbitrary: i)
  case (Cons m ms)
  have "length (email_entries s i m) \<le> 2" by (simp add: email_entries_def)
  with Cons [of "Suc i"] show ?case by simp
qed simp

lemma inbox_entries_bound: "length (inbox_entries c s ib) \<le> 11"
proof -
  have "length (list_entries s 0 (take MAX_ATTACHED ms)) \<le> 10" for ms
    using list_entries_bound [of s 0 "take MAX_ATTACHED ms"] by (simp add: MAX_ATTACHED_def)
  then show ?thesis by (simp add: inbox_entries_def Let_def)
qed

section \<open>The properties\<close>

text \<open>
  C6: When a test ends, its inboxes are cleared exactly when the setting asks for it (always, or passed and
  the test passed): then the mail and the failure rules of its inboxes are gone and everything else
  is still there; otherwise the server's state is untouched.
\<close>

theorem cleanup_policy:
  assumes "world_ok w" "fixture_ok c s"
  shows "let w' = fst (after_use (server_env (c_baseUrl c)) c cleanup attachOnFailure ti s (w, report));
             inboxes = map snd (fx_inboxes s)
         in if cleanup = Always \<or> cleanup = Passed \<and> ti_status ti = ti_expectedStatus ti
            then world_ok w' \<and> messages_of (wd_store w') =
                filter (\<lambda>m. \<forall>ib \<in> set inboxes. \<not> hasRecipient m (ib_address ib)) (messages_of (wd_store w)) \<and>
              fs_rules (wd_failures w') =
                filter (\<lambda>r. \<forall>ib \<in> set inboxes. \<not> EqualFold (fr_address r) (TrimSpace (ib_address ib)))
                  (fs_rules (wd_failures w))
            else w' = w"
proof -
  have ibs: "inboxes_ok (server_client c) (map snd (fx_inboxes s))" using assms(2) by (simp add: fixture_ok_def)
  note spec = clear_all_spec [OF assms(1) ibs] attachEmails_spec [OF assms(1) ibs, of report]
  then show ?thesis
    by (simp add: after_use_def Let_def cleanup_wanted_def test_failed_def del: set_map)
qed

text \<open>A test that has made one inbox, to which the server holds a message.\<close>

definition anas_fixture :: "world fixture_state" where
  "anas_fixture = set_add (1, inbox_of (server_env (c_baseUrl local_client)) local_client ''ana@x.test'') (new_fixture\<lparr>fx_next := 2\<rparr>)"

lemma anas_fixture_ok: "fixture_ok local_client anas_fixture"
  by (simp add: fixture_ok_def inboxes_ok_def anas_fixture_def set_add_def new_fixture_def inbox_of_client)

theorem cleanup_policy_witness:
  "let w' = fst (after_use (server_env (c_baseUrl local_client)) local_client Passed True
         \<lparr>ti_status = ''passed'', ti_expectedStatus = ''passed''\<rparr> anas_fixture (busy_world, []));
       inboxes = map snd (fx_inboxes anas_fixture)
   in if Passed = Always \<or> Passed = Passed \<and>
        ti_status \<lparr>ti_status = ''passed'', ti_expectedStatus = ''passed''\<rparr> =
        ti_expectedStatus \<lparr>ti_status = ''passed'', ti_expectedStatus = ''passed''\<rparr>
      then world_ok w' \<and> messages_of (wd_store w') =
          filter (\<lambda>m. \<forall>ib \<in> set inboxes. \<not> hasRecipient m (ib_address ib)) (messages_of (wd_store busy_world)) \<and>
        fs_rules (wd_failures w') =
          filter (\<lambda>r. \<forall>ib \<in> set inboxes. \<not> EqualFold (fr_address r) (TrimSpace (ib_address ib)))
            (fs_rules (wd_failures busy_world))
      else w' = busy_world"
  by (rule cleanup_policy [OF busy_ok]) (rule anas_fixture_ok)

text \<open>
  With the default options a test that ends as expected leaves no mail behind for any inbox it used, whatever its body did.
\<close>

theorem passed_test_leaves_nothing:
  assumes "body (mail_fixture_of (server_env (c_baseUrl c)) c worker) (new_fixture, t) = (s, t1)"
    "world_ok (fst t1)" "fixture_ok c s" "ti_status ti = ti_expectedStatus ti" "ib \<in> snd ` set (fx_inboxes s)"
    "m \<in> set (messages_of (wd_store (fst (run_test (server_env (c_baseUrl c)) c (default_test_options var) worker body ti t))))"
  shows "\<not> hasRecipient m (ib_address ib)"
proof -
  have "inboxes_ok (server_client c) (map snd (fx_inboxes s))" using assms(3) by (simp add: fixture_ok_def)
  from clear_all_spec [OF assms(2) this] assms(1,4-6) show ?thesis
    by (auto simp: run_test_def after_use_def default_test_options_def test_failed_def cleanup_wanted_def Let_def)
qed

text \<open>
  C21: A failed test's report gets, for each of its inboxes in the order they were made, the summary of all
  its mail and the source (and the HTML part, when there is one) of its five newest messages: at
  most eleven entries an inbox. The report of a passed test is left alone.
\<close>

theorem failed_test_report:
  assumes "world_ok w" "fixture_ok c s"
  shows "snd (after_use (server_env (c_baseUrl c)) c cleanup True ti s (w, report)) =
      report @ (if ti_status ti = ti_expectedStatus ti then []
        else concat (map (inbox_entries c (wd_store w)) (map snd (fx_inboxes s)))) \<and>
    (\<forall>ib. length (inbox_entries c (wd_store w) (ib :: world inbox)) \<le> 11)"
proof -
  have ibs: "inboxes_ok (server_client c) (map snd (fx_inboxes s))" using assms(2) by (simp add: fixture_ok_def)
  show ?thesis
    using attachEmails_spec [OF assms(1) ibs, of report]
    by (simp add: after_use_def Let_def test_failed_def inbox_entries_bound)
qed

theorem failed_test_report_witness:
  "snd (after_use (server_env (c_baseUrl local_client)) local_client Never True
       \<lparr>ti_status = ''failed'', ti_expectedStatus = ''passed''\<rparr> anas_fixture (busy_world, [])) =
     [] @ (if ti_status \<lparr>ti_status = ''failed'', ti_expectedStatus = ''passed''\<rparr> =
          ti_expectedStatus \<lparr>ti_status = ''failed'', ti_expectedStatus = ''passed''\<rparr> then []
        else concat (map (inbox_entries local_client (wd_store busy_world)) (map snd (fx_inboxes anas_fixture)))) \<and>
    (\<forall>ib. length (inbox_entries local_client (wd_store busy_world) (ib :: world inbox)) \<le> 11)"
  by (rule failed_test_report [OF busy_ok]) (rule anas_fixture_ok)

text \<open>
  The set of inboxes stays well-formed: whatever inboxes a test creates or takes from its worker, each
  object is in the set once, talks to the test's server and has an address.
\<close>

theorem fixture_inboxes_ok:
  assumes "fixture_ok c s" "worker = worker_inbox (server_env (c_baseUrl c)) c workerIndex seed"
  shows "fixture_ok c (snd (mf_createInbox (mail_fixture_of (server_env (c_baseUrl c)) c worker) options bytes s)) \<and>
    fixture_ok c (snd (mf_workerInbox (mail_fixture_of (server_env (c_baseUrl c)) c worker) s)) \<and>
    snd (mf_workerInbox (mail_fixture_of (server_env (c_baseUrl c)) c worker)
      (snd (mf_workerInbox (mail_fixture_of (server_env (c_baseUrl c)) c worker) s))) =
    snd (mf_workerInbox (mail_fixture_of (server_env (c_baseUrl c)) c worker) s)"
proof -
  have "ib_client worker = server_client c" "ib_address worker \<noteq> []"
    using createInbox_ok by (simp_all add: assms(2) worker_inbox_def)
  with mail_fixture_ok [OF assms(1)] show ?thesis by (simp add: mail_fixture_of_def set_add_def)
qed

theorem fixture_inboxes_ok_witness:
  "let worker = worker_inbox (server_env (c_baseUrl local_client)) local_client 0 [];
       mail = mail_fixture_of (server_env (c_baseUrl local_client)) local_client worker;
       s = new_fixture :: world fixture_state
   in fixture_ok local_client (snd (mf_createInbox mail \<lparr>io_prefix = None, io_domain = None\<rparr> [] s)) \<and>
      fixture_ok local_client (snd (mf_workerInbox mail s)) \<and>
      snd (mf_workerInbox mail (snd (mf_workerInbox mail s))) = snd (mf_workerInbox mail s)"
  unfolding Let_def
  by (rule fixture_inboxes_ok) (simp_all add: fixture_ok_def inboxes_ok_def new_fixture_def)

lemma show_int_no_space: "CHR '' '' \<notin> set (show_int i)"
proof -
  have "\<not> is_digit (CHR '' '')" by (simp add: is_digit_def)
  then have "CHR '' '' \<notin> set (show_nat n)" for n using show_nat_digits by blast
  then show ?thesis by (simp add: show_int_def)
qed

text \<open>
  The command of the web-server entry starts the given binary, or the Docker image with both ports
  published, with the two port flags and the extra arguments; and the address polled for
  readiness is the health route on the same HTTP port.
\<close>

theorem web_server_command:
  assumes "wo_args options = None" "CHR '' '' \<notin> set (nullish (wo_binary options) [])"
    "CHR '' '' \<notin> set (nullish (wo_image options) ''4ndbrslz/mailpeek'')"
  shows "let smtp = show_int (nullish (wo_smtpPort options) 1026); http = show_int (nullish (wo_httpPort options) 8026)
    in split_on (CHR '' '') (ws_command (mailpeekWebServer CI options)) =
      (if truthy (wo_binary options) then [nullish (wo_binary options) []]
       else [''docker'', ''run'', ''--rm'', ''-p'', smtp @ '':'' @ smtp, ''-p'', http @ '':'' @ http,
         nullish (wo_image options) ''4ndbrslz/mailpeek'']) @ [''--smtp-port'', smtp, ''--http-port'', http] \<and>
      ws_url (mailpeekWebServer CI options) = ''http://localhost:'' @ http @ ''/api/v1/health''"
proof -
  let ?smtp = "show_int (nullish (wo_smtpPort options) 1026)" and ?http = "show_int (nullish (wo_httpPort options) 8026)"
  let ?img = "nullish (wo_image options) ''4ndbrslz/mailpeek''" and ?bin = "nullish (wo_binary options) []"
  let ?words = "(if truthy (wo_binary options) then [?bin]
       else [''docker'', ''run'', ''--rm'', ''-p'', ?smtp @ '':'' @ ?smtp, ''-p'', ?http @ '':'' @ ?http, ?img]) @
     [''--smtp-port'', ?smtp, ''--http-port'', ?http]"
  have "ws_command (mailpeekWebServer CI options) = join '' '' ?words"
    using assms(1) by (simp add: mailpeekWebServer_def Let_def del: nullish_def) (simp add: nullish_def)
  moreover have "split_on (CHR '' '') (join '' '' ?words) = ?words"
    using assms(2,3) show_int_no_space by (intro split_on_join) (auto simp del: nullish_def)
  ultimately show ?thesis by (simp add: mailpeekWebServer_def Let_def del: nullish_def)
qed

definition default_server :: web_server_options where
  "default_server = \<lparr>wo_smtpPort = None, wo_httpPort = None, wo_image = None, wo_binary = None, wo_args = None,
     wo_reuseExistingServer = None, wo_timeout = None\<rparr>"

theorem web_server_command_witness:
  "let smtp = show_int (nullish (wo_smtpPort default_server) 1026); http = show_int (nullish (wo_httpPort default_server) 8026)
    in split_on (CHR '' '') (ws_command (mailpeekWebServer None default_server)) =
      (if truthy (wo_binary default_server) then [nullish (wo_binary default_server) []]
       else [''docker'', ''run'', ''--rm'', ''-p'', smtp @ '':'' @ smtp, ''-p'', http @ '':'' @ http,
         nullish (wo_image default_server) ''4ndbrslz/mailpeek'']) @ [''--smtp-port'', smtp, ''--http-port'', http] \<and>
      ws_url (mailpeekWebServer None default_server) = ''http://localhost:'' @ http @ ''/api/v1/health''"
  by (rule web_server_command) (simp_all add: default_server_def)

end
