(* ===== verification/Catalogues.thy ===== *)
theory Catalogues
  imports Prelude
begin

text \<open>
  The texts of the web interface in its languages (\<open>web/src/i18n/locales\<close>): one table of keys and
  texts a language, in the order of the source and cut into sections, European Portuguese as changes
  to the Brazilian. A text is the bytes of its UTF-8 encoding, as in the source files; the
  characters that are not ASCII are named by their code points. \<open>I18n\<close> shows that the tables have the same keys and placeholders.
\<close>

type_synonym catalogue = "(string \<times> string) list"

abbreviation u00AB :: string where "u00AB \<equiv> [CHR 0xC2, CHR 0xAB]"
abbreviation u00B7 :: string where "u00B7 \<equiv> [CHR 0xC2, CHR 0xB7]"
abbreviation u00BB :: string where "u00BB \<equiv> [CHR 0xC2, CHR 0xBB]"
abbreviation u00BF :: string where "u00BF \<equiv> [CHR 0xC2, CHR 0xBF]"
abbreviation u00C0 :: string where "u00C0 \<equiv> [CHR 0xC3, CHR 0x80]"
abbreviation u00C9 :: string where "u00C9 \<equiv> [CHR 0xC3, CHR 0x89]"
abbreviation u00E0 :: string where "u00E0 \<equiv> [CHR 0xC3, CHR 0xA0]"
abbreviation u00E1 :: string where "u00E1 \<equiv> [CHR 0xC3, CHR 0xA1]"
abbreviation u00E3 :: string where "u00E3 \<equiv> [CHR 0xC3, CHR 0xA3]"
abbreviation u00E7 :: string where "u00E7 \<equiv> [CHR 0xC3, CHR 0xA7]"
abbreviation u00E8 :: string where "u00E8 \<equiv> [CHR 0xC3, CHR 0xA8]"
abbreviation u00E9 :: string where "u00E9 \<equiv> [CHR 0xC3, CHR 0xA9]"
abbreviation u00EA :: string where "u00EA \<equiv> [CHR 0xC3, CHR 0xAA]"
abbreviation u00ED :: string where "u00ED \<equiv> [CHR 0xC3, CHR 0xAD]"
abbreviation u00EE :: string where "u00EE \<equiv> [CHR 0xC3, CHR 0xAE]"
abbreviation u00F1 :: string where "u00F1 \<equiv> [CHR 0xC3, CHR 0xB1]"
abbreviation u00F3 :: string where "u00F3 \<equiv> [CHR 0xC3, CHR 0xB3]"
abbreviation u00F5 :: string where "u00F5 \<equiv> [CHR 0xC3, CHR 0xB5]"
abbreviation u00FA :: string where "u00FA \<equiv> [CHR 0xC3, CHR 0xBA]"
abbreviation u2019 :: string where "u2019 \<equiv> [CHR 0xE2, CHR 0x80, CHR 0x99]"
abbreviation u201C :: string where "u201C \<equiv> [CHR 0xE2, CHR 0x80, CHR 0x9C]"
abbreviation u201D :: string where "u201D \<equiv> [CHR 0xE2, CHR 0x80, CHR 0x9D]"
abbreviation u2026 :: string where "u2026 \<equiv> [CHR 0xE2, CHR 0x80, CHR 0xA6]"

definition enUS_app :: catalogue where
  "enUS_app = [
    (''app.inbox'', ''Inbox''),
    (''app.emptyList'', ''Your incoming emails will appear here.''),
    (''app.loadError'', ''Could not load emails: {error}''),
    (''app.messageError'', ''Could not load email: {error}''),
    (''error.network'', ''Mailpeek can't be reached. Is it still running?''),
    (''error.unauthorized'', ''your session has ended. Sign in again.''),
    (''error.notFound'', ''it no longer exists (it may have been deleted).''),
    (''error.server'', ''the server failed (HTTP {status}).''),
    (''error.http'', ''the request was refused (HTTP {status}).''),
    (''error.unknown'', ''unexpected error.''),
    (''status.live'', ''Live''),
    (''status.connecting'', ''Reconnecting''),
    (''status.offline'', ''Offline''),
    (''status.title'', ''Realtime updates''),
    (''smtp.copy'', ''Copy SMTP address''),
    (''smtp.loginRequired'', ''SMTP login required''),
    (''smtp.loginRequiredTitle'', ''SMTP login required (set with MAILPEEK_SMTP_AUTH)'')]"

definition enUS_header :: catalogue where
  "enUS_header = [
    (''header.search'', ''Search emails...''),
    (''header.searchLabel'', ''Search emails''),
    (''header.clearSearch'', ''Clear search''),
    (''header.clear'', ''Clear''),
    (''header.confirmClear'', ''Confirm clear''),
    (''header.clearInbox'', ''Clear inbox''),
    (''header.sound'', ''New email sound''),
    (''header.soundOn'', ''Sound on for new email (click to mute)''),
    (''header.soundOff'', ''Sound off for new email''),
    (''header.list'', ''Email list''),
    (''header.showList'', ''Show the email list ( [ )''),
    (''header.hideList'', ''Hide the email list ( [ )''),
    (''header.signOut'', ''Sign out''),
    (''header.language'', ''Language''),
    (''header.theme'', ''Dark theme''),
    (''header.themeToLight'', ''Switch to the light theme''),
    (''header.themeToDark'', ''Switch to the dark theme''),
    (''header.badge'', ''Local workspace''),
    (''address.unknown'', ''(unknown)''),
    (''attachment.file'', ''File''),
    (''language.auto'', ''Automatic'')]"

definition enUS_list :: catalogue where
  "enUS_list = [
    (''list.new'', ''New''),
    (''list.noSubject'', ''(no subject)''),
    (''list.to'', ''To: {list}''),
    (''list.none'', ''(none)''),
    (''list.loadingMore'', ''Loading more'' @ u2026),
    (''list.attachments'', ''Attachments: {count}''),
    (''empty.title'', ''No emails yet''),
    (''empty.configure'', ''Configure your application to send emails to:''),
    (''empty.configureSidebar'', ''Configure your application to send emails to the SMTP address at the bottom of the list.''),
    (''empty.login'', ''Login required: use the username and password set with {env}.''),
    (''empty.footer'', ''Captured locally. Updated instantly.''),
    (''empty.noResults'', ''No emails match '' @ u201C @ ''{query}'' @ u201D)]"

definition enUS_view :: catalogue where
  "enUS_view = [
    (''view.email'', ''Email''),
    (''view.back'', ''Back to inbox''),
    (''view.download'', ''Download .eml''),
    (''view.delete'', ''Delete email''),
    (''view.details'', ''Email details''),
    (''view.showDetails'', ''Show details (From, To, date)''),
    (''view.hideDetails'', ''Hide details for a larger preview''),
    (''view.from'', ''From''),
    (''view.to'', ''To''),
    (''view.cc'', ''Cc''),
    (''view.replyTo'', ''Reply-To''),
    (''view.received'', ''Received''),
    (''view.tabs'', ''Views''),
    (''tab.html'', ''HTML''),
    (''tab.text'', ''Text''),
    (''tab.headers'', ''Headers''),
    (''tab.raw'', ''Raw''),
    (''tab.attachments'', ''Attachments''),
    (''tab.links'', ''Links'')]"

definition enUS_html :: catalogue where
  "enUS_html = [
    (''html.none'', ''This email has no HTML part.''),
    (''html.preview'', ''Preview''),
    (''html.frame'', ''HTML preview''),
    (''html.fullscreen'', ''Full screen preview''),
    (''html.fullscreenTitle'', ''Full screen (Esc to close)''),
    (''html.close'', ''Close full screen''),
    (''html.closeTitle'', ''Close (Esc)''),
    (''width.desktop'', ''Desktop width''),
    (''width.tablet'', ''Tablet width (768px)''),
    (''width.mobile'', ''Mobile width (375px)''),
    (''text.none'', ''This email has no plain text part.''),
    (''raw.loading'', ''Loading'' @ u2026),
    (''raw.error'', ''Could not load raw source: {error}''),
    (''copy.copy'', ''Copy''),
    (''copy.copied'', ''Copied'')]"

definition enUS_parts :: catalogue where
  "enUS_parts = [
    (''attachments.none'', ''No attachments.''),
    (''attachments.download'', ''Download''),
    (''attachments.open'', ''Open''),
    (''attachments.preview'', ''Preview of {name}''),
    (''attachments.inline'', ''inline''),
    (''links.none'', ''No links found.''),
    (''links.noText'', ''(no text)''),
    (''links.copy'', ''Copy URL''),
    (''links.openTitle'', ''Open in new tab''),
    (''links.open'', ''Open {target}''),
    (''resize.label'', ''Resize email list''),
    (''resize.title'', ''Drag to resize '' @ u00B7 @ '' double-click to reset'')]"

definition enUS :: catalogue where
  "enUS = enUS_app @ enUS_header @ enUS_list @ enUS_view @ enUS_html @ enUS_parts"

definition esES_app :: catalogue where
  "esES_app = [
    (''app.inbox'', ''Bandeja de entrada''),
    (''app.emptyList'', ''Los correos recibidos aparecer'' @ u00E1 @ ''n aqu'' @ u00ED @ ''.''),
    (''app.loadError'', ''No se pudieron cargar los correos: {error}''),
    (''app.messageError'', ''No se pudo cargar el correo: {error}''),
    (''error.network'', ''no se puede conectar con Mailpeek. '' @ u00BF @ ''Sigue en marcha?''),
    (''error.unauthorized'', ''tu sesi'' @ u00F3 @ ''n ha terminado. Vuelve a iniciar sesi'' @ u00F3 @ ''n.''),
    (''error.notFound'', ''ya no existe (puede que se haya eliminado).''),
    (''error.server'', ''el servidor ha fallado (HTTP {status}).''),
    (''error.http'', ''se ha rechazado la solicitud (HTTP {status}).''),
    (''error.unknown'', ''error inesperado.''),
    (''status.live'', ''En directo''),
    (''status.connecting'', ''Reconectando''),
    (''status.offline'', ''Sin conexi'' @ u00F3 @ ''n''),
    (''status.title'', ''Actualizaciones en tiempo real''),
    (''smtp.copy'', ''Copiar direcci'' @ u00F3 @ ''n SMTP''),
    (''smtp.loginRequired'', ''Inicio de sesi'' @ u00F3 @ ''n SMTP obligatorio''),
    (''smtp.loginRequiredTitle'', ''Inicio de sesi'' @ u00F3 @ ''n SMTP obligatorio (configurado con MAILPEEK_SMTP_AUTH)'')]"

definition esES_header :: catalogue where
  "esES_header = [
    (''header.search'', ''Buscar correos...''),
    (''header.searchLabel'', ''Buscar correos''),
    (''header.clearSearch'', ''Borrar b'' @ u00FA @ ''squeda''),
    (''header.clear'', ''Vaciar''),
    (''header.confirmClear'', ''Confirmar vaciado''),
    (''header.clearInbox'', ''Vaciar la bandeja de entrada''),
    (''header.sound'', ''Sonido de correo nuevo''),
    (''header.soundOn'', ''Sonido activado para correos nuevos (clic para silenciar)''),
    (''header.soundOff'', ''Sonido desactivado para correos nuevos''),
    (''header.list'', ''Lista de correos''),
    (''header.showList'', ''Mostrar la lista de correos ( [ )''),
    (''header.hideList'', ''Ocultar la lista de correos ( [ )''),
    (''header.signOut'', ''Cerrar sesi'' @ u00F3 @ ''n''),
    (''header.language'', ''Idioma''),
    (''header.theme'', ''Tema oscuro''),
    (''header.themeToLight'', ''Cambiar al tema claro''),
    (''header.themeToDark'', ''Cambiar al tema oscuro''),
    (''header.badge'', ''Entorno local''),
    (''address.unknown'', ''(desconocido)''),
    (''attachment.file'', ''Archivo''),
    (''language.auto'', ''Autom'' @ u00E1 @ ''tico'')]"

definition esES_list :: catalogue where
  "esES_list = [
    (''list.new'', ''Nuevo''),
    (''list.noSubject'', ''(sin asunto)''),
    (''list.to'', ''Para: {list}''),
    (''list.none'', ''(ninguno)''),
    (''list.loadingMore'', ''Cargando m'' @ u00E1 @ ''s'' @ u2026),
    (''list.attachments'', ''Adjuntos: {count}''),
    (''empty.title'', ''Todav'' @ u00ED @ ''a no hay correos''),
    (''empty.configure'', ''Configura tu aplicaci'' @ u00F3 @ ''n para enviar correos a:''),
    (''empty.configureSidebar'', ''Configura tu aplicaci'' @ u00F3 @ ''n para enviar correos a la direcci'' @ u00F3 @ ''n SMTP que aparece al pie de la lista.''),
    (''empty.login'', ''Inicio de sesi'' @ u00F3 @ ''n obligatorio: usa el usuario y la contrase'' @ u00F1 @ ''a definidos en {env}.''),
    (''empty.footer'', ''Capturados en local. Actualizados al instante.''),
    (''empty.noResults'', ''Ning'' @ u00FA @ ''n correo coincide con '' @ u00AB @ ''{query}'' @ u00BB)]"

definition esES_view :: catalogue where
  "esES_view = [
    (''view.email'', ''Correo''),
    (''view.back'', ''Volver a la bandeja de entrada''),
    (''view.download'', ''Descargar .eml''),
    (''view.delete'', ''Eliminar correo''),
    (''view.details'', ''Detalles del correo''),
    (''view.showDetails'', ''Mostrar detalles (De, Para, fecha)''),
    (''view.hideDetails'', ''Ocultar detalles para ampliar la vista previa''),
    (''view.from'', ''De''),
    (''view.to'', ''Para''),
    (''view.cc'', ''CC''),
    (''view.replyTo'', ''Responder a''),
    (''view.received'', ''Recibido''),
    (''view.tabs'', ''Vistas''),
    (''tab.html'', ''HTML''),
    (''tab.text'', ''Texto''),
    (''tab.headers'', ''Cabeceras''),
    (''tab.raw'', ''C'' @ u00F3 @ ''digo fuente''),
    (''tab.attachments'', ''Adjuntos''),
    (''tab.links'', ''Enlaces'')]"

definition esES_html :: catalogue where
  "esES_html = [
    (''html.none'', ''Este correo no tiene parte HTML.''),
    (''html.preview'', ''Vista previa''),
    (''html.frame'', ''Vista previa HTML''),
    (''html.fullscreen'', ''Vista previa a pantalla completa''),
    (''html.fullscreenTitle'', ''Pantalla completa (Esc para cerrar)''),
    (''html.close'', ''Salir de pantalla completa''),
    (''html.closeTitle'', ''Cerrar (Esc)''),
    (''width.desktop'', ''Ancho de escritorio''),
    (''width.tablet'', ''Ancho de tableta (768px)''),
    (''width.mobile'', ''Ancho de m'' @ u00F3 @ ''vil (375px)''),
    (''text.none'', ''Este correo no tiene parte de texto sin formato.''),
    (''raw.loading'', ''Cargando'' @ u2026),
    (''raw.error'', ''No se pudo cargar el c'' @ u00F3 @ ''digo fuente: {error}''),
    (''copy.copy'', ''Copiar''),
    (''copy.copied'', ''Copiado'')]"

definition esES_parts :: catalogue where
  "esES_parts = [
    (''attachments.none'', ''Sin adjuntos.''),
    (''attachments.download'', ''Descargar''),
    (''attachments.open'', ''Abrir''),
    (''attachments.preview'', ''Vista previa de {name}''),
    (''attachments.inline'', ''incrustado''),
    (''links.none'', ''No se encontraron enlaces.''),
    (''links.noText'', ''(sin texto)''),
    (''links.copy'', ''Copiar URL''),
    (''links.openTitle'', ''Abrir en una pesta'' @ u00F1 @ ''a nueva''),
    (''links.open'', ''Abrir {target}''),
    (''resize.label'', ''Cambiar el tama'' @ u00F1 @ ''o de la lista de correos''),
    (''resize.title'', ''Arrastra para cambiar el tama'' @ u00F1 @ ''o '' @ u00B7 @ '' doble clic para restablecer'')]"

definition esES :: catalogue where
  "esES = esES_app @ esES_header @ esES_list @ esES_view @ esES_html @ esES_parts"

definition frFR_app :: catalogue where
  "frFR_app = [
    (''app.inbox'', ''Bo'' @ u00EE @ ''te de r'' @ u00E9 @ ''ception''),
    (''app.emptyList'', ''Les e-mails re'' @ u00E7 @ ''us appara'' @ u00EE @ ''tront ici.''),
    (''app.loadError'', ''Impossible de charger les e-mails : {error}''),
    (''app.messageError'', ''Impossible de charger l'' @ u2019 @ ''e-mail : {error}''),
    (''error.network'', ''impossible de joindre Mailpeek. Est-il toujours lanc'' @ u00E9 @ '' ?''),
    (''error.unauthorized'', ''votre session a expir'' @ u00E9 @ ''. Reconnectez-vous.''),
    (''error.notFound'', ''il n'existe plus (il a peut-'' @ u00EA @ ''tre '' @ u00E9 @ ''t'' @ u00E9 @ '' supprim'' @ u00E9 @ '').''),
    (''error.server'', ''le serveur a '' @ u00E9 @ ''chou'' @ u00E9 @ '' (HTTP {status}).''),
    (''error.http'', ''la requ'' @ u00EA @ ''te a '' @ u00E9 @ ''t'' @ u00E9 @ '' refus'' @ u00E9 @ ''e (HTTP {status}).''),
    (''error.unknown'', ''erreur inattendue.''),
    (''status.live'', ''En direct''),
    (''status.connecting'', ''Reconnexion''),
    (''status.offline'', ''Hors ligne''),
    (''status.title'', ''Mises '' @ u00E0 @ '' jour en temps r'' @ u00E9 @ ''el''),
    (''smtp.copy'', ''Copier l'' @ u2019 @ ''adresse SMTP''),
    (''smtp.loginRequired'', ''Connexion SMTP requise''),
    (''smtp.loginRequiredTitle'', ''Connexion SMTP requise (d'' @ u00E9 @ ''finie par MAILPEEK_SMTP_AUTH)'')]"

definition frFR_header :: catalogue where
  "frFR_header = [
    (''header.search'', ''Rechercher des e-mails...''),
    (''header.searchLabel'', ''Rechercher des e-mails''),
    (''header.clearSearch'', ''Effacer la recherche''),
    (''header.clear'', ''Vider''),
    (''header.confirmClear'', ''Confirmer''),
    (''header.clearInbox'', ''Vider la bo'' @ u00EE @ ''te de r'' @ u00E9 @ ''ception''),
    (''header.sound'', ''Son des nouveaux e-mails''),
    (''header.soundOn'', ''Son activ'' @ u00E9 @ '' pour les nouveaux e-mails (cliquer pour couper)''),
    (''header.soundOff'', ''Son d'' @ u00E9 @ ''sactiv'' @ u00E9 @ '' pour les nouveaux e-mails''),
    (''header.list'', ''Liste des e-mails''),
    (''header.showList'', ''Afficher la liste des e-mails ( [ )''),
    (''header.hideList'', ''Masquer la liste des e-mails ( [ )''),
    (''header.signOut'', ''Se d'' @ u00E9 @ ''connecter''),
    (''header.language'', ''Langue''),
    (''header.theme'', ''Th'' @ u00E8 @ ''me sombre''),
    (''header.themeToLight'', ''Passer au th'' @ u00E8 @ ''me clair''),
    (''header.themeToDark'', ''Passer au th'' @ u00E8 @ ''me sombre''),
    (''header.badge'', ''Espace local''),
    (''address.unknown'', ''(inconnu)''),
    (''attachment.file'', ''Fichier''),
    (''language.auto'', ''Automatique'')]"

definition frFR_list :: catalogue where
  "frFR_list = [
    (''list.new'', ''Nouveau''),
    (''list.noSubject'', ''(sans objet)''),
    (''list.to'', u00C0 @ '' : {list}''),
    (''list.none'', ''(aucun)''),
    (''list.loadingMore'', ''Chargement'' @ u2026),
    (''list.attachments'', ''Pi'' @ u00E8 @ ''ces jointes : {count}''),
    (''empty.title'', ''Aucun e-mail pour l'' @ u2019 @ ''instant''),
    (''empty.configure'', ''Configurez votre application pour envoyer les e-mails '' @ u00E0 @ '' :''),
    (''empty.configureSidebar'', ''Configurez votre application pour envoyer les e-mails '' @ u00E0 @ '' l'' @ u2019 @ ''adresse SMTP affich'' @ u00E9 @ ''e en bas de la liste.''),
    (''empty.login'', ''Connexion requise : utilisez l'' @ u2019 @ ''identifiant et le mot de passe d'' @ u00E9 @ ''finis par {env}.''),
    (''empty.footer'', ''Captur'' @ u00E9 @ ''s en local. Mis '' @ u00E0 @ '' jour instantan'' @ u00E9 @ ''ment.''),
    (''empty.noResults'', ''Aucun e-mail ne correspond '' @ u00E0 @ '' '' @ u00AB @ '' {query} '' @ u00BB)]"

definition frFR_view :: catalogue where
  "frFR_view = [
    (''view.email'', ''E-mail''),
    (''view.back'', ''Retour '' @ u00E0 @ '' la bo'' @ u00EE @ ''te de r'' @ u00E9 @ ''ception''),
    (''view.download'', ''T'' @ u00E9 @ ''l'' @ u00E9 @ ''charger le .eml''),
    (''view.delete'', ''Supprimer l'' @ u2019 @ ''e-mail''),
    (''view.details'', ''D'' @ u00E9 @ ''tails de l'' @ u2019 @ ''e-mail''),
    (''view.showDetails'', ''Afficher les d'' @ u00E9 @ ''tails (De, '' @ u00C0 @ '', date)''),
    (''view.hideDetails'', ''Masquer les d'' @ u00E9 @ ''tails pour agrandir l'' @ u2019 @ ''aper'' @ u00E7 @ ''u''),
    (''view.from'', ''De''),
    (''view.to'', u00C0),
    (''view.cc'', ''Cc''),
    (''view.replyTo'', ''R'' @ u00E9 @ ''pondre '' @ u00E0),
    (''view.received'', ''Re'' @ u00E7 @ ''u''),
    (''view.tabs'', ''Vues''),
    (''tab.html'', ''HTML''),
    (''tab.text'', ''Texte''),
    (''tab.headers'', ''En-t'' @ u00EA @ ''tes''),
    (''tab.raw'', ''Source''),
    (''tab.attachments'', ''Pi'' @ u00E8 @ ''ces jointes''),
    (''tab.links'', ''Liens'')]"

definition frFR_html :: catalogue where
  "frFR_html = [
    (''html.none'', ''Cet e-mail n'' @ u2019 @ ''a pas de partie HTML.''),
    (''html.preview'', ''Aper'' @ u00E7 @ ''u''),
    (''html.frame'', ''Aper'' @ u00E7 @ ''u HTML''),
    (''html.fullscreen'', ''Aper'' @ u00E7 @ ''u en plein '' @ u00E9 @ ''cran''),
    (''html.fullscreenTitle'', ''Plein '' @ u00E9 @ ''cran ('' @ u00C9 @ ''chap pour fermer)''),
    (''html.close'', ''Quitter le plein '' @ u00E9 @ ''cran''),
    (''html.closeTitle'', ''Fermer ('' @ u00C9 @ ''chap)''),
    (''width.desktop'', ''Largeur ordinateur''),
    (''width.tablet'', ''Largeur tablette (768px)''),
    (''width.mobile'', ''Largeur mobile (375px)''),
    (''text.none'', ''Cet e-mail n'' @ u2019 @ ''a pas de partie texte brut.''),
    (''raw.loading'', ''Chargement'' @ u2026),
    (''raw.error'', ''Impossible de charger la source : {error}''),
    (''copy.copy'', ''Copier''),
    (''copy.copied'', ''Copi'' @ u00E9)]"

definition frFR_parts :: catalogue where
  "frFR_parts = [
    (''attachments.none'', ''Aucune pi'' @ u00E8 @ ''ce jointe.''),
    (''attachments.download'', ''T'' @ u00E9 @ ''l'' @ u00E9 @ ''charger''),
    (''attachments.open'', ''Ouvrir''),
    (''attachments.preview'', ''Aper'' @ u00E7 @ ''u de {name}''),
    (''attachments.inline'', ''int'' @ u00E9 @ ''gr'' @ u00E9 @ ''e''),
    (''links.none'', ''Aucun lien trouv'' @ u00E9 @ ''.''),
    (''links.noText'', ''(sans texte)''),
    (''links.copy'', ''Copier l'' @ u2019 @ ''URL''),
    (''links.openTitle'', ''Ouvrir dans un nouvel onglet''),
    (''links.open'', ''Ouvrir {target}''),
    (''resize.label'', ''Redimensionner la liste des e-mails''),
    (''resize.title'', ''Glisser pour redimensionner '' @ u00B7 @ '' double-clic pour r'' @ u00E9 @ ''initialiser'')]"

definition frFR :: catalogue where
  "frFR = frFR_app @ frFR_header @ frFR_list @ frFR_view @ frFR_html @ frFR_parts"

definition ptBR_app :: catalogue where
  "ptBR_app = [
    (''app.inbox'', ''Caixa de entrada''),
    (''app.emptyList'', ''Os e-mails recebidos v'' @ u00E3 @ ''o aparecer aqui.''),
    (''app.loadError'', ''N'' @ u00E3 @ ''o foi poss'' @ u00ED @ ''vel carregar os e-mails: {error}''),
    (''app.messageError'', ''N'' @ u00E3 @ ''o foi poss'' @ u00ED @ ''vel carregar o e-mail: {error}''),
    (''error.network'', ''n'' @ u00E3 @ ''o foi poss'' @ u00ED @ ''vel conectar ao Mailpeek. Ele ainda est'' @ u00E1 @ '' rodando?''),
    (''error.unauthorized'', ''sua sess'' @ u00E3 @ ''o terminou. Entre novamente.''),
    (''error.notFound'', ''ele n'' @ u00E3 @ ''o existe mais (pode ter sido exclu'' @ u00ED @ ''do).''),
    (''error.server'', ''o servidor falhou (HTTP {status}).''),
    (''error.http'', ''a requisi'' @ u00E7 @ u00E3 @ ''o foi recusada (HTTP {status}).''),
    (''error.unknown'', ''erro inesperado.''),
    (''status.live'', ''Ao vivo''),
    (''status.connecting'', ''Reconectando''),
    (''status.offline'', ''Offline''),
    (''status.title'', ''Atualiza'' @ u00E7 @ u00F5 @ ''es em tempo real''),
    (''smtp.copy'', ''Copiar endere'' @ u00E7 @ ''o SMTP''),
    (''smtp.loginRequired'', ''Login SMTP obrigat'' @ u00F3 @ ''rio''),
    (''smtp.loginRequiredTitle'', ''Login SMTP obrigat'' @ u00F3 @ ''rio (definido com MAILPEEK_SMTP_AUTH)'')]"

definition ptBR_header :: catalogue where
  "ptBR_header = [
    (''header.search'', ''Buscar e-mails...''),
    (''header.searchLabel'', ''Buscar e-mails''),
    (''header.clearSearch'', ''Limpar busca''),
    (''header.clear'', ''Limpar''),
    (''header.confirmClear'', ''Confirmar limpeza''),
    (''header.clearInbox'', ''Limpar caixa de entrada''),
    (''header.sound'', ''Som de novo e-mail''),
    (''header.soundOn'', ''Som ativado para novos e-mails (clique para silenciar)''),
    (''header.soundOff'', ''Som desativado para novos e-mails''),
    (''header.list'', ''Lista de e-mails''),
    (''header.showList'', ''Mostrar a lista de e-mails ( [ )''),
    (''header.hideList'', ''Ocultar a lista de e-mails ( [ )''),
    (''header.signOut'', ''Sair''),
    (''header.language'', ''Idioma''),
    (''header.theme'', ''Tema escuro''),
    (''header.themeToLight'', ''Mudar para o tema claro''),
    (''header.themeToDark'', ''Mudar para o tema escuro''),
    (''header.badge'', ''Ambiente local''),
    (''address.unknown'', ''(desconhecido)''),
    (''attachment.file'', ''Arquivo''),
    (''language.auto'', ''Autom'' @ u00E1 @ ''tico'')]"

definition ptBR_list :: catalogue where
  "ptBR_list = [
    (''list.new'', ''Novo''),
    (''list.noSubject'', ''(sem assunto)''),
    (''list.to'', ''Para: {list}''),
    (''list.none'', ''(nenhum)''),
    (''list.loadingMore'', ''Carregando mais'' @ u2026),
    (''list.attachments'', ''Anexos: {count}''),
    (''empty.title'', ''Nenhum e-mail ainda''),
    (''empty.configure'', ''Configure sua aplica'' @ u00E7 @ u00E3 @ ''o para enviar e-mails para:''),
    (''empty.configureSidebar'', ''Configure sua aplica'' @ u00E7 @ u00E3 @ ''o para enviar e-mails para o endere'' @ u00E7 @ ''o SMTP no rodap'' @ u00E9 @ '' da lista.''),
    (''empty.login'', ''Login obrigat'' @ u00F3 @ ''rio: use o usu'' @ u00E1 @ ''rio e a senha definidos em {env}.''),
    (''empty.footer'', ''Capturados localmente. Atualizados na hora.''),
    (''empty.noResults'', ''Nenhum e-mail corresponde a '' @ u201C @ ''{query}'' @ u201D)]"

definition ptBR_view :: catalogue where
  "ptBR_view = [
    (''view.email'', ''E-mail''),
    (''view.back'', ''Voltar para a caixa de entrada''),
    (''view.download'', ''Baixar .eml''),
    (''view.delete'', ''Excluir e-mail''),
    (''view.details'', ''Detalhes do e-mail''),
    (''view.showDetails'', ''Mostrar detalhes (De, Para, data)''),
    (''view.hideDetails'', ''Ocultar detalhes para ampliar a visualiza'' @ u00E7 @ u00E3 @ ''o''),
    (''view.from'', ''De''),
    (''view.to'', ''Para''),
    (''view.cc'', ''Cc''),
    (''view.replyTo'', ''Responder a''),
    (''view.received'', ''Recebido''),
    (''view.tabs'', ''Visualiza'' @ u00E7 @ u00F5 @ ''es''),
    (''tab.html'', ''HTML''),
    (''tab.text'', ''Texto''),
    (''tab.headers'', ''Cabe'' @ u00E7 @ ''alhos''),
    (''tab.raw'', ''C'' @ u00F3 @ ''digo-fonte''),
    (''tab.attachments'', ''Anexos''),
    (''tab.links'', ''Links'')]"

definition ptBR_html :: catalogue where
  "ptBR_html = [
    (''html.none'', ''Este e-mail n'' @ u00E3 @ ''o tem parte HTML.''),
    (''html.preview'', ''Pr'' @ u00E9 @ ''-visualiza'' @ u00E7 @ u00E3 @ ''o''),
    (''html.frame'', ''Pr'' @ u00E9 @ ''-visualiza'' @ u00E7 @ u00E3 @ ''o do HTML''),
    (''html.fullscreen'', ''Visualiza'' @ u00E7 @ u00E3 @ ''o em tela cheia''),
    (''html.fullscreenTitle'', ''Tela cheia (Esc para fechar)''),
    (''html.close'', ''Fechar tela cheia''),
    (''html.closeTitle'', ''Fechar (Esc)''),
    (''width.desktop'', ''Largura de desktop''),
    (''width.tablet'', ''Largura de tablet (768px)''),
    (''width.mobile'', ''Largura de celular (375px)''),
    (''text.none'', ''Este e-mail n'' @ u00E3 @ ''o tem parte em texto simples.''),
    (''raw.loading'', ''Carregando'' @ u2026),
    (''raw.error'', ''N'' @ u00E3 @ ''o foi poss'' @ u00ED @ ''vel carregar o c'' @ u00F3 @ ''digo-fonte: {error}''),
    (''copy.copy'', ''Copiar''),
    (''copy.copied'', ''Copiado'')]"

definition ptBR_parts :: catalogue where
  "ptBR_parts = [
    (''attachments.none'', ''Sem anexos.''),
    (''attachments.download'', ''Baixar''),
    (''attachments.open'', ''Abrir''),
    (''attachments.preview'', ''Pr'' @ u00E9 @ ''via de {name}''),
    (''attachments.inline'', ''incorporado''),
    (''links.none'', ''Nenhum link encontrado.''),
    (''links.noText'', ''(sem texto)''),
    (''links.copy'', ''Copiar URL''),
    (''links.openTitle'', ''Abrir em nova aba''),
    (''links.open'', ''Abrir {target}''),
    (''resize.label'', ''Redimensionar a lista de e-mails''),
    (''resize.title'', ''Arraste para redimensionar '' @ u00B7 @ '' clique duas vezes para restaurar'')]"

definition ptBR :: catalogue where
  "ptBR = ptBR_app @ ptBR_header @ ptBR_list @ ptBR_view @ ptBR_html @ ptBR_parts"

definition ptPT_top :: catalogue where
  "ptPT_top = [
    (''app.emptyList'', ''Os e-mails recebidos aparecem aqui.''),
    (''status.live'', ''Em direto''),
    (''status.connecting'', ''A religar''),
    (''smtp.loginRequired'', ''Autentica'' @ u00E7 @ u00E3 @ ''o SMTP obrigat'' @ u00F3 @ ''ria''),
    (''smtp.loginRequiredTitle'', ''Autentica'' @ u00E7 @ u00E3 @ ''o SMTP obrigat'' @ u00F3 @ ''ria (definida com MAILPEEK_SMTP_AUTH)''),
    (''header.search'', ''Pesquisar e-mails...''),
    (''error.network'', ''n'' @ u00E3 @ ''o foi poss'' @ u00ED @ ''vel ligar ao Mailpeek. Ainda est'' @ u00E1 @ '' em execu'' @ u00E7 @ u00E3 @ ''o?''),
    (''error.unauthorized'', ''a sua sess'' @ u00E3 @ ''o terminou. Inicie sess'' @ u00E3 @ ''o novamente.''),
    (''error.notFound'', ''j'' @ u00E1 @ '' n'' @ u00E3 @ ''o existe (pode ter sido eliminado).''),
    (''error.http'', ''o pedido foi recusado (HTTP {status}).''),
    (''attachment.file'', ''Ficheiro''),
    (''header.searchLabel'', ''Pesquisar e-mails''),
    (''header.clearSearch'', ''Limpar pesquisa''),
    (''header.soundOn'', ''Som ativo para novos e-mails (clique para silenciar)'')]"

definition ptPT_middle :: catalogue where
  "ptPT_middle = [
    (''header.signOut'', ''Terminar sess'' @ u00E3 @ ''o''),
    (''empty.title'', ''Ainda n'' @ u00E3 @ ''o h'' @ u00E1 @ '' e-mails''),
    (''empty.configure'', ''Configure a sua aplica'' @ u00E7 @ u00E3 @ ''o para enviar e-mails para:''),
    (''empty.configureSidebar'', ''Configure a sua aplica'' @ u00E7 @ u00E3 @ ''o para enviar e-mails para o endere'' @ u00E7 @ ''o SMTP no fundo da lista.''),
    (''empty.login'', ''Autentica'' @ u00E7 @ u00E3 @ ''o obrigat'' @ u00F3 @ ''ria: use o utilizador e a palavra-passe definidos em {env}.''),
    (''empty.footer'', ''Capturados localmente. Atualizados de imediato.''),
    (''view.back'', ''Voltar '' @ u00E0 @ '' caixa de entrada''),
    (''view.download'', ''Transferir .eml''),
    (''view.delete'', ''Eliminar e-mail''),
    (''view.hideDetails'', ''Ocultar detalhes para aumentar a pr'' @ u00E9 @ ''-visualiza'' @ u00E7 @ u00E3 @ ''o''),
    (''view.replyTo'', ''Responder para''),
    (''view.tabs'', ''Vistas'')]"

definition ptPT_bottom :: catalogue where
  "ptPT_bottom = [
    (''tab.links'', ''Liga'' @ u00E7 @ u00F5 @ ''es''),
    (''html.fullscreen'', ''Pr'' @ u00E9 @ ''-visualiza'' @ u00E7 @ u00E3 @ ''o em ecr'' @ u00E3 @ '' inteiro''),
    (''html.fullscreenTitle'', ''Ecr'' @ u00E3 @ '' inteiro (Esc para fechar)''),
    (''html.close'', ''Fechar ecr'' @ u00E3 @ '' inteiro''),
    (''width.desktop'', ''Largura de computador''),
    (''width.mobile'', ''Largura de telem'' @ u00F3 @ ''vel (375px)''),
    (''raw.loading'', ''A carregar'' @ u2026),
    (''attachments.preview'', ''Pr'' @ u00E9 @ ''-visualiza'' @ u00E7 @ u00E3 @ ''o de {name}''),
    (''list.loadingMore'', ''A carregar mais'' @ u2026),
    (''attachments.download'', ''Transferir''),
    (''links.none'', ''Nenhuma liga'' @ u00E7 @ u00E3 @ ''o encontrada.''),
    (''links.openTitle'', ''Abrir num novo separador''),
    (''resize.title'', ''Arraste para redimensionar '' @ u00B7 @ '' duplo clique para repor'')]"

definition ptPT :: catalogue where
  "ptPT = obj_spread ptBR (ptPT_top @ ptPT_middle @ ptPT_bottom)"

lemmas section_defs =
  enUS_app_def enUS_header_def enUS_list_def enUS_view_def enUS_html_def enUS_parts_def
  esES_app_def esES_header_def esES_list_def esES_view_def esES_html_def esES_parts_def
  frFR_app_def frFR_header_def frFR_list_def frFR_view_def frFR_html_def frFR_parts_def
  ptBR_app_def ptBR_header_def ptBR_list_def ptBR_view_def ptBR_html_def ptBR_parts_def
  ptPT_top_def ptPT_middle_def ptPT_bottom_def

end
