(* ===== verification/Web_Api.thy ===== *)
theory Web_Api
  imports Wait_Server
begin

text \<open>
  The web interface's access to the server (\<open>web/src/api.ts\<close>): what the pages see of the JSON
  replies, \<open>fetch\<close> with the redirection to the login page, and the requests. \<open>fetch\<close> is a
  parameter; \<open>server_fetch\<close> instantiates it with the server's handlers. An operation takes the
  world and the browser's state and returns its result or what it rejects with.
\<close>

section \<open>What the pages see\<close>

record web_summary =
  ws_id :: string
  ws_from :: address
  ws_to :: "address list"
  ws_cc :: "address list"
  ws_subject :: string
  ws_attachments :: int
  ws_size :: int
  ws_createdAt :: string

definition web_summary_of :: "message_summary \<Rightarrow> web_summary" where
  "web_summary_of m = \<lparr>ws_id = s_id m, ws_from = s_from m, ws_to = s_to m, ws_cc = s_cc m, ws_subject = s_subject m,
     ws_attachments = s_attachments m, ws_size = s_size m, ws_createdAt = s_createdAt m\<rparr>"

record web_message =
  wm_id :: string
  wm_messageId :: "string option"
  wm_from :: address
  wm_to :: "address list"
  wm_cc :: "address list"
  wm_replyTo :: "address list"
  wm_subject :: string
  wm_date :: "string option"
  wm_text :: string
  wm_html :: string
  wm_headers :: "(string \<times> string list) list"
  wm_attachments :: "attachment list"
  wm_links :: "link list"
  wm_envelope :: envelope
  wm_size :: int
  wm_createdAt :: string

text \<open>The server sends every member the interface declares; the result is \<open>None\<close> for a reply that
  does not.\<close>

definition web_message_of :: "message_data \<Rightarrow> web_message option" where
  "web_message_of d = (case (d_to d, d_cc d, d_replyTo d, d_text d, d_html d) of
     (Some t, Some cc, Some r, Some txt, Some html) \<Rightarrow>
       (case (d_headers d, d_attachments d, d_links d, d_envelope d) of
         (Some h, Some a, Some l, Some e) \<Rightarrow> Some \<lparr>wm_id = d_id d, wm_messageId = d_messageId d, wm_from = d_from d,
           wm_to = t, wm_cc = cc, wm_replyTo = r, wm_subject = d_subject d, wm_date = d_date d, wm_text = txt,
           wm_html = html, wm_headers = h, wm_attachments = a, wm_links = l, wm_envelope = e, wm_size = d_size d,
           wm_createdAt = d_createdAt d\<rparr>
       | _ \<Rightarrow> None)
   | _ \<Rightarrow> None)"

record web_info =
  wi_version :: string
  wi_smtpPort :: int
  wi_httpPort :: int
  wi_maxMessages :: int
  wi_maxMessageSize :: int
  wi_smtpAuth :: bool
  wi_uiAuth :: bool

definition web_info_of :: "server_info \<Rightarrow> web_info" where
  "web_info_of i = \<lparr>wi_version = si_version i, wi_smtpPort = si_smtpPort i, wi_httpPort = si_httpPort i,
     wi_maxMessages = si_maxMessages i, wi_maxMessageSize = si_maxMessageSize i, wi_smtpAuth = si_smtpAuth i,
     wi_uiAuth = si_uiAuth i\<rparr>"

record message_page =
  mp_messages :: "web_summary list"
  mp_nextCursor :: "string option"

section \<open>Requests\<close>

text \<open>\<open>ApiError\<close> with its status and text; \<open>Network\<close> is the TypeError of a failed \<open>fetch\<close>,
  \<open>Abort\<close> that of an aborted one, \<open>Malformed\<close> a body without the member that is read.\<close>

datatype web_error = ApiError int string | Network | Abort | Malformed

definition new_ApiError :: "int \<Rightarrow> string option \<Rightarrow> web_error" where
  "new_ApiError status message = ApiError status (nullish message (''HTTP '' @ show_int status))"

definition api_base :: string where "api_base = ''/api/v1''"

record browser =
  bw_signingOut :: bool
  bw_pathname :: string
  bw_search :: string
  bw_assigned :: "string list"

type_synonym 'w fetcher = "string \<Rightarrow> string \<Rightarrow> 'w \<Rightarrow> (web_error + http_response) \<times> 'w"
type_synonym ('w, 'a) web_op = "'w \<times> browser \<Rightarrow> (web_error + 'a) \<times> 'w \<times> browser"

text \<open>\<open>window.location.assign\<close>\<close>

definition assign :: "string \<Rightarrow> browser \<Rightarrow> browser" where
  "assign url b = b\<lparr>bw_assigned := bw_assigned b @ [url]\<rparr>"

definition web_call :: "'w fetcher \<Rightarrow> string \<Rightarrow> string \<Rightarrow> ('w, http_response) web_op" where
  "web_call fetch meth input s = (case s of (w, b) \<Rightarrow>
     (case fetch meth input w of
        (Inl e, w') \<Rightarrow> (Inl e, w', b)
      | (Inr res, w') \<Rightarrow>
          (let target = bw_pathname b @ bw_search b in
           (Inr res, w', if rp_status res = 401 \<and> \<not> bw_signingOut b
                         then assign (''/login?next='' @ encodeURIComponent target) b else b))))"

definition web_then :: "('w, 'a) web_op \<Rightarrow> ('a \<Rightarrow> web_error + 'b) \<Rightarrow> ('w, 'b) web_op" where
  "web_then m k s = (case m s of (r, s') \<Rightarrow> (case r of Inl e \<Rightarrow> Inl e | Inr a \<Rightarrow> k a, s'))"

text \<open>The body's \<open>error\<close>, when the body is JSON and has one.\<close>

definition error_text :: "http_response \<Rightarrow> string option" where
  "error_text res = (case rp_json res of J_error e \<Rightarrow> Some e | _ \<Rightarrow> None)"

definition web_request :: "'w fetcher \<Rightarrow> string \<Rightarrow> string \<Rightarrow> (json_reply \<Rightarrow> web_error + 'a) \<Rightarrow> ('w, 'a) web_op" where
  "web_request fetch meth path read = web_then (web_call fetch meth (api_base @ path)) (\<lambda>res.
     if \<not> http_ok res then Inl (new_ApiError (rp_status res) (error_text res)) else read (rp_json res))"

definition read_page :: "json_reply \<Rightarrow> web_error + message_page" where
  "read_page j = (case j of
     J_messages ms c \<Rightarrow> Inr \<lparr>mp_messages = map web_summary_of ms, mp_nextCursor = c\<rparr> | _ \<Rightarrow> Inl Malformed)"

definition list_params :: "string \<Rightarrow> int \<Rightarrow> string option \<Rightarrow> params" where
  "list_params q limit cursor =
     (let ps = [(''limit'', show_int limit)];
          ps = (if q \<noteq> [] then obj_set ''q'' q ps else ps)
      in if truthy cursor then obj_set ''cursor'' (nullish cursor []) ps else ps)"

definition web_listMessages :: "'w fetcher \<Rightarrow> string \<Rightarrow> int \<Rightarrow> string option \<Rightarrow> ('w, message_page) web_op" where
  "web_listMessages fetch q limit cursor =
     web_request fetch ''GET'' (''/messages?'' @ params_toString (list_params q limit cursor)) read_page"

definition web_countMessages :: "'w fetcher \<Rightarrow> string \<Rightarrow> ('w, int) web_op" where
  "web_countMessages fetch q =
     (let qs = (if q \<noteq> [] then ''?q='' @ encodeURIComponent q else []) in
      web_request fetch ''GET'' (''/messages/count'' @ qs) (\<lambda>j. case j of J_count n \<Rightarrow> Inr n | _ \<Rightarrow> Inl Malformed))"

definition web_getMessage :: "'w fetcher \<Rightarrow> string \<Rightarrow> ('w, web_message) web_op" where
  "web_getMessage fetch mid = web_request fetch ''GET'' (''/messages/'' @ encodeURIComponent mid) (\<lambda>j.
     case j of J_message d \<Rightarrow> (case web_message_of d of Some m \<Rightarrow> Inr m | None \<Rightarrow> Inl Malformed) | _ \<Rightarrow> Inl Malformed)"

definition web_getInfo :: "'w fetcher \<Rightarrow> ('w, web_info) web_op" where
  "web_getInfo fetch = web_request fetch ''GET'' ''/info'' (\<lambda>j. case j of J_info i \<Rightarrow> Inr (web_info_of i) | _ \<Rightarrow> Inl Malformed)"

definition rawUrl :: "string \<Rightarrow> bool \<Rightarrow> string" where
  "rawUrl mid download = api_base @ ''/messages/'' @ encodeURIComponent mid @ ''/raw'' @
     (if download then ''?download=1'' else [])"

definition web_getRaw :: "'w fetcher \<Rightarrow> string \<Rightarrow> ('w, string) web_op" where
  "web_getRaw fetch mid = web_then (web_call fetch ''GET'' (rawUrl mid False)) (\<lambda>res.
     if \<not> http_ok res then Inl (new_ApiError (rp_status res) None) else Inr (rp_body res))"

definition web_deleteMessage :: "'w fetcher \<Rightarrow> string \<Rightarrow> ('w, unit) web_op" where
  "web_deleteMessage fetch mid = web_then (web_call fetch ''DELETE'' (api_base @ ''/messages/'' @ encodeURIComponent mid)) (\<lambda>res.
     if \<not> http_ok res \<and> rp_status res \<noteq> 404 then Inl (new_ApiError (rp_status res) None) else Inr ())"

definition web_clearMessages :: "'w fetcher \<Rightarrow> ('w, unit) web_op" where
  "web_clearMessages fetch = web_request fetch ''DELETE'' ''/messages'' (\<lambda>_. Inr ())"

definition signOut :: "'w fetcher \<Rightarrow> ('w, unit) web_op" where
  "signOut fetch s = (case s of (w, b) \<Rightarrow>
     (let b = b\<lparr>bw_signingOut := True\<rparr> in
      case fetch ''POST'' ''/logout'' w of
        (Inl e, w') \<Rightarrow> (Inl e, w', b)
      | (Inr _, w') \<Rightarrow> (Inr (), w', assign ''/login'' b)))"

section \<open>Addresses of mail content\<close>

definition attachmentUrl :: "string \<Rightarrow> string \<Rightarrow> string" where
  "attachmentUrl messageId attachmentId = api_base @ ''/messages/'' @ encodeURIComponent messageId @ ''/attachments/'' @
     encodeURIComponent attachmentId"

definition previewableTypes :: "string list" where
  "previewableTypes = [''image/png'', ''image/jpeg'', ''image/gif'', ''image/webp'', ''image/avif'', ''image/bmp'']"

definition canPreview :: "attachment \<Rightarrow> bool" where
  "canPreview a \<longleftrightarrow> toLowerCase (at_contentType a) \<in> set previewableTypes"

definition attachmentPreviewUrl :: "string \<Rightarrow> string \<Rightarrow> string" where
  "attachmentPreviewUrl messageId attachmentId = attachmentUrl messageId attachmentId @ ''?inline=1''"

definition eventsUrl :: string where
  "eventsUrl = api_base @ ''/events''"

section \<open>The server behind it\<close>

text \<open>A server without a login. The browser's own requests carry no JSON body.\<close>

definition server_fetch :: "world fetcher" where
  "server_fetch meth url w =
     (if startsWith url api_base
      then (case handle_path meth ([], None) (drop (length api_base) url) w of (res, w') \<Rightarrow> (Inr res, w'))
      else (Inr (writeError 404 ''not found''), w))"

lemma server_fetch_api [simp]:
  "server_fetch meth (api_base @ path) w = (case handle_path meth ([], None) path w of (res, w') \<Rightarrow> (Inr res, w'))"
  by (simp add: server_fetch_def)

section \<open>Pages\<close>

lemma plain_names: "QueryUnescape ''q'' = Some ''q''" "QueryUnescape ''next'' = Some ''next''"
  by code_simp+

lemma handle_list:
  "handle_path ''GET'' post (''/messages?'' @ params_toString ps) w = (listMessages ps (wd_store w), w)"
proof -
  have "cut (CHR ''?'') (''/messages?'' @ params_toString ps) = (''/messages'', params_toString ps)"
    using cut_append [of "CHR ''?''" "''/messages''"] by simp
  then show ?thesis unfolding handle_path_def by (simp add: ParseQuery_toString route_def route_get_def)
qed

text \<open>The server's filter for a search text, and the cursor as the server reads it.\<close>

definition search_filter :: "string \<Rightarrow> go_filter" where
  "search_filter q = zero_filter\<lparr>gf_Query := q\<rparr>"

lemma list_params_values:
  "values_Get (list_params q limit cursor) ''q'' = q"
  "values_Get (list_params q limit cursor) ''limit'' = show_int limit"
  "values_Get (list_params q limit cursor) ''cursor'' = nullish cursor []"
  "x \<notin> {''q'', ''limit'', ''cursor''} \<Longrightarrow> values_Get (list_params q limit cursor) x = []"
  by (auto simp: list_params_def Let_def values_Get_def map_of_obj_set truthy_def split: option.splits)

lemma parseFilter_list: "parseFilter (list_params q limit cursor) = Inr (search_filter q)"
  by (simp add: parseFilter_def list_params_values parse_since_def search_filter_def zero_filter_def)

definition cursor_ok :: "nat \<Rightarrow> bool" where
  "cursor_ok n \<longleftrightarrow> n < 2 ^ 64"

definition cursor_text :: "nat \<Rightarrow> string option" where
  "cursor_text n = (if n = 0 then None else Some (show_nat n))"

lemma parsePage_list:
  assumes "0 < limit" "limit < 2 ^ 63" "cursor_ok n"
  shows "parsePage (list_params q (int limit) (cursor_text n)) = Inr (n, limit)"
proof -
  have "(int limit) < 2 ^ 63" using assms(2) by (metis of_nat_less_iff of_nat_numeral of_nat_power)
  then have "ParseInt (show_int (int limit)) = Some (int limit)" by (intro ParseInt_show_int) auto
  moreover have "show_int (int limit) \<noteq> []" by (simp add: show_int_def)
  ultimately show ?thesis
    using assms by (simp add: parsePage_def list_params_values cursor_text_def ParseUint_def cursor_ok_def Let_def)
qed

lemma listMessages_list:
  assumes "0 < limit" "limit < 2 ^ 63" "cursor_ok n"
  shows "listMessages (list_params q (int limit) (cursor_text n)) s =
    (let p = Page (search_filter q) n limit s in
     writeJSON 200 (J_messages (map Summary (pg_messages p)) (cursor_text (pg_next p))))"
  unfolding listMessages_def parseFilter_list parsePage_list [OF assms] by (simp add: Let_def cursor_text_def)

lemma server_page:
  assumes "0 < limit" "limit < 2 ^ 63" "cursor_ok n"
  shows "web_listMessages server_fetch q (int limit) (cursor_text n) (w, b) =
    (let p = Page (search_filter q) n limit (wd_store w) in
     (Inr \<lparr>mp_messages = map (web_summary_of \<circ> Summary) (pg_messages p), mp_nextCursor = cursor_text (pg_next p)\<rparr>, w, b))"
  using handle_list [of "([], None)" "list_params q (int limit) (cursor_text n)" w] listMessages_list [OF assms, of q "wd_store w"]
  by (simp add: web_listMessages_def web_request_def web_then_def web_call_def writeJSON_def http_ok_def read_page_def Let_def)

lemma server_count:
  "web_countMessages server_fetch q (w, b) = (Inr (int (Count (search_filter q) (wd_store w))), w, b)"
proof (cases "q = []")
  case True
  have "handle_path ''GET'' post ''/messages/count'' w = (countMessages [] (wd_store w), w)" for post
    by (simp add: handle_path_def cut_def route_def route_get_def ParseQuery_def parse_pair_def map_filter_simps)
  moreover have "parseFilter [] = Inr (search_filter [])"
    by (simp add: parseFilter_def values_Get_def parse_since_def search_filter_def zero_filter_def)
  ultimately show ?thesis
    using True by (simp add: web_countMessages_def web_request_def web_then_def web_call_def countMessages_def
        writeJSON_def http_ok_def Let_def)
next
  case False
  have q: "ParseQuery (''q='' @ encodeURIComponent q) = [(''q'', q)]"
    using ParseQuery_component [OF plain_names(1), of q] by simp
  have "cut (CHR ''?'') (''/messages/count'' @ ''?q='' @ encodeURIComponent q) = (''/messages/count'', ''q='' @ encodeURIComponent q)"
    using cut_append [of "CHR ''?''" "''/messages/count''" "''q='' @ encodeURIComponent q"] by simp
  then have "handle_path ''GET'' post (''/messages/count'' @ ''?q='' @ encodeURIComponent q) w =
      (countMessages [(''q'', q)] (wd_store w), w)" for post
    unfolding handle_path_def using q by (simp add: route_def route_get_def)
  moreover have "parseFilter [(''q'', q)] = Inr (search_filter q)"
    by (simp add: parseFilter_def values_Get_def parse_since_def search_filter_def zero_filter_def)
  ultimately show ?thesis
    using False by (simp add: web_countMessages_def web_request_def web_then_def web_call_def countMessages_def
        writeJSON_def http_ok_def Let_def)
qed

section \<open>Following the cursors\<close>

text \<open>A page after another until there is no cursor: what scrolling to the end of the list does.\<close>

fun web_scroll :: "nat \<Rightarrow> 'w fetcher \<Rightarrow> string \<Rightarrow> int \<Rightarrow> string option \<Rightarrow> 'w \<times> browser \<Rightarrow> web_summary list option" where
  "web_scroll 0 fetch q limit cursor s = Some []"
| "web_scroll (Suc n) fetch q limit cursor s = (case web_listMessages fetch q limit cursor s of
     (Inl e, s') \<Rightarrow> None
   | (Inr p, s') \<Rightarrow> (case mp_nextCursor p of
       None \<Rightarrow> Some (mp_messages p)
     | Some c \<Rightarrow> map_option (\<lambda>ms. mp_messages p @ ms) (web_scroll n fetch q limit (Some c) s')))"

lemma Page_next_ok:
  assumes "store_ok s" "st_seq s < 2 ^ 64"
  shows "cursor_ok (pg_next (Page f n limit s))"
proof -
  let ?l = "matching_below f n s"
  have "\<forall>e \<in> set ?l. en_seq e < 2 ^ 64"
    using assms by (force simp: matching_below_def store_ok_def)
  then have "limit < length ?l \<Longrightarrow> 0 < limit \<Longrightarrow> en_seq (?l ! (limit - 1)) < 2 ^ 64" by simp
  then show ?thesis by (simp add: cursor_ok_def Page_spec [OF assms(1)] Let_def)
qed

lemma web_scroll_pages:
  assumes "store_ok (wd_store w)" "st_seq (wd_store w) < 2 ^ 64" "0 < limit" "limit < 2 ^ 63"
  shows "cursor_ok c \<Longrightarrow> web_scroll n server_fetch q (int limit) (cursor_text c) (w, b) =
    Some (map (web_summary_of \<circ> Summary) (all_pages n (search_filter q) limit c (wd_store w)))"
proof (induction n arbitrary: c)
  case (Suc n)
  let ?p = "Page (search_filter q) c limit (wd_store w)"
  note pg = server_page [OF assms(3,4) Suc.prems, of q w b]
  note IH = Suc.IH [OF Page_next_ok [OF assms(1,2), of "search_filter q" c limit]]
  show ?case
  proof (cases "pg_next ?p")
    case 0
    with pg show ?thesis by (simp add: cursor_text_def Let_def)
  next
    case (Suc k)
    with pg IH show ?thesis by (simp add: cursor_text_def Let_def)
  qed
qed simp

lemma Page_below_length: "store_ok s \<Longrightarrow> 0 < limit \<Longrightarrow>
    all_pages (Suc (length (st_order s))) f limit 0 s = List_messages f s"
  using all_pages_spec [of s limit f 0 "Suc (length (st_order s))"] matching_below_length [of f 0 s]
  by (simp add: List_messages_def Page_spec Let_def del: all_pages.simps)

section \<open>The properties\<close>

text \<open>
  C22: Scrolling the list to its end, page after page of any size, shows every stored message that matches
  the search exactly once, newest first.
\<close>

theorem scrolling_shows_all:
  assumes "store_ok (wd_store w)" "st_seq (wd_store w) < 2 ^ 64" "0 < limit" "limit < 2 ^ 63"
  shows "web_scroll (Suc (length (st_order (wd_store w)))) server_fetch q (int limit) None (w, b) =
    Some (map (web_summary_of \<circ> Summary) (rev (filter (Match (search_filter q)) (messages_of (wd_store w)))))"
  using web_scroll_pages [OF assms, of 0 "Suc (length (st_order (wd_store w)))" q b]
    Page_below_length [OF assms(1,3), of "search_filter q"] List_messages_spec [OF assms(1), of "search_filter q"]
  by (simp add: cursor_text_def cursor_ok_def del: web_scroll.simps all_pages.simps)

definition idle_browser :: browser where
  "idle_browser = \<lparr>bw_signingOut = False, bw_pathname = ''/'', bw_search = [], bw_assigned = []\<rparr>"

theorem scrolling_shows_all_witness:
  "web_scroll (Suc (length (st_order (wd_store quiet_world)))) server_fetch ''x'' (int 50) None (quiet_world, idle_browser) =
    Some (map (web_summary_of \<circ> Summary) (rev (filter (Match (search_filter ''x'')) (messages_of (wd_store quiet_world)))))"
  by (rule scrolling_shows_all) (use New_ok [of 10] in \<open>simp_all add: quiet_world_def New_def\<close>)

text \<open>
  C23: When the server answers 401, the request rejects with \<open>ApiError\<close> 401 and the browser is sent to the
  login page, whose \<open>next\<close> parameter is exactly the page and search it came from; while signing
  out it is not.
\<close>

theorem unauthorized_goes_to_login:
  assumes "fetch meth (api_base @ path) w = (Inr res, w')" "rp_status res = 401"
  shows "\<exists>msg b'. web_request fetch meth path read (w, b) = (Inl (ApiError 401 msg), w', b') \<and>
    (if bw_signingOut b then b' = b
     else \<exists>qs. bw_assigned b' = bw_assigned b @ [''/login?'' @ qs] \<and> ParseQuery qs = [(''next'', bw_pathname b @ bw_search b)])"
proof -
  let ?qs = "''next='' @ encodeURIComponent (bw_pathname b @ bw_search b)"
  have "ParseQuery ?qs = [(''next'', bw_pathname b @ bw_search b)]"
    using ParseQuery_component [OF plain_names(2), of "bw_pathname b @ bw_search b"] by simp
  with assms show ?thesis
    by (auto simp: web_request_def web_then_def web_call_def http_ok_def new_ApiError_def assign_def Let_def)
qed

theorem unauthorized_goes_to_login_witness:
  "\<exists>msg b'. web_request (\<lambda>_ _ w. (Inr (writeError 401 ''login''), w)) ''GET'' ''/info'' read_page ((), idle_browser) =
      (Inl (ApiError 401 msg), (), b') \<and>
    (if bw_signingOut idle_browser then b' = idle_browser
     else \<exists>qs. bw_assigned b' = bw_assigned idle_browser @ [''/login?'' @ qs] \<and>
       ParseQuery qs = [(''next'', bw_pathname idle_browser @ bw_search idle_browser)])"
  by (rule unauthorized_goes_to_login [where res = "writeError 401 ''login''"]) (simp_all add: writeError_def writeJSON_def)

text \<open>
  Deleting a message from the page succeeds whether or not the server still has it, and afterwards
  the server does not have it and has every other message it had.
\<close>

theorem web_delete_idempotent:
  assumes "mid \<noteq> []"
  shows "\<exists>w'. web_deleteMessage server_fetch mid (w, b) = (Inr (), w', b) \<and> Get mid (wd_store w') = None \<and>
    (\<forall>i. i \<noteq> mid \<longrightarrow> Get i (wd_store w') = Get i (wd_store w))"
proof -
  have q: "CHR ''?'' \<notin> set (''/messages/'' @ encodeURIComponent mid)"
    and sl: "CHR ''/'' \<notin> set (encodeURIComponent mid)"
    using component_plain [of _ mid] by auto
  have "tl (split_on (CHR ''/'') (''/messages/'' @ encodeURIComponent mid)) = [''messages'', encodeURIComponent mid]"
    using split_on_no_sep [OF sl] by simp
  then have h: "handle_path ''DELETE'' ([], None) (''/messages/'' @ encodeURIComponent mid) w =
      with_store (deleteMessage mid (wd_store w)) w"
    using cut_none [OF q] assms by (simp add: handle_path_def route_def route_delete_def path_id_def del: append.simps)
  obtain ok s' ev where d: "Delete mid (wd_store w) = (ok, s', ev)" by (cases "Delete mid (wd_store w)") auto
  have "Get mid s' = None \<and> (\<forall>i. i \<noteq> mid \<longrightarrow> Get i s' = Get i (wd_store w))"
    using d by (auto simp: Delete_def Get_def split: option.splits)
  moreover have "web_deleteMessage server_fetch mid (w, b) = (Inr (), w\<lparr>wd_store := s'\<rparr>, b)"
    using h d by (cases ok)
      (simp_all add: web_deleteMessage_def web_then_def web_call_def deleteMessage_def with_store_def writeJSON_def
        writeError_def http_ok_def Let_def)
  ultimately show ?thesis by simp
qed

theorem web_delete_idempotent_witness:
  "\<exists>w'. web_deleteMessage server_fetch ''a'' (quiet_world, idle_browser) = (Inr (), w', idle_browser) \<and>
    Get ''a'' (wd_store w') = None \<and> (\<forall>i. i \<noteq> ''a'' \<longrightarrow> Get i (wd_store w') = Get i (wd_store quiet_world))"
  by (rule web_delete_idempotent) simp

end
