(* ===== verification/Web_Format.thy ===== *)
theory Web_Format
  imports Web_Api Complex_Main
begin

text \<open>
  The web interface's presentation helpers: which message describes an error
  (\<open>web/src/lib/errors.ts\<close>), sizes, times, addresses and file types (\<open>format.ts\<close>), the tabs of a
  message (\<open>tabs.ts\<close>), class names (\<open>cn.ts\<close>), the HTML of a preview (\<open>html.ts\<close>) and the title and
  badge of the page (\<open>hooks/useFaviconBadge.ts\<close>). What depends on the locale's data (\<open>Intl\<close>, the local
  time zone) is a parameter.
\<close>

section \<open>Errors\<close>

record problem =
  pb_key :: string
  pb_vars :: "(string \<times> string) list"

text \<open>An aborted or malformed reply is neither an \<open>ApiError\<close> nor a \<open>TypeError\<close>.\<close>

definition describeError :: "web_error \<Rightarrow> problem" where
  "describeError err = (case err of
     ApiError status _ \<Rightarrow>
       (if status = 401 then \<lparr>pb_key = ''error.unauthorized'', pb_vars = []\<rparr>
        else if status = 404 then \<lparr>pb_key = ''error.notFound'', pb_vars = []\<rparr>
        else if 500 \<le> status then \<lparr>pb_key = ''error.server'', pb_vars = [(''status'', show_int status)]\<rparr>
        else \<lparr>pb_key = ''error.http'', pb_vars = [(''status'', show_int status)]\<rparr>)
   | Network \<Rightarrow> \<lparr>pb_key = ''error.network'', pb_vars = []\<rparr>
   | _ \<Rightarrow> \<lparr>pb_key = ''error.unknown'', pb_vars = []\<rparr>)"

section \<open>Sizes and times\<close>

text \<open>The parts of \<open>Intl\<close> and of \<open>Date\<close> that depend on the locale and the time zone; the argument of
  the date functions is the time val, \<open>None\<close> for an invalid date.\<close>

record intl =
  in_number :: "string option \<Rightarrow> nat \<Rightarrow> rat \<Rightarrow> string"
  in_toDateString :: "int option \<Rightarrow> string"
  in_time :: "string option \<Rightarrow> int option \<Rightarrow> string"
  in_day :: "string option \<Rightarrow> int option \<Rightarrow> string"
  in_dateTime :: "string option \<Rightarrow> int option \<Rightarrow> string"

definition units :: "string list" where
  "units = [''KB'', ''MB'', ''GB'']"

function scale :: "rat \<Rightarrow> nat \<Rightarrow> rat \<times> nat" where
  "scale val unit = (if 1024 \<le> val \<and> unit < length units - 1 then scale (val / 1024) (unit + 1) else (val, unit))"
  by pat_completeness auto
termination
  by (relation "measure (\<lambda>(val, unit). length units - unit)") auto

declare scale.simps [simp del]

definition formatBytes :: "intl \<Rightarrow> int \<Rightarrow> string option \<Rightarrow> string" where
  "formatBytes i n loc =
     (if n < 1024 then show_int n @ '' B''
      else (let (val, unit) = scale (of_int n / 1024) 0;
                digits = (if val < 10 then 1 else 0)
            in in_number i loc digits val @ '' '' @ units ! unit))"

definition formatListTime :: "intl \<Rightarrow> string \<Rightarrow> string option \<Rightarrow> int \<Rightarrow> string" where
  "formatListTime i stamp loc now =
     (let d = Date_parse stamp; sameDay = (in_toDateString i d = in_toDateString i (Some now))
      in if sameDay then in_time i loc d else in_day i loc d)"

definition formatDateTime :: "intl \<Rightarrow> string \<Rightarrow> string option \<Rightarrow> string" where
  "formatDateTime i stamp loc = in_dateTime i loc (Date_parse stamp)"

section \<open>Addresses and files\<close>

definition addressLabel :: "address \<Rightarrow> string \<Rightarrow> string" where
  "addressLabel a unknown = or_str (or_str (nullish (a_name a) []) (a_address a)) unknown"

definition addressFull :: "address \<Rightarrow> string" where
  "addressFull a = (if truthy (a_name a) then nullish (a_name a) [] @ '' <'' @ a_address a @ ''>'' else a_address a)"

definition addressList :: "address list \<Rightarrow> string" where
  "addressList xs = join '', '' (map addressFull xs)"

text \<open>\<open>toUpperCase\<close> on Latin-1. The capitals of the micro sign and of the y with diaeresis are not
  in Latin-1; the model leaves the two as they are.\<close>

definition upper_of :: "char \<Rightarrow> string" where
  "upper_of c = (let n = (of_char c :: nat) in
     if (97 \<le> n \<and> n \<le> 122) \<or> (224 \<le> n \<and> n \<le> 254 \<and> n \<noteq> 247) then [char_of (n - 32)]
     else if n = 223 then ''SS'' else [c])"

definition toUpperCase :: "string \<Rightarrow> string" where
  "toUpperCase s = concat (map upper_of s)"

definition x_prefix :: regex where
  "x_prefix = Seq Bol (lit ''x-'')"

definition fileTypeLabel :: "string \<Rightarrow> string \<Rightarrow> string \<Rightarrow> string" where
  "fileTypeLabel filename contentType fallback =
     (let ext = (if CHR ''.'' \<in> set filename then last (split_on (CHR ''.'') filename) else [])
      in if ext \<noteq> [] \<and> length ext \<le> 5 then toUpperCase ext
         else (let subtype = nullish (at_index (split_on (CHR ''/'') contentType) 1) fallback
               in toUpperCase (slice (replace_first x_prefix [] subtype) 0 8)))"

section \<open>Tabs and class names\<close>

datatype tab = Html | Text | Headers | Raw_tab | Attachments | Links

record tab_info =
  tb_id :: tab
  tb_label :: string
  tb_count :: "nat option"

definition messageTabs :: "web_message \<Rightarrow> tab_info list" where
  "messageTabs m =
     [\<lparr>tb_id = Html, tb_label = ''tab.html'', tb_count = None\<rparr>,
      \<lparr>tb_id = Text, tb_label = ''tab.text'', tb_count = None\<rparr>,
      \<lparr>tb_id = Headers, tb_label = ''tab.headers'', tb_count = None\<rparr>,
      \<lparr>tb_id = Raw_tab, tb_label = ''tab.raw'', tb_count = None\<rparr>,
      \<lparr>tb_id = Attachments, tb_label = ''tab.attachments'', tb_count = Some (length (wm_attachments m))\<rparr>,
      \<lparr>tb_id = Links, tb_label = ''tab.links'', tb_count = Some (length (wm_links m))\<rparr>]"

definition effectiveTab :: "tab \<Rightarrow> web_message \<Rightarrow> tab" where
  "effectiveTab t m =
     (if t = Html \<and> wm_html m = [] \<and> wm_text m \<noteq> [] then Text
      else if t = Text \<and> wm_text m = [] \<and> wm_html m \<noteq> [] then Html
      else t)"

text \<open>A falsy class is \<open>None\<close> or empty.\<close>

definition cn :: "string option list \<Rightarrow> string" where
  "cn classes = join '' '' (map the (filter truthy classes))"

section \<open>The HTML preview\<close>

definition cid_char :: "char \<Rightarrow> bool" where
  "cid_char c \<longleftrightarrow> c \<noteq> CHR 0x22 \<and> c \<noteq> CHR 0x27 \<and> \<not> is_space c \<and> c \<noteq> CHR '')'' \<and> c \<noteq> CHR ''>''"

definition cid_pattern :: regex where
  "cid_pattern = Seq (litI ''cid:'') (Grp 1 (plus (Cls cid_char)))"

definition by_cid :: "web_message \<Rightarrow> string \<Rightarrow> (string \<times> string) list" where
  "by_cid m origin = fold (\<lambda>a cs. if truthy (at_contentId a)
     then obj_set (toLowerCase (nullish (at_contentId a) [])) (origin @ attachmentUrl (wm_id m) (at_id a)) cs else cs)
     (wm_attachments m) []"

definition cid_target :: "(string \<times> string) list \<Rightarrow> rmatch_result \<Rightarrow> string" where
  "cid_target cs m =
     (let cid = nullish (m_group m 1) []; key = nullish (decodeURIComponent cid) cid
      in nullish (map_of cs (toLowerCase key)) (m_text m))"

definition prepareHtml :: "web_message \<Rightarrow> string \<Rightarrow> string" where
  "prepareHtml m origin =
     ''<base target='' @ [CHR 0x22] @ ''_blank'' @ [CHR 0x22] @ ''>'' @ replace_all cid_pattern (cid_target (by_cid m origin)) (wm_html m)"

section \<open>Title and badge\<close>

definition page_title :: "nat \<Rightarrow> string \<Rightarrow> string" where
  "page_title count title = (if 0 < count then ''('' @ show_nat count @ '') '' @ title else title)"

definition badge_text :: "nat \<Rightarrow> string" where
  "badge_text count = (if 9 < count then ''9+'' else show_nat count)"

section \<open>Lemmas\<close>

lemma scale_spec:
  assumes "scale val unit = (v, u)" "unit < length units"
  shows "v * 1024 ^ (u - unit) = val \<and> unit \<le> u \<and> u < length units \<and> (v < 1024 \<or> u = length units - 1) \<and>
    (1 \<le> val \<longrightarrow> 1 \<le> v)"
  using assms
proof (induction val unit rule: scale.induct)
  case (1 val unit)
  show ?case
  proof (cases "1024 \<le> val \<and> unit < length units - 1")
    case True
    with 1(2) have s: "scale (val / 1024) (unit + 1) = (v, u)" by (simp add: scale.simps [of val])
    from 1(1) [OF True s] True have IH: "v * 1024 ^ (u - (unit + 1)) = val / 1024" "unit + 1 \<le> u" "u < length units"
      "v < 1024 \<or> u = length units - 1" "1 \<le> v" by auto
    then have "u - unit = Suc (u - (unit + 1))" by simp
    with IH show ?thesis by simp
  next
    case False
    with 1(2,3) show ?thesis by (auto simp: scale.simps [of val])
  qed
qed

lemma length_upper_of: "c \<noteq> CHR 0xDF \<Longrightarrow> length (upper_of c) = 1"
proof -
  assume ne: "c \<noteq> CHR 0xDF"
  have "(of_char (CHR 0xDF) :: nat) = 223" by simp
  with ne have "(of_char c :: nat) \<noteq> 223" by (metis of_char_eq_iff)
  then show ?thesis by (simp add: upper_of_def Let_def)
qed

lemma length_toUpperCase: "CHR 0xDF \<notin> set s \<Longrightarrow> length (toUpperCase s) = length s"
  by (induction s) (auto simp: toUpperCase_def length_upper_of)

lemma by_cid_none: "list_all (\<lambda>a. \<not> truthy (at_contentId a)) (wm_attachments m) \<Longrightarrow> by_cid m origin = []"
proof -
  have "list_all (\<lambda>a. \<not> truthy (at_contentId a)) xs \<Longrightarrow>
      fold (\<lambda>a cs. if truthy (at_contentId a) then g a cs else cs) xs ys = ys" for xs g and ys :: "(string \<times> string) list"
    by (induction xs) auto
  then show "list_all (\<lambda>a. \<not> truthy (at_contentId a)) (wm_attachments m) \<Longrightarrow> by_cid m origin = []"
    by (simp add: by_cid_def)
qed

lemma replace_first_subset: "set (replace_first r [] s) \<subseteq> set s"
proof (cases "search r [] s")
  case (Some p)
  then obtain skip m b' r' where "search r [] s = Some (skip, m, b', r')" by (cases p) auto
  with search_split [OF this] show ?thesis by (auto simp: replace_first_def)
qed (simp add: replace_first_def)

section \<open>The properties\<close>

text \<open>
  A size of at least a kilobyte is shown in the unit that keeps the number between 1 and 1024 (or in
  gigabytes), with one fraction digit below ten, and number times unit is the size.
\<close>

theorem formatBytes_unit:
  assumes "1024 \<le> n"
  shows "\<exists>v u. formatBytes i n loc = in_number i loc (if v < 10 then 1 else 0) v @ '' '' @ units ! u \<and>
    v * 1024 ^ Suc u = of_int n \<and> 1 \<le> v \<and> u < length units \<and> (v < 1024 \<or> units ! u = ''GB'')"
proof -
  obtain v u where s: "scale (of_int n / 1024) 0 = (v, u)" by fastforce
  have "(1 :: rat) \<le> of_int n / 1024" using assms by simp
  moreover have "v * 1024 ^ u = of_int n / 1024" "u < length units" "v < 1024 \<or> u = length units - 1"
    "(1 :: rat) \<le> of_int n / 1024 \<longrightarrow> 1 \<le> v"
    using scale_spec [OF s] by (simp_all add: units_def)
  ultimately show ?thesis
    using assms s by (intro exI [of _ v] exI [of _ u]) (auto simp: formatBytes_def units_def)
qed

theorem formatBytes_unit_witness:
  "\<exists>v u. formatBytes \<lparr>in_number = (\<lambda>_ _ _. []), in_toDateString = (\<lambda>_. []), in_time = (\<lambda>_ _. []), in_day = (\<lambda>_ _. []),
      in_dateTime = (\<lambda>_ _. [])\<rparr> 2048 None = in_number \<lparr>in_number = (\<lambda>_ _ _. []), in_toDateString = (\<lambda>_. []),
      in_time = (\<lambda>_ _. []), in_day = (\<lambda>_ _. []), in_dateTime = (\<lambda>_ _. [])\<rparr> None (if v < 10 then 1 else 0) v @ '' '' @ units ! u \<and>
    v * 1024 ^ Suc u = of_int 2048 \<and> 1 \<le> v \<and> u < length units \<and> (v < 1024 \<or> units ! u = ''GB'')"
  by (rule formatBytes_unit) simp

text \<open>
  A file's label never has more than eight characters, provided neither its name nor its type nor the
  fallback has a sharp s, whose capital form is two letters.
\<close>

theorem fileTypeLabel_short:
  assumes "CHR 0xDF \<notin> set (filename @ contentType @ fallback)"
  shows "length (fileTypeLabel filename contentType fallback) \<le> 8"
proof -
  have parts: "CHR 0xDF \<notin> set x" if "x \<in> set (split_on c s)" "CHR 0xDF \<notin> set s" for x c and s :: string
    using that
  proof (induction s arbitrary: x)
    case (Cons d s)
    obtain p ps where p: "split_on c s = p # ps" by (metis split_on_ne list.exhaust)
    with Cons.prems Cons.IH [of p] Cons.IH [of x] show ?case by (auto split: if_splits)
  qed simp
  have ext: "CHR 0xDF \<notin> set (last (split_on (CHR ''.'') filename))"
    using parts [OF last_in_set [OF split_on_ne], of filename "CHR ''.''"] assms by simp
  let ?sub = "nullish (at_index (split_on (CHR ''/'') contentType) 1) fallback"
  have "CHR 0xDF \<notin> set ?sub"
    using parts [OF nth_mem, of 1 "CHR ''/''" contentType] assms at_index_nat [of "split_on (CHR ''/'') contentType" 1] by auto
  then have "CHR 0xDF \<notin> set (take 8 (replace_first x_prefix [] ?sub))"
    using replace_first_subset [of x_prefix ?sub] by (meson in_set_takeD subsetD)
  with ext length_toUpperCase show ?thesis
    using slice_take [of "replace_first x_prefix [] ?sub" 8]
    by (simp add: fileTypeLabel_def Let_def del: nullish_def)
qed

theorem fileTypeLabel_short_witness:
  "length (fileTypeLabel ''invoice.pdf'' ''application/pdf'' ''file'') \<le> 8"
  by (rule fileTypeLabel_short) simp

text \<open>
  The tab that is opened is one with content whenever the message has any body: asking for the HTML of
  a text-only message shows the text and the other way round, any other request is honoured,
  and asking again changes nothing.
\<close>

theorem effectiveTab_shows_content:
  "effectiveTab (effectiveTab t m) m = effectiveTab t m \<and>
   (effectiveTab t m \<noteq> t \<longleftrightarrow> t = Html \<and> wm_html m = [] \<and> wm_text m \<noteq> [] \<or> t = Text \<and> wm_text m = [] \<and> wm_html m \<noteq> []) \<and>
   \<not> (effectiveTab t m = Html \<and> wm_html m = [] \<and> wm_text m \<noteq> []) \<and>
   \<not> (effectiveTab t m = Text \<and> wm_text m = [] \<and> wm_html m \<noteq> []) \<and>
   effectiveTab t m \<in> tb_id ` set (messageTabs m)"
  by (cases t) (auto simp: effectiveTab_def messageTabs_def)

text \<open>
  The preview of a message without inline attachments is its HTML, unchanged, behind the \<open>base\<close> element
  that opens links in a new tab: no reference is rewritten by accident.
\<close>

theorem prepareHtml_plain:
  assumes "list_all (\<lambda>a. \<not> truthy (at_contentId a)) (wm_attachments m)"
  shows "prepareHtml m origin = ''<base target='' @ [CHR 0x22] @ ''_blank'' @ [CHR 0x22] @ ''>'' @ wm_html m"
proof -
  have "cid_target [] = m_text" by (simp add: fun_eq_iff cid_target_def Let_def)
  then show ?thesis by (simp add: prepareHtml_def by_cid_none [OF assms] replace_all_id)
qed

definition plain_message :: web_message where
  "plain_message = \<lparr>wm_id = ''1'', wm_messageId = None, wm_from = \<lparr>a_name = None, a_address = ''a@x''\<rparr>, wm_to = [], wm_cc = [],
     wm_replyTo = [], wm_subject = [], wm_date = None, wm_text = [], wm_html = ''<p>cid:x</p>'', wm_headers = [],
     wm_attachments = [], wm_links = [], wm_envelope = \<lparr>env_from = [], env_to = []\<rparr>, wm_size = 0, wm_createdAt = []\<rparr>"

theorem prepareHtml_plain_witness:
  "prepareHtml plain_message ''http://x'' = ''<base target='' @ [CHR 0x22] @ ''_blank'' @ [CHR 0x22] @ ''>'' @ wm_html plain_message"
  by (rule prepareHtml_plain) (simp add: plain_message_def)

end
