(* ===== verification/Messages_Hook.thy ===== *)
theory Messages_Hook
  imports Web_Format
begin

text \<open>
  The message list of the web interface (\<open>web/src/hooks/useMessages.ts\<close>): an asynchronous state
  machine of refs, an abort controller and a timer. Requests are answered in any order, or fail;
  the user refreshes, scrolls, changes its search and goes away at any time. A step is an event;
  the theorems hold for every sequence of them. The locale \<open>page_source\<close> states what the hook
  relies on the server for, and \<open>listing\<close> interprets it on the store's pages.
\<close>

section \<open>The hook's state\<close>

definition PAGE_SIZE :: nat where "PAGE_SIZE = 50"

record list_state =
  ls_messages :: "web_summary list"
  ls_total :: int
  ls_nextCursor :: "string option"
  ls_loaded :: bool
  ls_error :: "problem option"

text \<open>One call of \<open>load\<close> that waits for its answer: what it captured when it started.\<close>

record load =
  ld_id :: nat
  ld_aborted :: bool
  ld_append :: bool
  ld_query :: string
  ld_messages :: "web_summary list"
  ld_cursor :: "string option"
  ld_limit :: nat
  ld_generation :: nat

record hook =
  hk_current :: list_state
  hk_wanted :: nat
  hk_generation :: nat
  hk_synced :: int
  hk_controller :: "nat option"
  hk_pending :: bool
  hk_query :: string
  hk_loads :: "load list"
  hk_started :: nat
  hk_mounted :: bool

text \<open>How a call of \<open>load\<close> is answered: the page, and the count when it asked for it, or a rejection.\<close>

datatype outcome = Answer message_page int | Failure web_error

section \<open>Its operations\<close>

definition abort_current :: "hook \<Rightarrow> hook" where
  "abort_current s = s\<lparr>hk_loads := map (\<lambda>l. if hk_controller s = Some (ld_id l) then l\<lparr>ld_aborted := True\<rparr> else l) (hk_loads s)\<rparr>"

definition wants_append :: "hook \<Rightarrow> bool" where
  "wants_append s \<longleftrightarrow> hk_synced s = int (hk_generation s) \<and> ls_nextCursor (hk_current s) \<noteq> None \<and>
     length (ls_messages (hk_current s)) < hk_wanted s"

definition load_of :: "hook \<Rightarrow> load" where
  "load_of s =
     (let cur = hk_current s; append = wants_append s in
      \<lparr>ld_id = hk_started s, ld_aborted = False, ld_append = append, ld_query = hk_query s,
       ld_messages = ls_messages cur, ld_cursor = (if append then ls_nextCursor cur else None),
       ld_limit = (if append then hk_wanted s - length (ls_messages cur) else max (hk_wanted s) PAGE_SIZE),
       ld_generation = hk_generation s\<rparr>)"

text \<open>\<open>load\<close> up to its first \<open>await\<close>.\<close>

definition start_load :: "hook \<Rightarrow> hook" where
  "start_load s = (let s1 = abort_current s in
     s1\<lparr>hk_controller := Some (hk_started s), hk_loads := hk_loads s1 @ [load_of s1], hk_started := hk_started s + 1\<rparr>)"

text \<open>The rest of \<open>load\<close>, when its answer is there.\<close>

definition finish_load :: "load \<Rightarrow> outcome \<Rightarrow> hook \<Rightarrow> hook" where
  "finish_load l answer s =
     (if ld_aborted l then s
      else case answer of
        Answer pg n_total \<Rightarrow>
          if ld_append l
          then s\<lparr>hk_current := (hk_current s)\<lparr>ls_messages := ld_messages l @ mp_messages pg,
                 ls_nextCursor := mp_nextCursor pg\<rparr>\<rparr>
          else s\<lparr>hk_synced := int (ld_generation l),
                 hk_current := \<lparr>ls_messages = mp_messages pg, ls_total = n_total, ls_nextCursor = mp_nextCursor pg,
                   ls_loaded = True, ls_error = None\<rparr>\<rparr>
      | Failure e \<Rightarrow>
          s\<lparr>hk_wanted := length (ls_messages (hk_current s)),
            hk_current := (hk_current s)\<lparr>ls_loaded := True, ls_error := Some (describeError e)\<rparr>\<rparr>)"

definition settle :: "nat \<Rightarrow> outcome \<Rightarrow> hook \<Rightarrow> hook" where
  "settle i answer s = (case find (\<lambda>l. ld_id l = i) (hk_loads s) of
     None \<Rightarrow> s
   | Some l \<Rightarrow> finish_load l answer (s\<lparr>hk_loads := filter (\<lambda>l. ld_id l \<noteq> i) (hk_loads s)\<rparr>))"

definition refresh :: "hook \<Rightarrow> hook" where
  "refresh s = s\<lparr>hk_generation := hk_generation s + 1, hk_pending := True\<rparr>"

definition timer_fires :: "hook \<Rightarrow> hook" where
  "timer_fires s = (if hk_pending s then start_load (s\<lparr>hk_pending := False\<rparr>) else s)"

definition loadMore :: "hook \<Rightarrow> hook" where
  "loadMore s = (let cur = hk_current s in
     if ls_nextCursor cur = None \<or> length (ls_messages cur) < hk_wanted s then s
     else start_load (s\<lparr>hk_wanted := length (ls_messages cur) + PAGE_SIZE\<rparr>))"

text \<open>The effect of a new search; it also runs when the hook is mounted.\<close>

definition set_query :: "string \<Rightarrow> hook \<Rightarrow> hook" where
  "set_query q s = start_load (s\<lparr>hk_query := q, hk_wanted := PAGE_SIZE, hk_generation := hk_generation s + 1\<rparr>)"

definition unmount :: "hook \<Rightarrow> hook" where
  "unmount s = (abort_current s)\<lparr>hk_pending := False, hk_mounted := False\<rparr>"

definition useMessages :: "string \<Rightarrow> hook" where
  "useMessages q = set_query q \<lparr>hk_current = \<lparr>ls_messages = [], ls_total = 0, ls_nextCursor = None, ls_loaded = False,
       ls_error = None\<rparr>, hk_wanted = PAGE_SIZE, hk_generation = 0, hk_synced = -1, hk_controller = None,
     hk_pending = False, hk_query = q, hk_loads = [], hk_started = 0, hk_mounted = True\<rparr>"

definition hasMore :: "hook \<Rightarrow> bool" where
  "hasMore s \<longleftrightarrow> ls_nextCursor (hk_current s) \<noteq> None"

section \<open>Its events\<close>

text \<open>A load may be answered by what \<open>served\<close> allows for its query, limit and cursor, or fail.\<close>

definition may_answer :: "(string \<Rightarrow> nat \<Rightarrow> string option \<Rightarrow> message_page) \<Rightarrow> (string \<Rightarrow> int) \<Rightarrow> load \<Rightarrow> outcome \<Rightarrow> bool" where
  "may_answer served count l answer = (case answer of
     Failure e \<Rightarrow> True
   | Answer pg n_total \<Rightarrow> pg = served (ld_query l) (ld_limit l) (ld_cursor l) \<and> n_total = count (ld_query l))"

inductive hook_step :: "(string \<Rightarrow> nat \<Rightarrow> string option \<Rightarrow> message_page) \<Rightarrow> (string \<Rightarrow> int) \<Rightarrow> hook \<Rightarrow> hook \<Rightarrow> bool"
  for served count where
  refreshes: "hk_mounted s \<Longrightarrow> hook_step served count s (refresh s)"
| fires: "hk_mounted s \<Longrightarrow> hook_step served count s (timer_fires s)"
| scrolls: "hk_mounted s \<Longrightarrow> hook_step served count s (loadMore s)"
| searches: "hk_mounted s \<Longrightarrow> hook_step served count s (set_query q s)"
| answered: "l \<in> set (hk_loads s) \<Longrightarrow> may_answer served count l answer \<Longrightarrow>
    hook_step served count s (settle (ld_id l) answer s)"
| leaves: "hk_mounted s \<Longrightarrow> hook_step served count s (unmount s)"

inductive hook_reachable :: "(string \<Rightarrow> nat \<Rightarrow> string option \<Rightarrow> message_page) \<Rightarrow> (string \<Rightarrow> int) \<Rightarrow> hook \<Rightarrow> bool"
  for served count where
  mounts: "hook_reachable served count (useMessages q)"
| steps: "hook_reachable served count s \<Longrightarrow> hook_step served count s s' \<Longrightarrow> hook_reachable served count s'"

text \<open>The loads whose answers still count.\<close>

definition live_loads :: "hook \<Rightarrow> load list" where
  "live_loads s = filter (\<lambda>l. \<not> ld_aborted l) (hk_loads s)"

section \<open>Which answers count\<close>

text \<open>
  Only the newest load is not aborted; it is for the current search, and one that appends
  captured the messages and the cursor that are still shown.
\<close>

definition loads_ok :: "hook \<Rightarrow> bool" where
  "loads_ok s \<longleftrightarrow> distinct (map ld_id (hk_loads s)) \<and>
     (\<forall>l \<in> set (hk_loads s). ld_id l < hk_started s \<and> 0 < ld_limit l) \<and>
     (\<forall>l \<in> set (hk_loads s). \<not> ld_aborted l \<longrightarrow> hk_controller s = Some (ld_id l) \<and> hk_mounted s \<and> ld_query l = hk_query s \<and>
        (ld_append l \<longrightarrow> ld_messages l = ls_messages (hk_current s) \<and> ld_cursor l = ls_nextCursor (hk_current s) \<and>
           ld_cursor l \<noteq> None \<and> ld_limit l = hk_wanted s - length (ls_messages (hk_current s)) \<and>
           length (ls_messages (hk_current s)) < hk_wanted s) \<and>
        (\<not> ld_append l \<longrightarrow> ld_cursor l = None \<and> ld_limit l = max (hk_wanted s) PAGE_SIZE))"

lemma abort_current_simps [simp]:
  "hk_current (abort_current s) = hk_current s" "hk_wanted (abort_current s) = hk_wanted s"
  "hk_generation (abort_current s) = hk_generation s" "hk_synced (abort_current s) = hk_synced s"
  "hk_controller (abort_current s) = hk_controller s" "hk_pending (abort_current s) = hk_pending s"
  "hk_query (abort_current s) = hk_query s" "hk_started (abort_current s) = hk_started s"
  "hk_mounted (abort_current s) = hk_mounted s"
  by (simp_all add: abort_current_def)

lemma abort_all:
  assumes "\<forall>l \<in> set (hk_loads s). \<not> ld_aborted l \<longrightarrow> hk_controller s = Some (ld_id l)" "l \<in> set (hk_loads (abort_current s))"
  shows "ld_aborted l"
  using assms by (auto simp: abort_current_def split: if_splits)

lemma abort_ids [simp]: "map ld_id (hk_loads (abort_current s)) = map ld_id (hk_loads s)"
  "map ld_limit (hk_loads (abort_current s)) = map ld_limit (hk_loads s)"
  by (simp_all add: abort_current_def)

lemma PAGE_SIZE_pos [simp]: "0 < PAGE_SIZE"
  by (simp add: PAGE_SIZE_def)

text \<open>Starting a load needs only that the running one is the controller's.\<close>

definition loads_pre :: "hook \<Rightarrow> bool" where
  "loads_pre s \<longleftrightarrow> hk_mounted s \<and> distinct (map ld_id (hk_loads s)) \<and>
     (\<forall>l \<in> set (hk_loads s). ld_id l < hk_started s \<and> 0 < ld_limit l \<and>
        (\<not> ld_aborted l \<longrightarrow> hk_controller s = Some (ld_id l)))"

lemma loads_ok_pre: "loads_ok s \<Longrightarrow> hk_mounted s \<Longrightarrow> loads_pre s"
  by (auto simp: loads_ok_def loads_pre_def)

lemma start_load_simps [simp]:
  "hk_current (start_load s) = hk_current s" "hk_wanted (start_load s) = hk_wanted s"
  "hk_generation (start_load s) = hk_generation s" "hk_synced (start_load s) = hk_synced s"
  "hk_pending (start_load s) = hk_pending s" "hk_query (start_load s) = hk_query s"
  "hk_mounted (start_load s) = hk_mounted s" "hk_started (start_load s) = hk_started s + 1"
  "hk_controller (start_load s) = Some (hk_started s)"
  by (simp_all add: start_load_def Let_def)

lemma load_of_abort: "load_of (abort_current s) = load_of s"
  by (auto simp: load_of_def wants_append_def Let_def)

lemma start_load_loads: "hk_loads (start_load s) = hk_loads (abort_current s) @ [load_of s]"
  by (simp add: start_load_def Let_def load_of_abort)

lemma start_load_live:
  assumes "loads_pre s"
  shows "live_loads (start_load s) = [load_of s]"
proof -
  have "filter (\<lambda>l. \<not> ld_aborted l) (hk_loads (abort_current s)) = []"
    using abort_all [of s] assms by (auto simp: filter_empty_conv loads_pre_def)
  then show ?thesis by (simp add: live_loads_def start_load_loads load_of_def Let_def)
qed

lemma start_load_ok:
  assumes "loads_pre s"
  shows "loads_ok (start_load s)"
proof -
  have ids: "distinct (map ld_id (hk_loads (start_load s)))"
    using assms by (auto simp: start_load_loads loads_pre_def load_of_def Let_def simp del: map_map)
  have ab: "l \<in> set (hk_loads (abort_current s)) \<Longrightarrow> ld_aborted l \<and> ld_id l < hk_started s \<and> 0 < ld_limit l" for l
    using assms by (auto simp: loads_pre_def abort_current_def split: if_splits)
  have "0 < ld_limit (load_of s)" by (simp add: load_of_def Let_def wants_append_def max_def)
  with ids ab assms show ?thesis
    unfolding loads_ok_def
    by (auto simp: start_load_loads load_of_def Let_def wants_append_def loads_pre_def less_Suc_eq)
qed

text \<open>When the load that counts is answered, no other one counts.\<close>

lemma settle_unfold:
  assumes "loads_ok s" "l \<in> set (hk_loads s)"
  shows "settle (ld_id l) answer s = finish_load l answer (s\<lparr>hk_loads := filter (\<lambda>k. ld_id k \<noteq> ld_id l) (hk_loads s)\<rparr>)"
proof -
  have d: "distinct (map ld_id (hk_loads s))" using assms(1) by (simp add: loads_ok_def)
  obtain k where k: "find (\<lambda>k. ld_id k = ld_id l) (hk_loads s) = Some k"
    using assms(2) by (cases "find (\<lambda>k. ld_id k = ld_id l) (hk_loads s)") (auto simp: find_None_iff)
  then have "k \<in> set (hk_loads s)" "ld_id k = ld_id l" by (auto simp: find_Some_iff)
  with d assms(2) have "k = l" by (meson distinct_map inj_onD)
  with k show ?thesis by (simp add: settle_def)
qed

lemma rest_aborted:
  assumes "loads_ok s" "l \<in> set (hk_loads s)" "\<not> ld_aborted l" "k \<in> set (hk_loads s)" "ld_id k \<noteq> ld_id l"
  shows "ld_aborted k"
proof (rule ccontr)
  assume "\<not> ld_aborted k"
  with assms have "hk_controller s = Some (ld_id k)" "hk_controller s = Some (ld_id l)"
    unfolding loads_ok_def by blast+
  with assms(5) show False by simp
qed

definition dropped :: "load \<Rightarrow> hook \<Rightarrow> hook" where
  "dropped l s = s\<lparr>hk_loads := filter (\<lambda>k. ld_id k \<noteq> ld_id l) (hk_loads s)\<rparr>"

lemma live_dropped:
  assumes "loads_ok s" "l \<in> set (hk_loads s)" "\<not> ld_aborted l"
  shows "live_loads (dropped l s) = []"
  using rest_aborted [OF assms] by (auto simp: live_loads_def dropped_def filter_empty_conv)

lemma live_dropped_aborted:
  assumes "ld_aborted l" "loads_ok s" "l \<in> set (hk_loads s)"
  shows "live_loads (dropped l s) = live_loads s"
proof -
  have "ld_id k \<noteq> ld_id l" if "k \<in> set (hk_loads s)" "\<not> ld_aborted k" for k
    using that assms unfolding loads_ok_def distinct_map by (metis inj_onD)
  then show ?thesis by (auto simp: live_loads_def dropped_def intro: filter_cong)
qed

lemma loads_ok_dropped: "loads_ok s \<Longrightarrow> loads_ok (dropped l s)"
  by (auto simp: loads_ok_def dropped_def distinct_map_filter)

lemma loads_ok_no_live:
  assumes "loads_ok s" "live_loads s = []" "hk_loads s' = hk_loads s" "hk_started s' = hk_started s"
  shows "loads_ok s'"
  using assms by (auto simp: loads_ok_def live_loads_def filter_empty_conv)

lemma finish_load_loads [simp]: "hk_loads (finish_load l answer s) = hk_loads s"
  "hk_started (finish_load l answer s) = hk_started s" "hk_mounted (finish_load l answer s) = hk_mounted s"
  "hk_query (finish_load l answer s) = hk_query s" "hk_generation (finish_load l answer s) = hk_generation s"
  "hk_pending (finish_load l answer s) = hk_pending s"
  by (simp_all add: finish_load_def split: outcome.splits)

lemma live_finish [simp]: "live_loads (finish_load l answer s) = live_loads s"
  by (simp add: live_loads_def)

lemma settle_ok:
  assumes "loads_ok s" "l \<in> set (hk_loads s)"
  shows "loads_ok (settle (ld_id l) answer s)"
proof -
  have eq: "settle (ld_id l) answer s = finish_load l answer (dropped l s)"
    using settle_unfold [OF assms] by (simp add: dropped_def)
  show ?thesis
  proof (cases "ld_aborted l")
    case True
    with loads_ok_dropped [OF assms(1)] show ?thesis by (simp add: eq finish_load_def)
  next
    case False
    from loads_ok_no_live [OF loads_ok_dropped [OF assms(1)] live_dropped [OF assms False]] show ?thesis
      by (simp add: eq)
  qed
qed

lemma abort_aborted: "loads_ok s \<Longrightarrow> l \<in> set (hk_loads (abort_current s)) \<Longrightarrow> ld_aborted l"
  by (rule abort_all) (auto simp: loads_ok_def)

lemma unmount_ok:
  assumes "loads_ok s"
  shows "loads_ok (unmount s)"
proof -
  from abort_aborted [OF assms] have "l \<in> set (hk_loads (unmount s)) \<Longrightarrow> ld_aborted l" for l by (simp add: unmount_def)
  moreover have "l \<in> set (hk_loads (unmount s)) \<Longrightarrow> ld_id l < hk_started s \<and> 0 < ld_limit l" for l
    using assms by (auto simp: unmount_def abort_current_def loads_ok_def split: if_splits)
  ultimately show ?thesis using assms by (auto simp: loads_ok_def unmount_def)
qed

lemma refresh_loads_ok [simp]: "loads_ok (refresh s) \<longleftrightarrow> loads_ok s"
  unfolding loads_ok_def refresh_def by simp

lemma hook_step_loads_ok: "hook_step served count s s' \<Longrightarrow> loads_ok s \<Longrightarrow> loads_ok s'"
proof (induction rule: hook_step.induct)
  case (refreshes s)
  then show ?case by simp
next
  case (fires s)
  then show ?case using loads_ok_pre [of s] start_load_ok [of "s\<lparr>hk_pending := False\<rparr>"]
    by (simp add: timer_fires_def loads_pre_def)
next
  case (scrolls s)
  then show ?case using loads_ok_pre [of s] start_load_ok [of "s\<lparr>hk_wanted := length (ls_messages (hk_current s)) + PAGE_SIZE\<rparr>"]
    by (simp add: loadMore_def Let_def loads_pre_def)
next
  case (searches s q)
  then show ?case using loads_ok_pre [of s]
      start_load_ok [of "s\<lparr>hk_query := q, hk_wanted := PAGE_SIZE, hk_generation := hk_generation s + 1\<rparr>"]
    by (simp add: set_query_def loads_pre_def)
qed (auto intro: settle_ok unmount_ok)

lemma useMessages_loads_ok: "loads_ok (useMessages q)"
  unfolding useMessages_def set_query_def by (rule start_load_ok) (simp add: loads_pre_def)

lemma reachable_loads_ok: "hook_reachable served count s \<Longrightarrow> loads_ok s"
  by (induction rule: hook_reachable.induct) (auto intro: useMessages_loads_ok hook_step_loads_ok)

section \<open>Why the list is out of date\<close>

text \<open>
  When the list shown is not of the current generation, a refresh is due, a load is under way or
  the last one failed.
\<close>

definition sync_ok :: "hook \<Rightarrow> bool" where
  "sync_ok s \<longleftrightarrow> hk_synced s \<le> int (hk_generation s) \<and>
     (hk_mounted s \<longrightarrow> hk_synced s = int (hk_generation s) \<or> hk_pending s \<or> live_loads s \<noteq> [] \<or> ls_error (hk_current s) \<noteq> None) \<and>
     (\<forall>l \<in> set (live_loads s). ld_generation l \<le> hk_generation s \<and>
        ((if ld_append l then hk_synced s = int (hk_generation s) else ld_generation l = hk_generation s) \<or> hk_pending s))"

lemma load_of_simps [simp]:
  "ld_generation (load_of s) = hk_generation s" "ld_query (load_of s) = hk_query s" "ld_aborted (load_of s) = False"
  "ld_append (load_of s) = wants_append s" "ld_messages (load_of s) = ls_messages (hk_current s)"
  by (simp_all add: load_of_def Let_def)

lemma start_load_sync:
  assumes "loads_pre s" "hk_synced s \<le> int (hk_generation s)"
  shows "sync_ok (start_load s)"
  using assms(2) start_load_live [OF assms(1)] by (simp add: sync_ok_def wants_append_def)

lemma live_loads_iff: "l \<in> set (live_loads s) \<longleftrightarrow> l \<in> set (hk_loads s) \<and> \<not> ld_aborted l"
  by (auto simp: live_loads_def)

lemma settle_eq: "loads_ok s \<Longrightarrow> l \<in> set (hk_loads s) \<Longrightarrow> settle (ld_id l) answer s = finish_load l answer (dropped l s)"
  using settle_unfold by (simp add: dropped_def)

lemma dropped_simps [simp]:
  "hk_current (dropped l s) = hk_current s" "hk_wanted (dropped l s) = hk_wanted s"
  "hk_generation (dropped l s) = hk_generation s" "hk_synced (dropped l s) = hk_synced s"
  "hk_pending (dropped l s) = hk_pending s" "hk_query (dropped l s) = hk_query s"
  "hk_mounted (dropped l s) = hk_mounted s"
  by (simp_all add: dropped_def)

lemma settle_sync:
  assumes ok: "loads_ok s" "sync_ok s" and l: "l \<in> set (hk_loads s)"
  shows "sync_ok (settle (ld_id l) answer s)"
proof (cases "ld_aborted l")
  case True
  then show ?thesis using ok live_dropped_aborted [OF True ok(1) l]
    by (auto simp: settle_eq [OF ok(1) l] finish_load_def sync_ok_def)
next
  case False
  then have live: "l \<in> set (live_loads s)" using l by (simp add: live_loads_iff)
  note none = live_dropped [OF ok(1) l False]
  show ?thesis
  proof (cases answer)
    case (Answer pg n)
    have le: "hk_synced s \<le> int (hk_generation s)" and g: "ld_generation l \<le> hk_generation s"
      and c: "(if ld_append l then hk_synced s = int (hk_generation s) else ld_generation l = hk_generation s) \<or> hk_pending s"
      using ok(2) live unfolding sync_ok_def by blast+
    have L: "live_loads (settle (ld_id l) answer s) = []" using none by (simp add: settle_eq [OF ok(1) l])
    show ?thesis
    proof (cases "ld_append l")
      case True
      with c le L show ?thesis
        unfolding sync_ok_def L by (auto simp: settle_eq [OF ok(1) l] finish_load_def Answer False)
    next
      case app: False
      with c g L show ?thesis
        unfolding sync_ok_def L by (auto simp: settle_eq [OF ok(1) l] finish_load_def Answer False)
    qed
  next
    case (Failure e)
    have "live_loads (settle (ld_id l) answer s) = []" using none by (simp add: settle_eq [OF ok(1) l])
    then show ?thesis
      using ok(2) by (auto simp: sync_ok_def settle_eq [OF ok(1) l] finish_load_def Failure False)
  qed
qed

lemma live_refresh [simp]: "live_loads (refresh s) = live_loads s"
  by (simp add: live_loads_def refresh_def)

lemma live_unmount: "loads_ok s \<Longrightarrow> live_loads (unmount s) = []"
  using abort_aborted [of s] by (auto simp: live_loads_def filter_empty_conv unmount_def)

lemma hook_step_sync: "hook_step served count s s' \<Longrightarrow> loads_ok s \<Longrightarrow> sync_ok s \<Longrightarrow> sync_ok s'"
proof (induction rule: hook_step.induct)
  case (refreshes s)
  then show ?case by (auto simp: sync_ok_def) (auto simp: refresh_def)
next
  case (fires s)
  then show ?case using loads_ok_pre [of s] start_load_sync [of "s\<lparr>hk_pending := False\<rparr>"]
    by (auto simp: timer_fires_def loads_pre_def sync_ok_def)
next
  case (scrolls s)
  then show ?case using loads_ok_pre [of s] start_load_sync [of "s\<lparr>hk_wanted := length (ls_messages (hk_current s)) + PAGE_SIZE\<rparr>"]
    by (auto simp: loadMore_def Let_def loads_pre_def sync_ok_def)
next
  case (searches s q)
  then show ?case using loads_ok_pre [of s]
      start_load_sync [of "s\<lparr>hk_query := q, hk_wanted := PAGE_SIZE, hk_generation := hk_generation s + 1\<rparr>"]
    by (auto simp: set_query_def loads_pre_def sync_ok_def)
next
  case (leaves s)
  then show ?case using live_unmount [of s] by (simp add: sync_ok_def) (simp add: unmount_def)
qed (rule settle_sync)

lemma reachable_sync: "hook_reachable served count s \<Longrightarrow> sync_ok s"
proof (induction rule: hook_reachable.induct)
  case (mounts q)
  show ?case unfolding useMessages_def set_query_def by (rule start_load_sync) (simp_all add: loads_pre_def)
qed (auto intro: hook_step_sync reachable_loads_ok)

section \<open>What the list shows\<close>

text \<open>
  What answers from one state of the mail are: consecutive parts of one listing, with a cursor wherever
  something is left. (\<open>List_Sync\<close> lets the mail change between and during requests.)
\<close>

locale page_source =
  fixes served :: "string \<Rightarrow> nat \<Rightarrow> string option \<Rightarrow> message_page" and count :: "string \<Rightarrow> int"
    and contents :: "string \<Rightarrow> web_summary list" and cursor_at :: "string \<Rightarrow> nat \<Rightarrow> string option"
  assumes first_page: "0 < n \<Longrightarrow> served q n None = \<lparr>mp_messages = take n (contents q), mp_nextCursor = cursor_at q n\<rparr>"
    and next_page: "0 < n \<Longrightarrow> cursor_at q k \<noteq> None \<Longrightarrow>
      served q n (cursor_at q k) = \<lparr>mp_messages = take n (drop k (contents q)), mp_nextCursor = cursor_at q (k + n)\<rparr>"
    and cursor_iff: "cursor_at q k \<noteq> None \<longleftrightarrow> 0 < k \<and> k < length (contents q)"
    and count_law: "count q = int (length (contents q))"
begin

definition shows_first :: "nat \<Rightarrow> hook \<Rightarrow> bool" where
  "shows_first n s \<longleftrightarrow> (let cur = hk_current s; q = hk_query s in
     0 < n \<and> ls_messages cur = take n (contents q) \<and> ls_nextCursor cur = cursor_at q n \<and> ls_total cur = count q \<and> ls_loaded cur)"

lemma cursor_None: "length (contents q) \<le> k \<Longrightarrow> cursor_at q k = None"
  using cursor_iff [of q k] by auto

lemma shows_first_cong:
  "hk_current s' = hk_current s \<Longrightarrow> hk_query s' = hk_query s \<Longrightarrow> shows_first n s' = shows_first n s"
  by (simp add: shows_first_def)

lemma finish_full:
  assumes "\<not> ld_aborted l" "\<not> ld_append l" "0 < ld_limit l" "ld_cursor l = None" "ld_query l = hk_query s"
    "may_answer served count l (Answer pg n_total)"
  shows "shows_first (ld_limit l) (finish_load l (Answer pg n_total) s)"
  using assms first_page [OF assms(3)] by (simp add: shows_first_def finish_load_def may_answer_def Let_def)

lemma finish_append:
  assumes l: "\<not> ld_aborted l" "ld_append l" "0 < ld_limit l" "ld_query l = hk_query s"
    "ld_messages l = ls_messages (hk_current s)" "ld_cursor l = ls_nextCursor (hk_current s)" "ld_cursor l \<noteq> None"
    and a: "may_answer served count l (Answer pg n_total)" and n: "shows_first n s"
  shows "shows_first (length (ls_messages (hk_current s)) + ld_limit l) (finish_load l (Answer pg n_total) s)"
proof -
  let ?q = "hk_query s" and ?k = "length (ls_messages (hk_current s))"
  from n have m: "ls_messages (hk_current s) = take n (contents ?q)" and c: "ls_nextCursor (hk_current s) = cursor_at ?q n"
    by (simp_all add: shows_first_def Let_def)
  from l(6,7) c cursor_iff [of ?q n] have "n < length (contents ?q)" by simp
  then have k: "?k = n" by (simp add: m)
  from a l c next_page [OF l(3), of ?q n] have "pg = \<lparr>mp_messages = take (ld_limit l) (drop n (contents ?q)), mp_nextCursor = cursor_at ?q (n + ld_limit l)\<rparr>"
    by (simp add: may_answer_def)
  with n l(1-5) show ?thesis unfolding k by (simp add: shows_first_def finish_load_def Let_def m take_add)
qed

end

section \<open>The server's pages\<close>

definition cursor_value :: "string option \<Rightarrow> nat" where
  "cursor_value c = (case c of None \<Rightarrow> 0 | Some t \<Rightarrow> the (read_nat t))"

definition page_answer :: "store_state \<Rightarrow> string \<Rightarrow> nat \<Rightarrow> string option \<Rightarrow> message_page" where
  "page_answer s q n c = (let p = Page (search_filter q) (cursor_value c) n s in
     \<lparr>mp_messages = map (web_summary_of \<circ> Summary) (pg_messages p), mp_nextCursor = cursor_text (pg_next p)\<rparr>)"

definition count_answer :: "store_state \<Rightarrow> string \<Rightarrow> int" where
  "count_answer s q = int (Count (search_filter q) s)"

text \<open>This is what the requests of the page return.\<close>

lemma page_answer_request:
  assumes "0 < n" "n < 2 ^ 63" "cursor_ok c"
  shows "web_listMessages server_fetch q (int n) (cursor_text c) (w, b) = (Inr (page_answer (wd_store w) q n (cursor_text c)), w, b)"
  using server_page [OF assms, of q w b] by (simp add: page_answer_def cursor_value_def cursor_text_def Let_def)

definition stored_listing :: "store_state \<Rightarrow> string \<Rightarrow> web_summary list" where
  "stored_listing s q = map (web_summary_of \<circ> Summary) (rev (filter (Match (search_filter q)) (messages_of s)))"

definition stored_cursor :: "store_state \<Rightarrow> string \<Rightarrow> nat \<Rightarrow> string option" where
  "stored_cursor s q k = (let l = matching_below (search_filter q) 0 s in
     if 0 < k \<and> k < length l then Some (show_nat (en_seq (l ! (k - 1)))) else None)"

lemma stored_listing_below:
  assumes "store_ok s"
  shows "stored_listing s q = map (web_summary_of \<circ> Summary \<circ> en_msg) (matching_below (search_filter q) 0 s)"
proof -
  have "rev (filter (Match (search_filter q)) (messages_of s)) = map en_msg (matching_below (search_filter q) 0 s)"
    using List_messages_spec [OF assms, of "search_filter q"] by (simp add: List_messages_def Page_spec [OF assms] Let_def)
  then show ?thesis by (simp only: stored_listing_def map_map o_assoc)
qed

lemma below_seq_pos: "store_ok s \<Longrightarrow> k < length (matching_below f c s) \<Longrightarrow> 0 < en_seq (matching_below f c s ! k)"
  using nth_mem [of k "matching_below f c s"] by (auto simp: matching_below_def store_ok_def)

text \<open>The well-formed stores, as a type.\<close>

typedef good_store = "{s. store_ok s}"
  using New_ok by blast

lemma good_store_ok: "store_ok (Rep_good_store g)"
  using Rep_good_store by simp

interpretation stored: page_source "page_answer (Rep_good_store g)" "count_answer (Rep_good_store g)"
    "stored_listing (Rep_good_store g)" "stored_cursor (Rep_good_store g)" for g
proof (unfold_locales, goal_cases)
  case (1 n q)
  let ?l = "matching_below (search_filter q) 0 (Rep_good_store g)"
  from 1 have "n < length ?l \<Longrightarrow> en_seq (?l ! (n - 1)) \<noteq> 0"
    using below_seq_pos [OF good_store_ok, of "n - 1" "search_filter q" 0 g] by simp
  with 1 show ?case
    by (auto simp: page_answer_def cursor_value_def Page_spec [OF good_store_ok] stored_listing_below [OF good_store_ok] stored_cursor_def Let_def cursor_text_def
        take_map)
next
  case (2 n q k)
  let ?l = "matching_below (search_filter q) 0 (Rep_good_store g)"
  define c where "c = en_seq (?l ! (k - 1))"
  from 2 have k: "0 < k" "k < length ?l" by (auto simp: stored_cursor_def Let_def split: if_splits)
  then have sc: "stored_cursor (Rep_good_store g) q k = Some (show_nat c)" by (simp add: stored_cursor_def c_def)
  have d: "matching_below (search_filter q) c (Rep_good_store g) = drop k ?l"
    unfolding c_def by (rule matching_below_next [OF good_store_ok k])
  have nth: "n < length ?l - k \<Longrightarrow> drop k ?l ! (n - Suc 0) = ?l ! (k + n - Suc 0) \<and> en_seq (?l ! (k + n - Suc 0)) \<noteq> 0"
    using 2(1) k(2) below_seq_pos [OF good_store_ok, of "k + n - 1" "search_filter q" 0 g] by simp
  have "stored_cursor (Rep_good_store g) q (k + n) =
      cursor_text (if n < length ?l - k then en_seq (drop k ?l ! (n - 1)) else 0)"
    using nth k 2(1) by (auto simp: stored_cursor_def cursor_text_def Let_def)
  with 2(1) show ?case
    by (simp add: sc page_answer_def cursor_value_def Page_spec [OF good_store_ok] d stored_listing_below [OF good_store_ok]
        Let_def take_map drop_map)
next
  case (3 q k)
  then show ?case by (simp add: stored_cursor_def stored_listing_below [OF good_store_ok] Let_def)
next
  case (4 q)
  then show ?case using Count_spec [OF good_store_ok, of "search_filter q"] List_messages_spec [OF good_store_ok, of "search_filter q"]
    by (simp add: count_answer_def stored_listing_def)
qed

section \<open>The properties\<close>

text \<open>
  C12: An answer only ever reaches the list it was asked for: at any time at most one load counts, it is for
  the search shown, and when any other load is answered, or fails, nothing that is shown changes.
\<close>

theorem stale_answers_ignored:
  assumes "hook_reachable served count s"
  shows "length (live_loads s) \<le> 1 \<and> list_all (\<lambda>l. ld_query l = hk_query s) (live_loads s) \<and>
    list_all (\<lambda>l. ld_aborted l \<longrightarrow> hk_current (settle (ld_id l) answer s) = hk_current s) (hk_loads s)"
proof -
  note ok = reachable_loads_ok [OF assms]
  have one: "l = k" if "l \<in> set (live_loads s)" "k \<in> set (live_loads s)" for l k
  proof -
    from that ok have "hk_controller s = Some (ld_id l)" "hk_controller s = Some (ld_id k)"
      unfolding live_loads_iff loads_ok_def by blast+
    moreover have "inj_on ld_id (set (hk_loads s))" using ok by (simp add: loads_ok_def distinct_map)
    ultimately show ?thesis using that by (auto simp: live_loads_iff inj_on_def)
  qed
  have "distinct (live_loads s)" using ok by (simp add: live_loads_def loads_ok_def distinct_map)
  moreover have "card (set (live_loads s)) \<le> 1"
    using one card_le_Suc0_iff_eq [of "set (live_loads s)"] by simp
  ultimately have "length (live_loads s) \<le> 1" by (simp add: distinct_card)
  moreover have "list_all (\<lambda>l. ld_query l = hk_query s) (live_loads s)"
    using ok by (auto simp: list_all_iff live_loads_iff loads_ok_def)
  ultimately show ?thesis
    by (auto simp: list_all_iff settle_eq [OF ok] finish_load_def)
qed

theorem stale_answers_ignored_witness:
  "length (live_loads (useMessages [])) \<le> 1 \<and>
    list_all (\<lambda>l. ld_query l = hk_query (useMessages [])) (live_loads (useMessages [])) \<and>
    list_all (\<lambda>l. ld_aborted l \<longrightarrow> hk_current (settle (ld_id l) (Failure Abort) (useMessages [])) = hk_current (useMessages []))
      (hk_loads (useMessages []))"
  by (rule stale_answers_ignored [OF mounts])

end
