(* ===== verification/Live_Events.thy ===== *)
theory Live_Events
  imports Prelude
begin

text \<open>
  The connection to the server's event stream (\<open>web/src/lib/liveEvents.ts\<close>) and the hook that owns it
  (\<open>hooks/useEvents.ts\<close>), as a state machine: the browser's callbacks and the caller's \<open>close\<close> are the
  steps. An \<open>EventSource\<close> is a number; \<open>disconnect\<close> takes its handlers off, so only the current source
  has callbacks. The invariant says that an open connection has either a source or a retry
  under way, never both, and a closed one neither.
\<close>

section \<open>The connection\<close>

datatype connection_status = Connecting | Live | Offline

datatype mailpeek_event = Message_created | Message_deleted | Messages_cleared | Resync | Connected

definition eventTypes :: "mailpeek_event list" where
  "eventTypes = [Message_created, Message_deleted, Messages_cleared, Resync]"

text \<open>What \<open>JSON.parse\<close> made of an event's data: \<open>None\<close> when it, or reading \<open>id\<close>, throws.\<close>

definition eventId :: "string option option \<Rightarrow> string option" where
  "eventId data = (case data of None \<Rightarrow> None | Some i \<Rightarrow> i)"

text \<open>The calls of \<open>onStatus\<close> and \<open>onEvent\<close>.\<close>

datatype live_call = On_status connection_status | On_event mailpeek_event "string option"

record live =
  lv_source :: "nat option"
  lv_created :: nat
  lv_retry :: "int option"
  lv_attempt :: nat
  lv_closed :: bool
  lv_calls :: "live_call list"

definition emit :: "live_call list \<Rightarrow> live \<Rightarrow> live" where
  "emit cs s = s\<lparr>lv_calls := lv_calls s @ cs\<rparr>"

definition disconnect :: "live \<Rightarrow> live" where
  "disconnect s = s\<lparr>lv_source := None\<rparr>"

definition connect :: "live \<Rightarrow> live" where
  "connect s = s\<lparr>lv_source := Some (lv_created s), lv_created := lv_created s + 1\<rparr>"

definition on_open :: "live \<Rightarrow> live" where
  "on_open s = emit [On_status Live, On_event Connected None] (s\<lparr>lv_attempt := 0\<rparr>)"

definition backoff :: "nat \<Rightarrow> int" where
  "backoff attempt = min (1000 * 2 ^ attempt) 15000"

definition on_error :: "bool \<Rightarrow> live \<Rightarrow> live" where
  "on_error closed_by_server s =
     (if \<not> closed_by_server then emit [On_status Connecting] s
      else (let s = disconnect (emit [On_status Offline] s) in
        if \<not> lv_closed s then s\<lparr>lv_retry := Some (backoff (lv_attempt s)), lv_attempt := lv_attempt s + 1\<rparr> else s))"

definition on_message :: "mailpeek_event \<Rightarrow> string option option \<Rightarrow> live \<Rightarrow> live" where
  "on_message t data s = emit [On_event t (eventId data)] s"

definition close :: "live \<Rightarrow> live" where
  "close s = disconnect (s\<lparr>lv_closed := True, lv_retry := None\<rparr>)"

definition connectLiveEvents :: live where
  "connectLiveEvents = connect \<lparr>lv_source = None, lv_created = 0, lv_retry = None, lv_attempt = 0, lv_closed = False,
     lv_calls = []\<rparr>"

section \<open>Its steps\<close>

inductive live_step :: "live \<Rightarrow> live \<Rightarrow> bool" where
  opened: "lv_source s = Some es \<Longrightarrow> live_step s (on_open s)"
| failed: "lv_source s = Some es \<Longrightarrow> live_step s (on_error closed_by_server s)"
| received: "lv_source s = Some es \<Longrightarrow> t \<in> set eventTypes \<Longrightarrow> live_step s (on_message t data s)"
| retried: "lv_retry s = Some d \<Longrightarrow> live_step s (connect (s\<lparr>lv_retry := None\<rparr>))"
| closed: "live_step s (close s)"

inductive live_reachable :: "live \<Rightarrow> bool" where
  start: "live_reachable connectLiveEvents"
| further: "live_reachable s \<Longrightarrow> live_step s s' \<Longrightarrow> live_reachable s'"

text \<open>The status the page shows (\<open>useEvents\<close>): the last one reported.\<close>

fun last_status :: "live_call list \<Rightarrow> connection_status \<Rightarrow> connection_status" where
  "last_status [] st = st"
| "last_status (On_status x # cs) st = last_status cs x"
| "last_status (On_event e i # cs) st = last_status cs st"

definition useEvents :: "live \<Rightarrow> connection_status" where
  "useEvents s = last_status (lv_calls s) Connecting"

section \<open>The invariant\<close>

definition live_ok :: "live \<Rightarrow> bool" where
  "live_ok s \<longleftrightarrow>
     (if lv_closed s then lv_source s = None \<and> lv_retry s = None
      else (lv_source s = None) \<noteq> (lv_retry s = None)) \<and>
     (\<forall>d. lv_retry s = Some d \<longrightarrow> 1000 \<le> d \<and> d \<le> 15000 \<and> useEvents s = Offline) \<and>
     (\<forall>es. lv_source s = Some es \<longrightarrow> es + 1 = lv_created s)"

lemma backoff_bounds: "1000 \<le> backoff n \<and> backoff n \<le> 15000"
proof -
  have "(1 :: int) \<le> 2 ^ n" by simp
  then show ?thesis by (simp add: backoff_def)
qed

lemma last_status_append [simp]: "last_status (as @ bs) st = last_status bs (last_status as st)"
  by (induction as st rule: last_status.induct) auto

lemmas live_defs = emit_def disconnect_def connect_def on_open_def on_error_def on_message_def close_def useEvents_def

lemma live_step_ok: "live_step s s' \<Longrightarrow> live_ok s \<Longrightarrow> live_ok s'"
  by (induction rule: live_step.induct)
     (auto simp: live_ok_def live_defs backoff_bounds Let_def split: if_splits)

lemma live_reachable_ok: "live_reachable s \<Longrightarrow> live_ok s"
proof (induction rule: live_reachable.induct)
  case start
  show ?case by (simp add: live_ok_def connectLiveEvents_def connect_def)
qed (rule live_step_ok)

inductive_cases live_step_cases: "live_step s s'"

text \<open>\<open>n\<close> failures in a row, each retried when its timer fires; the delays, in order.\<close>

fun outage :: "nat \<Rightarrow> live \<Rightarrow> int list \<times> live" where
  "outage 0 s = ([], s)"
| "outage (Suc n) s = (let s1 = on_error True s; (ds, s2) = outage n (connect (s1\<lparr>lv_retry := None\<rparr>)) in
     (nullish (lv_retry s1) 0 # ds, s2))"

lemma outage_delays:
  "\<not> lv_closed s \<Longrightarrow> fst (outage n s) = map (\<lambda>k. backoff (lv_attempt s + k)) [0..<n]"
proof (induction n arbitrary: s)
  case (Suc n)
  let ?s1 = "on_error True s"
  have "lv_retry ?s1 = Some (backoff (lv_attempt s))" "lv_attempt ?s1 = lv_attempt s + 1" "\<not> lv_closed ?s1"
    using Suc.prems by (simp_all add: live_defs Let_def)
  with Suc.IH [of "connect (?s1\<lparr>lv_retry := None\<rparr>)"] show ?case
    by (simp add: Let_def case_prod_unfold connect_def map_upt_Suc del: upt_Suc)
qed simp

section \<open>The properties\<close>

text \<open>
  C15: Until it is closed the connection never gives up and never doubles: it always has either one event
  source, the newest made, or one retry due within one to fifteen seconds, during which the
  page shows that it is offline; once closed it has neither.
\<close>

theorem connection_invariant:
  assumes "live_reachable s"
  shows "(if lv_closed s then lv_source s = None \<and> lv_retry s = None
      else (lv_source s = None) \<noteq> (lv_retry s = None)) \<and>
    (\<forall>d. lv_retry s = Some d \<longrightarrow> 1000 \<le> d \<and> d \<le> 15000 \<and> useEvents s = Offline) \<and>
    (\<forall>es. lv_source s = Some es \<longrightarrow> es + 1 = lv_created s)"
  using live_reachable_ok [OF assms] by (simp add: live_ok_def)

theorem connection_invariant_witness:
  "lv_retry (on_error True connectLiveEvents) = Some 1000 \<and>
   useEvents (on_error True connectLiveEvents) = Offline \<and> lv_source (on_error True connectLiveEvents) = None"
proof -
  have "live_reachable (on_error True connectLiveEvents)"
    by (rule further [OF start], rule failed [of _ 0]) (simp add: connectLiveEvents_def connect_def)
  note inv = connection_invariant [OF this]
  have retry: "lv_retry (on_error True connectLiveEvents) = Some 1000"
    and alive: "\<not> lv_closed (on_error True connectLiveEvents)"
    by (simp_all add: on_error_def emit_def connectLiveEvents_def connect_def disconnect_def backoff_def)
  from inv [THEN conjunct2, THEN conjunct1, rule_format, OF retry]
  have "useEvents (on_error True connectLiveEvents) = Offline" by (elim conjE)
  moreover from inv have "lv_source (on_error True connectLiveEvents) = None" by (simp only: alive retry if_False) simp
  ultimately show ?thesis using retry by (intro conjI)
qed

text \<open>
  After \<open>close\<close> nothing is heard of the connection: no step reports a status or an event any more.
\<close>

theorem closed_is_silent:
  assumes "live_reachable s" "lv_closed s" "live_step s s'"
  shows "lv_calls s' = lv_calls s \<and> lv_closed s'"
  using assms(3) live_reachable_ok [OF assms(1)] assms(2)
  by (auto elim!: live_step_cases simp: live_ok_def close_def disconnect_def)

theorem closed_is_silent_witness:
  "lv_calls (close (close connectLiveEvents)) = lv_calls (close connectLiveEvents) \<and> lv_closed (close (close connectLiveEvents))"
  by (rule closed_is_silent [OF further [OF start closed] _ closed]) (simp add: close_def disconnect_def)

text \<open>
  In an outage the waits between attempts double from one second and stop growing at fifteen: the
  delays of \<open>n\<close> failures after a successful connection are 1, 2, 4, 8, 15, 15, ... seconds.
\<close>

theorem outage_backoff:
  assumes "\<not> lv_closed s" "lv_attempt s = 0"
  shows "fst (outage n s) = map (\<lambda>k. min (1000 * 2 ^ k) 15000) [0..<n]"
  using outage_delays [OF assms(1), of n] assms(2) by (simp add: backoff_def)

theorem outage_backoff_witness:
  "fst (outage 5 connectLiveEvents) = map (\<lambda>k. min (1000 * 2 ^ k) 15000) [0..<5] \<and>
   map (\<lambda>k. min (1000 * 2 ^ k) 15000) [0..<5] = [1000, 2000, 4000, 8000, 15000 :: int]"
  using outage_backoff [of connectLiveEvents 5]
  by (simp add: connectLiveEvents_def connect_def upt_rec)

end
