(* ===== verification/Inbox_State.thy ===== *)
theory Inbox_State
  imports Messages_Hook Live_Events
begin

text \<open>
  The state of the inbox page: which message is selected and which were seen
  (\<open>web/src/hooks/useSelection.ts\<close>), which arrived while the page was open (\<open>useArrivals.ts\<close>), the
  selected message and its cache (\<open>useMessage.ts\<close>), the raw source (\<open>useRawSource.ts\<close>), the server's
  address (\<open>useServerInfo.ts\<close>) and what the page shows of them (\<open>useInboxState.ts\<close>).
\<close>

section \<open>Selection\<close>

text \<open>A \<open>Set\<close> of identifiers, in insertion order.\<close>

definition addTo :: "string list \<Rightarrow> string \<Rightarrow> string list" where
  "addTo xs i = (if i \<in> set xs then xs else xs @ [i])"

record selection =
  sl_chosen :: "string option"
  sl_seen :: "string list"

definition selectedId :: "web_summary list \<Rightarrow> selection \<Rightarrow> string option" where
  "selectedId msgs s =
     (if list_ex (\<lambda>m. Some (ws_id m) = sl_chosen s) msgs then sl_chosen s
      else map_option ws_id (at_index msgs 0))"

definition choose_id :: "string option \<Rightarrow> selection \<Rightarrow> selection" where
  "choose_id i s = s\<lparr>sl_chosen := i, sl_seen := (if truthy i then addTo (sl_seen s) (nullish i []) else sl_seen s)\<rparr>"

text \<open>What a render does: a selection that is gone is replaced.\<close>

definition selection_render :: "web_summary list \<Rightarrow> bool \<Rightarrow> selection \<Rightarrow> selection" where
  "selection_render msgs loaded s =
     (let sel = selectedId msgs s in if loaded \<and> sel \<noteq> sl_chosen s then choose_id sel s else s)"

definition neighbourOf :: "web_summary list \<Rightarrow> string \<Rightarrow> string option" where
  "neighbourOf msgs i =
     (let index = findIndex (\<lambda>m. ws_id m = i) msgs
      in map_option ws_id (nullish_opt (at_index msgs (index + 1)) (at_index msgs (index - 1))))"

section \<open>Arrivals\<close>

definition arrivals_event :: "mailpeek_event \<Rightarrow> string option \<Rightarrow> string list \<Rightarrow> string list" where
  "arrivals_event t i arrived =
     (if t = Message_created \<and> truthy i then arrived @ [nullish i []]
      else if t = Message_deleted \<and> truthy i then filter (\<lambda>x. x \<noteq> nullish i []) arrived
      else if t = Messages_cleared then []
      else arrived)"

text \<open>Whether the event rings the chime (\<open>onCreated\<close>).\<close>

definition rings :: "mailpeek_event \<Rightarrow> string option \<Rightarrow> bool" where
  "rings t i \<longleftrightarrow> t = Message_created \<and> truthy i"

definition unreadIds :: "string list \<Rightarrow> string list \<Rightarrow> string option \<Rightarrow> string list" where
  "unreadIds arrived seen selected = fold (\<lambda>i xs. addTo xs i)
     (filter (\<lambda>i. i \<notin> set seen \<and> Some i \<noteq> selected) arrived) []"

section \<open>The selected message\<close>

record shown_message =
  sm_id :: "string option"
  sm_message :: "web_message option"
  sm_error :: "problem option"

record message_hook =
  mk_id :: "string option"
  mk_cache :: "(string \<times> web_message) list"
  mk_state :: shown_message
  mk_fetches :: "(string \<times> bool) list"

definition pruneMessageCache :: "string list \<Rightarrow> message_hook \<Rightarrow> message_hook" where
  "pruneMessageCache kept_ids s = s\<lparr>mk_cache := filter (\<lambda>(i, _). i \<in> set kept_ids) (mk_cache s)\<rparr>"

text \<open>A new identifier: the running fetch is cancelled, a new one starts unless the message is cached.\<close>

definition message_effect :: "string option \<Rightarrow> message_hook \<Rightarrow> message_hook" where
  "message_effect i s =
     (let cancelled = map (\<lambda>(k, _). (k, True)) (mk_fetches s) in
      s\<lparr>mk_id := i, mk_fetches := cancelled @
        (if truthy i \<and> map_of (mk_cache s) (nullish i []) = None then [(nullish i [], False)] else [])\<rparr>)"

text \<open>The \<open>k\<close>-th fetch is answered.\<close>

definition message_settle :: "nat \<Rightarrow> web_error + web_message \<Rightarrow> message_hook \<Rightarrow> message_hook" where
  "message_settle k answer s =
     (if length (mk_fetches s) \<le> k then s
      else (case mk_fetches s ! k of (i, cancelled) \<Rightarrow>
        (let s = s\<lparr>mk_fetches := take k (mk_fetches s) @ drop (Suc k) (mk_fetches s)\<rparr> in
         case answer of
           Inr m \<Rightarrow> (let s = s\<lparr>mk_cache := obj_set i m (mk_cache s)\<rparr> in
             if cancelled then s else s\<lparr>mk_state := \<lparr>sm_id = Some i, sm_message = Some m, sm_error = None\<rparr>\<rparr>)
         | Inl e \<Rightarrow>
             if cancelled then s
             else s\<lparr>mk_state := \<lparr>sm_id = Some i, sm_message = None, sm_error = Some (describeError e)\<rparr>\<rparr>)))"

definition useMessage :: "message_hook \<Rightarrow> web_message option \<times> problem option \<times> bool" where
  "useMessage s =
     (if \<not> truthy (mk_id s) then (None, None, False)
      else case map_of (mk_cache s) (nullish (mk_id s) []) of
        Some m \<Rightarrow> (Some m, None, False)
      | None \<Rightarrow>
          if sm_id (mk_state s) = mk_id s
          then (sm_message (mk_state s), sm_error (mk_state s), sm_error (mk_state s) = None)
          else (None, None, True))"

definition new_message_hook :: message_hook where
  "new_message_hook = \<lparr>mk_id = None, mk_cache = [], mk_state = \<lparr>sm_id = None, sm_message = None, sm_error = None\<rparr>, mk_fetches = []\<rparr>"

text \<open>\<open>useRawSource\<close>: like the message, without a cache.\<close>

record raw_state =
  rw_id :: string
  rw_text :: "string option"
  rw_error :: "problem option"

definition raw_settle :: "string \<Rightarrow> bool \<Rightarrow> web_error + string \<Rightarrow> raw_state option \<Rightarrow> raw_state option" where
  "raw_settle i cancelled answer st =
     (if cancelled then st
      else Some (case answer of
        Inr t \<Rightarrow> \<lparr>rw_id = i, rw_text = Some t, rw_error = None\<rparr>
      | Inl e \<Rightarrow> \<lparr>rw_id = i, rw_text = None, rw_error = Some (describeError e)\<rparr>))"

definition useRawSource :: "string \<Rightarrow> raw_state option \<Rightarrow> string option \<times> problem option \<times> bool" where
  "useRawSource i st = (case st of
     Some x \<Rightarrow> if rw_id x = i then (rw_text x, rw_error x, False) else (None, None, True)
   | None \<Rightarrow> (None, None, True))"

section \<open>The server's address\<close>

record server_view =
  sv_smtpAddress :: string
  sv_smtpAuth :: bool
  sv_uiAuth :: bool

text \<open>\<open>answer\<close> is the reply of \<open>getInfo\<close>, once there is one.\<close>

definition useServerInfo :: "string \<Rightarrow> web_info option \<Rightarrow> server_view" where
  "useServerInfo hostname answer =
     \<lparr>sv_smtpAddress = or_str hostname ''localhost'' @ '':'' @ show_int (case answer of None \<Rightarrow> 1026 | Some i \<Rightarrow> wi_smtpPort i),
      sv_smtpAuth = (case answer of None \<Rightarrow> False | Some i \<Rightarrow> wi_smtpAuth i),
      sv_uiAuth = (case answer of None \<Rightarrow> False | Some i \<Rightarrow> wi_uiAuth i)\<rparr>"

section \<open>The page\<close>

datatype list_content = Messages_content | No_results | Placeholder
datatype pane_content = Empty_inbox | Message_content | Error_content | Nothing_content

definition listContent :: "bool \<Rightarrow> bool \<Rightarrow> string \<Rightarrow> list_content" where
  "listContent hasMessages loaded srch =
     (if hasMessages then Messages_content else if loaded \<and> srch \<noteq> [] then No_results else Placeholder)"

definition paneContent :: "bool \<Rightarrow> bool \<Rightarrow> bool \<Rightarrow> pane_content" where
  "paneContent emptyInbox hasMessage hasError =
     (if emptyInbox then Empty_inbox else if hasMessage then Message_content
      else if hasError then Error_content else Nothing_content)"

record inbox_page =
  ip_list :: hook
  ip_selection :: selection
  ip_arrived :: "string list"
  ip_message :: message_hook
  ip_search :: string
  ip_sound :: bool
  ip_chimes :: nat

definition page_event :: "mailpeek_event \<Rightarrow> string option \<Rightarrow> inbox_page \<Rightarrow> inbox_page" where
  "page_event t i p = p\<lparr>ip_list := refresh (ip_list p), ip_arrived := arrivals_event t i (ip_arrived p),
     ip_chimes := ip_chimes p + (if rings t i \<and> ip_sound p then 1 else 0)\<rparr>"

definition page_messages :: "inbox_page \<Rightarrow> web_summary list" where
  "page_messages p = ls_messages (hk_current (ip_list p))"

definition page_loaded :: "inbox_page \<Rightarrow> bool" where
  "page_loaded p \<longleftrightarrow> ls_loaded (hk_current (ip_list p))"

definition page_selected :: "inbox_page \<Rightarrow> string option" where
  "page_selected p = selectedId (page_messages p) (ip_selection p)"

definition page_unread :: "inbox_page \<Rightarrow> string list" where
  "page_unread p = unreadIds (ip_arrived p) (sl_seen (ip_selection p)) (page_selected p)"

text \<open>A render with its effects: the selection, the cache, the message to fetch.\<close>

definition page_render :: "inbox_page \<Rightarrow> inbox_page" where
  "page_render p =
     (let sel = selection_render (page_messages p) (page_loaded p) (ip_selection p);
          p = p\<lparr>ip_selection := sel\<rparr>;
          mk = (if mk_id (ip_message p) = page_selected p then ip_message p else message_effect (page_selected p) (ip_message p))
      in p\<lparr>ip_message := pruneMessageCache (map ws_id (page_messages p)) mk\<rparr>)"

text \<open>Deleting from the page: the neighbour is selected, the server asked, the list refreshed
  whatever it answers.\<close>

definition page_remove :: "'w fetcher \<Rightarrow> string \<Rightarrow> inbox_page \<Rightarrow> 'w \<times> browser \<Rightarrow> inbox_page \<times> 'w \<times> browser" where
  "page_remove fetch i p s =
     (let p1 = p\<lparr>ip_selection := choose_id (neighbourOf (page_messages p) i) (ip_selection p)\<rparr>;
          s1 = snd (web_deleteMessage fetch i s)
      in (p1\<lparr>ip_list := refresh (ip_list p1)\<rparr>, s1))"

definition page_clearAll :: "'w fetcher \<Rightarrow> inbox_page \<Rightarrow> 'w \<times> browser \<Rightarrow> inbox_page \<times> 'w \<times> browser" where
  "page_clearAll fetch p s = (p\<lparr>ip_list := refresh (ip_list p)\<rparr>, snd (web_clearMessages fetch s))"

definition isEmptyInbox :: "inbox_page \<Rightarrow> bool" where
  "isEmptyInbox p \<longleftrightarrow> page_loaded p \<and> page_messages p = [] \<and> ip_search p = []"

definition page_list_content :: "inbox_page \<Rightarrow> list_content" where
  "page_list_content p = listContent (page_messages p \<noteq> []) (page_loaded p) (ip_search p)"

definition page_pane_content :: "inbox_page \<Rightarrow> pane_content" where
  "page_pane_content p = (case useMessage (ip_message p) of (m, e, _) \<Rightarrow>
     paneContent (isEmptyInbox p) (m \<noteq> None) (e \<noteq> None))"

section \<open>Selecting\<close>

lemma set_addTo [simp]: "set (addTo xs i) = insert i (set xs)" "distinct (addTo xs i) = distinct xs"
  by (auto simp: addTo_def)

lemma selectedId_cases:
  "case selectedId msgs s of None \<Rightarrow> msgs = [] | Some i \<Rightarrow> i \<in> ws_id ` set msgs"
  by (cases msgs) (auto simp: selectedId_def list_ex_iff at_index_def split: option.splits)

lemma selectedId_member: "i \<in> ws_id ` set msgs \<Longrightarrow> selectedId msgs (choose_id (Some i) s) = Some i"
  by (auto simp: selectedId_def choose_id_def list_ex_iff)

lemma selectedId_render: "selectedId msgs (selection_render msgs b s) = selectedId msgs s"
proof (cases "b \<and> selectedId msgs s \<noteq> sl_chosen s")
  case True
  then have r: "selection_render msgs b s = choose_id (selectedId msgs s) s" by (simp add: selection_render_def Let_def)
  show ?thesis
  proof (cases "selectedId msgs s")
    case None
    with selectedId_cases [of msgs s] have "msgs = []" by simp
    then show ?thesis by (simp add: selectedId_def at_index_def)
  next
    case (Some i)
    with selectedId_cases [of msgs s] selectedId_member [of i msgs s] show ?thesis unfolding r by simp
  qed
qed (auto simp: selection_render_def Let_def)

lemma at_index_app: "at_index (xs @ y # ys) (int (length xs)) = Some y"
  "at_index (xs @ y # ys) (int (length xs) + 1) = (case ys of [] \<Rightarrow> None | z # _ \<Rightarrow> Some z)"
  "at_index (xs @ y # ys) (int (length xs) - 1) = (if xs = [] then None else Some (last xs))"
proof -
  show "at_index (xs @ y # ys) (int (length xs)) = Some y" by (simp add: at_index_def)
  have "nat (int (length xs) + 1) = Suc (length xs)" by simp
  then show "at_index (xs @ y # ys) (int (length xs) + 1) = (case ys of [] \<Rightarrow> None | z # _ \<Rightarrow> Some z)"
    by (auto simp: at_index_def nth_append split: list.splits)
  have "xs \<noteq> [] \<Longrightarrow> nat (int (length xs) - 1) = length xs - 1" by simp
  then show "at_index (xs @ y # ys) (int (length xs) - 1) = (if xs = [] then None else Some (last xs))"
    by (auto simp: at_index_def nth_append last_conv_nth)
qed

section \<open>Arriving\<close>

text \<open>Events as the page hears them; a message is outstanding when it was announced and neither its
  deletion nor a clearing was announced since.\<close>

type_synonym heard = "(mailpeek_event \<times> string option) list"

definition hear :: "heard \<Rightarrow> string list" where
  "hear evs = fold (\<lambda>(t, i). arrivals_event t i) evs []"

definition outstanding :: "heard \<Rightarrow> string \<Rightarrow> bool" where
  "outstanding evs i \<longleftrightarrow> (\<exists>before since. evs = before @ (Message_created, Some i) # since \<and>
     (\<forall>e \<in> set since. e \<noteq> (Message_deleted, Some i) \<and> fst e \<noteq> Messages_cleared))"

lemma outstanding_snoc:
  "outstanding (evs @ [e]) i \<longleftrightarrow> e = (Message_created, Some i) \<or>
     outstanding evs i \<and> e \<noteq> (Message_deleted, Some i) \<and> fst e \<noteq> Messages_cleared"
proof
  assume "outstanding (evs @ [e]) i"
  then obtain b a where s: "evs @ [e] = b @ (Message_created, Some i) # a"
    "\<forall>e \<in> set a. e \<noteq> (Message_deleted, Some i) \<and> fst e \<noteq> Messages_cleared" by (auto simp: outstanding_def)
  show "e = (Message_created, Some i) \<or>
     outstanding evs i \<and> e \<noteq> (Message_deleted, Some i) \<and> fst e \<noteq> Messages_cleared"
  proof (cases a rule: rev_cases)
    case (snoc a' x)
    with s show ?thesis by (auto simp: outstanding_def)
  qed (use s in auto)
next
  assume r: "e = (Message_created, Some i) \<or>
     outstanding evs i \<and> e \<noteq> (Message_deleted, Some i) \<and> fst e \<noteq> Messages_cleared"
  then show "outstanding (evs @ [e]) i"
  proof
    assume "e = (Message_created, Some i)"
    then show ?thesis unfolding outstanding_def by (intro exI [of _ evs] exI [of _ "[]"]) simp
  next
    assume "outstanding evs i \<and> e \<noteq> (Message_deleted, Some i) \<and> fst e \<noteq> Messages_cleared"
    then obtain b a where "evs = b @ (Message_created, Some i) # a"
      "\<forall>e \<in> set a. e \<noteq> (Message_deleted, Some i) \<and> fst e \<noteq> Messages_cleared" "e \<noteq> (Message_deleted, Some i)"
      "fst e \<noteq> Messages_cleared" by (auto simp: outstanding_def)
    then show ?thesis unfolding outstanding_def by (intro exI [of _ b] exI [of _ "a @ [e]"]) auto
  qed
qed

lemma outstanding_Nil [simp]: "\<not> outstanding [] i"
  by (simp add: outstanding_def)

lemma hear_iff: "i \<in> set (hear evs) \<longleftrightarrow> i \<noteq> [] \<and> outstanding evs i"
proof (induction evs rule: rev_induct)
  case (snoc e evs)
  obtain t j where e: "e = (t, j)" by fastforce
  have h: "hear (evs @ [(t, j)]) = arrivals_event t j (hear evs)" by (simp add: hear_def)
  show ?case
    using snoc unfolding e h outstanding_snoc
    by (cases t; cases j) (auto simp: arrivals_event_def truthy_def)
qed (simp add: hear_def)

lemma fold_addTo: "set (fold (\<lambda>i xs. addTo xs i) is ys) = set is \<union> set ys \<and>
    (distinct ys \<longrightarrow> distinct (fold (\<lambda>i xs. addTo xs i) is ys))"
  by (induction "is" arbitrary: ys) auto

lemma set_unreadIds: "set (unreadIds arrived seen selected) = {i \<in> set arrived. i \<notin> set seen \<and> Some i \<noteq> selected}"
  "distinct (unreadIds arrived seen selected)"
  using fold_addTo [of "filter (\<lambda>i. i \<notin> set seen \<and> Some i \<noteq> selected) arrived" "[]"]
  by (auto simp: unreadIds_def)

section \<open>Showing\<close>

text \<open>
  The page's message machine: identifiers come and go, the cache is pruned, and a fetch is answered
  with a message that \<open>good\<close> allows for its identifier, or fails.
\<close>

inductive message_step :: "(string \<Rightarrow> web_message \<Rightarrow> bool) \<Rightarrow> message_hook \<Rightarrow> message_hook \<Rightarrow> bool" for good where
  selects: "message_step good s (message_effect i s)"
| prunes: "message_step good s (pruneMessageCache kept_ids s)"
| answers: "k < length (mk_fetches s) \<Longrightarrow> good (fst (mk_fetches s ! k)) m \<Longrightarrow> message_step good s (message_settle k (Inr m) s)"
| fails: "message_step good s (message_settle k (Inl e) s)"

inductive message_reachable :: "(string \<Rightarrow> web_message \<Rightarrow> bool) \<Rightarrow> message_hook \<Rightarrow> bool" for good where
  begins: "message_reachable good new_message_hook"
| goes_on: "message_reachable good s \<Longrightarrow> message_step good s s' \<Longrightarrow> message_reachable good s'"

definition message_ok :: "(string \<Rightarrow> web_message \<Rightarrow> bool) \<Rightarrow> message_hook \<Rightarrow> bool" where
  "message_ok good s \<longleftrightarrow> (\<forall>i m. map_of (mk_cache s) i = Some m \<longrightarrow> good i m) \<and> distinct (map fst (mk_cache s)) \<and>
     (\<forall>m. sm_message (mk_state s) = Some m \<longrightarrow> (\<exists>i. sm_id (mk_state s) = Some i \<and> good i m) \<and> sm_error (mk_state s) = None) \<and>
     (\<forall>f \<in> set (mk_fetches s). \<not> snd f \<longrightarrow> mk_id s = Some (fst f)) \<and>
     length (filter (\<lambda>f. \<not> snd f) (mk_fetches s)) \<le> 1"

lemma map_of_filter_fst: "distinct (map fst xs) \<Longrightarrow> map_of (filter (\<lambda>(i, _). P i) xs) i = (if P i then map_of xs i else None)"
  by (induction xs) (auto simp: map_of_eq_None_iff)

lemma effect_ok: "message_ok good s \<Longrightarrow> message_ok good (message_effect i s)"
proof -
  assume ok: "message_ok good s"
  have "filter (\<lambda>f. \<not> snd f) (map (\<lambda>(k, _). (k, True)) (mk_fetches s)) = []" by (auto simp: filter_empty_conv)
  with ok show ?thesis
    by (auto simp: message_ok_def message_effect_def Let_def truthy_def split: option.splits)
qed

lemma prune_ok: "message_ok good s \<Longrightarrow> message_ok good (pruneMessageCache kept_ids s)"
  by (auto simp: message_ok_def pruneMessageCache_def map_of_filter_fst distinct_map_filter split: if_splits)

lemma take_drop_filter: "length (filter P (take k xs @ drop (Suc k) xs)) \<le> length (filter P xs)"
proof -
  have "drop k xs = [] \<or> drop k xs = xs ! k # drop (Suc k) xs" by (metis Cons_nth_drop_Suc drop_eq_Nil not_le)
  then have "length (filter P (drop (Suc k) xs)) \<le> length (filter P (drop k xs))" by (auto simp: drop_Suc)
  then have "length (filter P (take k xs @ drop (Suc k) xs)) \<le> length (filter P (take k xs @ drop k xs))"
    by (simp del: append_take_drop_id)
  then show ?thesis by (simp only: append_take_drop_id)
qed

lemma set_take_drop: "x \<in> set (take k xs @ drop (Suc k) xs) \<Longrightarrow> x \<in> set xs"
  by (auto dest: in_set_takeD in_set_dropD)

lemma settle_message_ok:
  assumes ok: "message_ok good s" and a: "\<And>m. answer = Inr m \<Longrightarrow> k < length (mk_fetches s) \<Longrightarrow> good (fst (mk_fetches s ! k)) m"
  shows "message_ok good (message_settle k answer s)"
proof (cases "k < length (mk_fetches s)")
  case True
  obtain i c where f: "mk_fetches s ! k = (i, c)" by fastforce
  let ?fs = "take k (mk_fetches s) @ drop (Suc k) (mk_fetches s)"
  have len: "length (filter (\<lambda>f. \<not> snd f) ?fs) \<le> 1"
    using take_drop_filter [of "\<lambda>f. \<not> snd f" k "mk_fetches s"] ok unfolding message_ok_def by linarith
  have mem: "\<forall>f \<in> set ?fs. \<not> snd f \<longrightarrow> mk_id s = Some (fst f)"
    using ok set_take_drop [of _ k "mk_fetches s"] unfolding message_ok_def by blast
  have cache: "\<forall>i m. map_of (mk_cache s) i = Some m \<longrightarrow> good i m" "distinct (map fst (mk_cache s))"
    and st: "\<forall>m. sm_message (mk_state s) = Some m \<longrightarrow> (\<exists>i. sm_id (mk_state s) = Some i \<and> good i m) \<and> sm_error (mk_state s) = None"
    using ok unfolding message_ok_def by blast+
  show ?thesis
  proof (cases answer)
    case (Inr m)
    then have g: "good i m" using a [OF Inr True] f by simp
    have c': "\<forall>j x. map_of (obj_set i m (mk_cache s)) j = Some x \<longrightarrow> good j x" "distinct (map fst (obj_set i m (mk_cache s)))"
      using cache g by (simp_all add: map_of_obj_set distinct_obj_set)
    show ?thesis
      unfolding message_ok_def message_settle_def
      using True f Inr len mem st g c' by (auto simp: Let_def)
  next
    case (Inl e)
    show ?thesis
      unfolding message_ok_def message_settle_def
      using True f Inl len mem cache st by (auto simp: Let_def)
  qed
qed (use ok in \<open>simp add: message_settle_def\<close>)

lemma message_reachable_ok: "message_reachable good s \<Longrightarrow> message_ok good s"
proof (induction rule: message_reachable.induct)
  case begins
  show ?case by (simp add: message_ok_def new_message_hook_def)
next
  case (goes_on s s')
  from goes_on.hyps(2) goes_on.IH show ?case
    by (induction rule: message_step.induct) (auto intro: effect_ok prune_ok settle_message_ok)
qed

section \<open>The properties\<close>

text \<open>
  Rendering the list settles the selection: what is selected is a message of the list, or nothing when
  the list is empty; it is remembered as chosen, and rendering again changes nothing.
\<close>

theorem selection_settles:
  "let s' = selection_render msgs True s in
     sl_chosen s' = selectedId msgs s \<and> selectedId msgs s' = selectedId msgs s \<and>
     (case selectedId msgs s of None \<Rightarrow> msgs = [] | Some i \<Rightarrow> i \<in> ws_id ` set msgs) \<and>
     selection_render msgs True s' = s'"
proof -
  have "sl_chosen (selection_render msgs True s) = selectedId msgs s"
    by (simp add: selection_render_def Let_def choose_id_def)
  with selectedId_render [of msgs True s] selectedId_cases [of msgs s] show ?thesis
    by (simp add: Let_def selection_render_def [of msgs True "selection_render msgs True s"])
qed

text \<open>
  Deleting a message moves the selection to the one below it, at the end of the list to the one above, and
  to none only when it was the last message.
\<close>

theorem neighbour_is_adjacent:
  assumes "ws_id m \<notin> ws_id ` set upper"
  shows "neighbourOf (upper @ m # rest) (ws_id m) =
    (case rest of b # _ \<Rightarrow> Some (ws_id b) | [] \<Rightarrow> if upper = [] then None else Some (ws_id (last upper)))"
proof -
  have "findIndex (\<lambda>x. ws_id x = ws_id m) (upper @ m # rest) = int (length upper)"
    using assms by (intro findIndex_split) (auto simp: image_iff)
  then show ?thesis by (simp add: neighbourOf_def at_index_app split: list.splits) (simp add: at_index_def)
qed

definition summary_named :: "string \<Rightarrow> web_summary" where
  "summary_named i = \<lparr>ws_id = i, ws_from = \<lparr>a_name = None, a_address = []\<rparr>, ws_to = [], ws_cc = [], ws_subject = [],
     ws_attachments = 0, ws_size = 0, ws_createdAt = []\<rparr>"

theorem neighbour_is_adjacent_witness:
  "neighbourOf ([summary_named ''a''] @ summary_named ''b'' # []) (ws_id (summary_named ''b'')) =
    (case [] of b # _ \<Rightarrow> Some (ws_id b)
     | [] \<Rightarrow> if [summary_named ''a''] = [] then None else Some (ws_id (last [summary_named ''a''])))"
  using neighbour_is_adjacent [of "summary_named ''b''" "[summary_named ''a'']" "[]"] by (simp add: summary_named_def)

text \<open>
  C37: The unread messages are exactly those whose arrival was announced, whose deletion (or a clearing) was
  not announced since, and that were neither opened nor are selected; each is counted once.
\<close>

theorem unread_exactly_outstanding:
  "distinct (unreadIds (hear evs) seen selected) \<and>
   set (unreadIds (hear evs) seen selected) = {i. i \<noteq> [] \<and> outstanding evs i \<and> i \<notin> set seen \<and> Some i \<noteq> selected}"
  using set_unreadIds hear_iff by auto

text \<open>
  C36: The message pane never shows another message than the selected one: whatever the order in which
  fetches are answered, a message that is shown is one the server gave for the selected
  identifier, and it is shown without an error.
\<close>

theorem shown_message_is_selected:
  assumes "message_reachable good s" "useMessage s = (Some m, e, b)"
  shows "\<exists>i. mk_id s = Some i \<and> good i m \<and> e = None"
proof -
  from message_reachable_ok [OF assms(1)] have
    c: "\<forall>i m. map_of (mk_cache s) i = Some m \<longrightarrow> good i m"
    and st: "\<forall>m. sm_message (mk_state s) = Some m \<longrightarrow> (\<exists>i. sm_id (mk_state s) = Some i \<and> good i m) \<and> sm_error (mk_state s) = None"
    unfolding message_ok_def by blast+
  from assms(2) obtain i where i: "mk_id s = Some i" by (auto simp: useMessage_def truthy_def split: if_splits option.splits)
  show ?thesis
  proof (cases "map_of (mk_cache s) i")
    case None
    with assms(2) i have "sm_id (mk_state s) = Some i" "sm_message (mk_state s) = Some m" "e = sm_error (mk_state s)"
      by (auto simp: useMessage_def split: if_splits)
    with st i show ?thesis by auto
  next
    case (Some m')
    with assms(2) i c show ?thesis by (auto simp: useMessage_def split: if_splits)
  qed
qed

theorem shown_message_is_selected_witness:
  "\<exists>i. mk_id (message_settle 0 (Inr plain_message) (message_effect (Some ''1'') new_message_hook)) = Some i \<and>
     i = wm_id plain_message \<and> (None :: problem option) = None"
proof -
  let ?s = "message_effect (Some ''1'') new_message_hook"
  have "message_step (\<lambda>i m. i = wm_id m) ?s (message_settle 0 (Inr plain_message) ?s)"
    by (rule answers) (simp_all add: message_effect_def new_message_hook_def truthy_def plain_message_def)
  then have "message_reachable (\<lambda>i m. i = wm_id m) (message_settle 0 (Inr plain_message) ?s)"
    by (rule goes_on [OF goes_on [OF begins selects]])
  moreover have "useMessage (message_settle 0 (Inr plain_message) ?s) = (Some plain_message, None, False)"
    by (simp add: useMessage_def message_settle_def message_effect_def new_message_hook_def truthy_def)
  ultimately show ?thesis by (rule shown_message_is_selected)
qed

end
