(* ===== verification/Ui_State.thy ===== *)
theory Ui_State
  imports Inbox_State
begin

text \<open>
  The small state machines of the web interface (\<open>web/src/hooks\<close>, \<open>web/src/lib\<close>): settings kept in the
  browser's storage, the theme, the width of the list, keyboard shortcuts, menus, the search
  field, debouncing and the confirmation of an action.
\<close>

section \<open>Storage\<close>

text \<open>\<open>localStorage\<close>; every access throws when it is blocked.\<close>

record storage =
  sg_blocked :: bool
  sg_items :: "(string \<times> string) list"

text \<open>\<open>None\<close> when the access throws, \<open>Some None\<close> for \<open>null\<close>.\<close>

definition getItem :: "string \<Rightarrow> storage \<Rightarrow> string option option" where
  "getItem k s = (if sg_blocked s then None else Some (map_of (sg_items s) k))"

definition setItem :: "string \<Rightarrow> string \<Rightarrow> storage \<Rightarrow> storage" where
  "setItem k v s = (if sg_blocked s then s else s\<lparr>sg_items := obj_set k v (sg_items s)\<rparr>)"

definition removeItem :: "string \<Rightarrow> storage \<Rightarrow> storage" where
  "removeItem k s = (if sg_blocked s then s else s\<lparr>sg_items := filter (\<lambda>(x, _). x \<noteq> k) (sg_items s)\<rparr>)"

lemma get_set_item: "\<not> sg_blocked s \<Longrightarrow> getItem k (setItem k' v s) = (if k = k' then Some (Some v) else getItem k s)"
  by (simp add: getItem_def setItem_def map_of_obj_set)

lemma get_remove_item: "\<not> sg_blocked s \<Longrightarrow> getItem k (removeItem k s) = Some None"
  by (auto simp: getItem_def removeItem_def map_of_eq_None_iff)

lemma set_item_blocked [simp]: "sg_blocked (setItem k v s) = sg_blocked s" "sg_blocked (removeItem k s) = sg_blocked s"
  by (simp_all add: setItem_def removeItem_def)

section \<open>Theme\<close>

datatype theme = Light_theme | Dark_theme

definition theme_name :: "theme \<Rightarrow> string" where
  "theme_name t = (case t of Light_theme \<Rightarrow> ''light'' | Dark_theme \<Rightarrow> ''dark'')"

definition theme_key :: string where "theme_key = ''mailpeek:theme''"

definition savedTheme :: "storage \<Rightarrow> theme option" where
  "savedTheme s = (case getItem theme_key s of
     None \<Rightarrow> None
   | Some v \<Rightarrow> if v = Some ''light'' then Some Light_theme else if v = Some ''dark'' then Some Dark_theme else None)"

definition saveTheme :: "theme \<Rightarrow> storage \<Rightarrow> storage" where
  "saveTheme t s = setItem theme_key (theme_name t) s"

definition systemTheme :: "bool \<Rightarrow> theme" where
  "systemTheme prefersDark = (if prefersDark then Dark_theme else Light_theme)"

text \<open>Whether the document has the class \<open>dark\<close>.\<close>

definition applyTheme :: "theme \<Rightarrow> bool" where
  "applyTheme t \<longleftrightarrow> t = Dark_theme"

record theme_hook =
  th_choice :: "theme option"
  th_storage :: storage

definition current_theme :: "bool \<Rightarrow> theme_hook \<Rightarrow> theme" where
  "current_theme prefersDark h = nullish (th_choice h) (systemTheme prefersDark)"

definition toggle_theme :: "bool \<Rightarrow> theme_hook \<Rightarrow> theme_hook" where
  "toggle_theme prefersDark h =
     (let t = (if current_theme prefersDark h = Dark_theme then Light_theme else Dark_theme)
      in \<lparr>th_choice = Some t, th_storage = saveTheme t (th_storage h)\<rparr>)"

definition useTheme :: "storage \<Rightarrow> theme_hook" where
  "useTheme s = \<lparr>th_choice = savedTheme s, th_storage = s\<rparr>"

section \<open>Stored switches\<close>

definition read_toggle :: "string \<Rightarrow> bool \<Rightarrow> storage \<Rightarrow> bool" where
  "read_toggle k fallback s = (case getItem k s of
     None \<Rightarrow> fallback
   | Some v \<Rightarrow> if v = None then fallback else v = Some ''on'')"

text \<open>The effect of a value: it is written back.\<close>

definition write_toggle :: "string \<Rightarrow> bool \<Rightarrow> storage \<Rightarrow> storage" where
  "write_toggle k v s = setItem k (if v then ''on'' else ''off'') s"

definition useStoredToggle :: "string \<Rightarrow> bool \<Rightarrow> storage \<Rightarrow> bool \<times> storage" where
  "useStoredToggle k fallback s = (let v = read_toggle k fallback s in (v, write_toggle k v s))"

definition flip_toggle :: "string \<Rightarrow> bool \<times> storage \<Rightarrow> bool \<times> storage" where
  "flip_toggle k p = (let v = \<not> fst p in (v, write_toggle k v (snd p)))"

section \<open>The width of the list\<close>

definition sidebarMin :: int where "sidebarMin = 240"
definition sidebarMax :: int where "sidebarMax = 640"
definition sidebarDefault :: int where "sidebarDefault = 360"
definition width_key :: string where "width_key = ''mailpeek:list-width''"

text \<open>\<open>Math.round\<close>\<close>

definition js_round :: "rat \<Rightarrow> int" where
  "js_round x = \<lfloor>x + 1 / 2\<rfloor>"

definition bound :: "rat \<Rightarrow> int" where
  "bound width = js_round (min (max width (of_int sidebarMin)) (of_int sidebarMax))"

definition fit :: "int \<Rightarrow> int \<Rightarrow> int" where
  "fit width viewport = min width (max sidebarMin (viewport - 420))"

text \<open>\<open>Number\<close> is the conversion of a text to a number, \<open>None\<close> for NaN.\<close>

definition read_width :: "(string \<Rightarrow> rat option) \<Rightarrow> storage \<Rightarrow> int" where
  "read_width Number s = (case getItem width_key s of
     None \<Rightarrow> sidebarDefault
   | Some None \<Rightarrow> sidebarDefault
   | Some (Some v) \<Rightarrow> (case Number v of None \<Rightarrow> sidebarDefault | Some n \<Rightarrow> if n = 0 then sidebarDefault else bound n))"

definition setWidth :: "int \<Rightarrow> rat \<Rightarrow> int" where
  "setWidth innerWidth w = fit (bound w) innerWidth"

definition save_width :: "(string \<Rightarrow> rat option) \<Rightarrow> int \<Rightarrow> storage \<Rightarrow> storage" where
  "save_width Number preferred s = (if preferred = read_width Number s then s else setItem width_key (show_int preferred) s)"

definition sidebar_width :: "int \<Rightarrow> int \<Rightarrow> int" where
  "sidebar_width preferred viewport = fit preferred viewport"

text \<open>The handle: where a drag started, with the width there; what it resizes to.\<close>

record drag =
  dr_x :: rat
  dr_width :: int

definition resize_step :: int where "resize_step = 16"

definition onPointerDown :: "int \<Rightarrow> rat \<Rightarrow> int \<Rightarrow> drag option \<Rightarrow> drag option" where
  "onPointerDown button clientX width d = (if button \<noteq> 0 then d else Some \<lparr>dr_x = clientX, dr_width = width\<rparr>)"

definition onPointerMove :: "rat \<Rightarrow> drag option \<Rightarrow> rat option" where
  "onPointerMove clientX d = map_option (\<lambda>d. of_int (dr_width d) + clientX - dr_x d) d"

definition endDrag :: "drag option \<Rightarrow> drag option" where
  "endDrag d = None"

definition onKeyDown_resize :: "string \<Rightarrow> int \<Rightarrow> int option" where
  "onKeyDown_resize k width = map_of [(''ArrowLeft'', width - resize_step), (''ArrowRight'', width + resize_step),
     (''Home'', sidebarMin), (''End'', sidebarMax)] k"

section \<open>Menus\<close>

record menu =
  mn_open :: bool
  mn_active :: int

definition menu_show :: "string list \<Rightarrow> string \<Rightarrow> menu \<Rightarrow> menu" where
  "menu_show options val m = \<lparr>mn_open = True, mn_active = max 0 (findIndex (\<lambda>x. x = val) options)\<rparr>"

definition menu_hide :: "menu \<Rightarrow> menu" where
  "menu_hide m = m\<lparr>mn_open := False\<rparr>"

definition onTriggerKeyDown :: "string list \<Rightarrow> string \<Rightarrow> string \<Rightarrow> menu \<Rightarrow> menu" where
  "onTriggerKeyDown options val k m = (if k \<noteq> ''ArrowDown'' \<and> k \<noteq> ''ArrowUp'' then m else menu_show options val m)"

definition menu_move :: "nat \<Rightarrow> string \<Rightarrow> int \<Rightarrow> int option" where
  "menu_move n k i = (let last_index = int n - 1 in
     if k = ''ArrowDown'' then Some (min (i + 1) last_index)
     else if k = ''ArrowUp'' then Some (max (i - 1) 0)
     else if k = ''Home'' then Some 0
     else if k = ''End'' then Some last_index
     else None)"

definition onListKeyDown :: "string list \<Rightarrow> string \<Rightarrow> menu \<Rightarrow> menu" where
  "onListKeyDown options k m =
     (if k = ''Escape'' then menu_hide m
      else case menu_move (length options) k (mn_active m) of None \<Rightarrow> m | Some i \<Rightarrow> m\<lparr>mn_active := i\<rparr>)"

text \<open>Choosing calls \<open>onSelect\<close> with the option; pressing or focusing elsewhere hides the menu.\<close>

definition menu_choose :: "string \<Rightarrow> menu \<Rightarrow> string \<times> menu" where
  "menu_choose choice m = (choice, menu_hide m)"

definition menu_outside :: "bool \<Rightarrow> menu \<Rightarrow> menu" where
  "menu_outside inside m = (if inside then m else menu_hide m)"

definition menu_toggle :: "string list \<Rightarrow> string \<Rightarrow> menu \<Rightarrow> menu" where
  "menu_toggle options val m = (if mn_open m then menu_hide m else menu_show options val m)"

section \<open>Keyboard\<close>

datatype shortcut = Open_message string | Focus_search | Toggle_list | Remove_message string

text \<open>\<open>ids[...]\<close> of the clamped index: nothing when the list is empty.\<close>

definition move :: "string list \<Rightarrow> string option \<Rightarrow> int \<Rightarrow> shortcut option" where
  "move ids selected delta =
     (let index = (if truthy selected then findIndex (\<lambda>x. x = nullish selected []) ids else -1);
          i = at_index ids (min (max (index + delta) 0) (int (length ids) - 1))
      in if truthy i then Some (Open_message (nullish i [])) else None)"

definition shortcut_of :: "string list \<Rightarrow> string option \<Rightarrow> string \<Rightarrow> (shortcut option) option" where
  "shortcut_of ids selected k = map_of
     [(''j'', move ids selected 1), (''ArrowDown'', move ids selected 1), (''k'', move ids selected (-1)),
      (''ArrowUp'', move ids selected (-1)), (''/'', Some Focus_search), (''['', Some Toggle_list),
      (''Delete'', if truthy selected then Some (Remove_message (nullish selected [])) else None)] k"

record key_event =
  ke_key :: string
  ke_meta :: bool
  ke_ctrl :: bool
  ke_alt :: bool
  ke_ignored :: bool

text \<open>What a key press does, and whether its default is prevented.\<close>

definition onKey :: "string list \<Rightarrow> string option \<Rightarrow> key_event \<Rightarrow> shortcut option \<times> bool" where
  "onKey ids selected e = (case shortcut_of ids selected (ke_key e) of
     None \<Rightarrow> (None, False)
   | Some a \<Rightarrow> if ke_meta e \<or> ke_ctrl e \<or> ke_alt e \<or> ke_ignored e then (None, False) else (a, True))"

section \<open>Layout\<close>

record layout =
  ly_tab :: tab
  ly_showDetail :: bool
  ly_listHidden :: bool
  ly_detailsCollapsed :: bool
  ly_resizing :: bool

definition layout_open :: "string \<Rightarrow> layout \<times> selection \<Rightarrow> layout \<times> selection" where
  "layout_open i p = ((fst p)\<lparr>ly_showDetail := True\<rparr>, choose_id (Some i) (snd p))"

definition layout_back :: "layout \<Rightarrow> layout" where
  "layout_back l = l\<lparr>ly_showDetail := False\<rparr>"

definition listHiddenOnPhone :: "layout \<Rightarrow> inbox_page \<Rightarrow> bool" where
  "listHiddenOnPhone l p \<longleftrightarrow> (ly_showDetail l \<and> page_messages p \<noteq> []) \<or> isEmptyInbox p"

definition paneHiddenOnPhone :: "layout \<Rightarrow> inbox_page \<Rightarrow> bool" where
  "paneHiddenOnPhone l p \<longleftrightarrow> \<not> ly_showDetail l \<and> page_messages p \<noteq> []"

definition showResizeHandle :: "layout \<Rightarrow> inbox_page \<Rightarrow> bool" where
  "showResizeHandle l p \<longleftrightarrow> \<not> ly_listHidden l \<and> \<not> isEmptyInbox p"

section \<open>Search\<close>

text \<open>\<open>URLSearchParams\<close> of a query string: pairs at the ampersands, a plus is a space, percent sequences
  are decoded and anything malformed is left as it is. \<open>None\<close>: the bytes are not UTF-8 of
  Latin-1.\<close>

fun percent_decode :: "string \<Rightarrow> nat list" where
  "percent_decode [] = []"
| "percent_decode (c # s) =
     (if c = CHR ''%'' then
        (case s of
           h # l # s' \<Rightarrow>
             (case (hex_value h, hex_value l) of
                (Some a, Some b) \<Rightarrow> (16 * a + b) # percent_decode s'
              | _ \<Rightarrow> utf8_char c @ percent_decode s)
         | _ \<Rightarrow> utf8_char c @ percent_decode s)
      else utf8_char (if c = CHR ''+'' then CHR '' '' else c) @ percent_decode s)"

definition search_pair :: "string \<Rightarrow> string option \<times> string option" where
  "search_pair p = (case cut (CHR ''='') p of (k, v) \<Rightarrow> (utf8_decode (percent_decode k), utf8_decode (percent_decode v)))"

definition search_params :: "string \<Rightarrow> (string option \<times> string option) list" where
  "search_params s = map search_pair (filter (\<lambda>p. p \<noteq> [])
     (split_on (CHR ''&'') (if startsWith s ''?'' then tl s else s)))"

definition readQuery :: "string \<Rightarrow> string option" where
  "readQuery location_search = nullish (map_of (search_params location_search) (Some ''q'')) (Some [])"

text \<open>The address after a search (\<open>searchParams.set\<close> and \<open>delete\<close>), as its parameters.\<close>

fun params_set :: "string \<Rightarrow> string \<Rightarrow> params \<Rightarrow> params" where
  "params_set k v [] = [(k, v)]"
| "params_set k v ((x, y) # ps) = (if x = k then (k, v) # filter (\<lambda>(z, _). z \<noteq> k) ps else (x, y) # params_set k v ps)"

definition search_address :: "string \<Rightarrow> params \<Rightarrow> params" where
  "search_address srch ps = (if srch \<noteq> [] then params_set ''q'' srch ps else filter (\<lambda>(z, _). z \<noteq> ''q'') ps)"

section \<open>Debouncing\<close>

text \<open>The value given, the value that is passed on, and what the running timer will pass on.\<close>

record 'a debounce =
  db_value :: 'a
  db_debounced :: 'a
  db_timer :: "'a option"

definition debounce_start :: "'a \<Rightarrow> 'a debounce" where
  "debounce_start v = \<lparr>db_value = v, db_debounced = v, db_timer = Some v\<rparr>"

definition debounce_set :: "'a \<Rightarrow> 'a debounce \<Rightarrow> 'a debounce" where
  "debounce_set v d = (if v = db_value d then d else d\<lparr>db_value := v, db_timer := Some v\<rparr>)"

definition debounce_fire :: "'a debounce \<Rightarrow> 'a debounce" where
  "debounce_fire d = (case db_timer d of None \<Rightarrow> d | Some v \<Rightarrow> d\<lparr>db_debounced := v, db_timer := None\<rparr>)"

inductive debounce_reachable :: "'a debounce \<Rightarrow> bool" where
  debounce_begin: "debounce_reachable (debounce_start v)"
| debounce_changes: "debounce_reachable d \<Longrightarrow> debounce_reachable (debounce_set v d)"
| debounce_fires: "debounce_reachable d \<Longrightarrow> debounce_reachable (debounce_fire d)"

section \<open>Confirming\<close>

record confirm =
  cf_armed :: bool
  cf_timer :: bool
  cf_done :: nat

definition confirm_trigger :: "confirm \<Rightarrow> confirm" where
  "confirm_trigger c =
     (if cf_armed c then c\<lparr>cf_armed := False, cf_timer := False, cf_done := cf_done c + 1\<rparr>
      else c\<lparr>cf_armed := True, cf_timer := True\<rparr>)"

definition confirm_expire :: "confirm \<Rightarrow> confirm" where
  "confirm_expire c = (if cf_timer c then c\<lparr>cf_armed := False, cf_timer := False\<rparr> else c)"

definition useConfirmAction :: confirm where
  "useConfirmAction = \<lparr>cf_armed = False, cf_timer = False, cf_done = 0\<rparr>"

datatype confirm_event = Trigger | Expire

fun confirm_run :: "confirm_event list \<Rightarrow> confirm \<Rightarrow> confirm" where
  "confirm_run [] c = c"
| "confirm_run (Trigger # es) c = confirm_run es (confirm_trigger c)"
| "confirm_run (Expire # es) c = confirm_run es (confirm_expire c)"

section \<open>Lemmas\<close>

lemma js_round_int [simp]: "js_round (of_int n) = n"
  by (simp add: js_round_def floor_unique)

lemma js_round_mono: "x \<le> y \<Longrightarrow> js_round x \<le> js_round y"
  by (simp add: js_round_def floor_mono)

lemma bound_bounds: "sidebarMin \<le> bound w \<and> bound w \<le> sidebarMax"
proof -
  let ?x = "min (max w (of_int sidebarMin)) (of_int sidebarMax)"
  have "(of_int sidebarMin :: rat) \<le> ?x" "?x \<le> of_int sidebarMax" by (simp_all add: sidebarMin_def sidebarMax_def)
  from this [THEN js_round_mono] show ?thesis by (simp add: bound_def)
qed

lemma bound_int: "sidebarMin \<le> n \<Longrightarrow> n \<le> sidebarMax \<Longrightarrow> bound (of_int n) = n"
  by (simp add: bound_def)

lemma fit_bounds: "sidebarMin \<le> w \<Longrightarrow> w \<le> sidebarMax \<Longrightarrow> sidebarMin \<le> fit w v \<and> fit w v \<le> sidebarMax \<and> fit w v \<le> max sidebarMin (v - 420)"
  by (simp add: fit_def)

lemma read_width_bounds: "sidebarMin \<le> read_width Number s \<and> read_width Number s \<le> sidebarMax"
  using bound_bounds
  by (auto simp: read_width_def sidebarMin_def sidebarMax_def sidebarDefault_def split: option.splits)

lemma percent_decode_char:
  "component_safe c \<Longrightarrow> percent_decode (c # s) = utf8_char c @ percent_decode s"
  using safe_plain(1) [of c] by auto

lemma percent_decode_percent: "b < 256 \<Longrightarrow> percent_decode (percent b @ s) = b # percent_decode s"
  by (simp add: percent_def hex_value_upper_hex)

lemma percent_decode_percents:
  "\<forall>b \<in> set bs. b < 256 \<Longrightarrow> percent_decode (concat (map percent bs) @ s) = bs @ percent_decode s"
  by (induction bs) (simp_all add: percent_decode_percent del: percent_decode.simps)

lemma percent_decode_component: "percent_decode (encodeURIComponent s) = utf8_encode s"
proof (induction s)
  case (Cons c s)
  show ?case
  proof (cases "component_safe c")
    case True
    with Cons percent_decode_char [OF True, of "encodeURIComponent s"] show ?thesis
      by (simp add: encodeURIComponent_def utf8_encode_def escape_char_def del: percent_decode.simps)
  next
    case False
    with Cons percent_decode_percents [of "utf8_char c" "encodeURIComponent s"] utf8_byte show ?thesis
      by (simp add: encodeURIComponent_def utf8_encode_def escape_char_def del: percent_decode.simps)
  qed
qed (simp add: encodeURIComponent_def utf8_encode_def)

lemma readQuery_component: "readQuery (''?q='' @ encodeURIComponent v) = Some v"
proof -
  let ?s = "''q='' @ encodeURIComponent v"
  have amp: "CHR ''&'' \<notin> set ?s" using component_plain [of "CHR ''&''" v] by auto
  have "cut (CHR ''='') ?s = (''q'', encodeURIComponent v)" using cut_append [of "CHR ''=''" "''q''"] by simp
  moreover have "utf8_decode (percent_decode ''q'') = Some ''q''" by code_simp
  ultimately have "search_pair ?s = (Some ''q'', Some v)" by (simp add: search_pair_def percent_decode_component)
  with split_on_no_sep [OF amp] show ?thesis by (simp add: readQuery_def search_params_def)
qed

lemma readQuery_empty: "readQuery [] = Some []"
  by (simp add: readQuery_def search_params_def)

lemma confirm_run_done:
  "2 * cf_done (confirm_run es c) + (if cf_armed (confirm_run es c) then 1 else 0) \<le>
     2 * cf_done c + (if cf_armed c then 1 else 0) + length (filter (\<lambda>e. e = Trigger) es)"
proof (induction es c rule: confirm_run.induct)
  case (2 es c)
  then show ?case by (simp add: confirm_trigger_def split: if_splits)
next
  case (3 es c)
  then show ?case by (simp add: confirm_expire_def split: if_splits)
qed simp

section \<open>The properties\<close>

text \<open>
  The list is never narrower than 240 nor wider than 640 pixels, whatever was dragged, typed or stored, and
  it leaves the message pane 420 pixels of the window unless the window is too small for both.
\<close>

theorem sidebar_bounds:
  "sidebarMin \<le> setWidth innerWidth w \<and> setWidth innerWidth w \<le> sidebarMax \<and>
   sidebarMin \<le> sidebar_width (read_width Number s) viewport \<and>
   sidebar_width (read_width Number s) viewport \<le> sidebarMax \<and>
   sidebar_width (read_width Number s) viewport \<le> max sidebarMin (viewport - 420)"
  using fit_bounds [of "bound w" innerWidth] bound_bounds [of w] read_width_bounds [of Number s]
    fit_bounds [of "read_width Number s" viewport]
  by (simp add: setWidth_def sidebar_width_def)

text \<open>
  Settings survive a reload: the theme shown after toggling is the other one and is the one a new page
  reads, a switch is read back as it was written, and so is a width, when storage is available
  and a number's text converts back to the number.
\<close>

theorem settings_survive_reload:
  assumes "\<not> sg_blocked s" "th_storage h = s" "Number (show_int w) = Some (of_int w)" "sidebarMin \<le> w" "w \<le> sidebarMax"
  shows "current_theme d (toggle_theme d h) \<noteq> current_theme d h \<and>
    current_theme d (useTheme (th_storage (toggle_theme d h))) = current_theme d (toggle_theme d h) \<and>
    fst (useStoredToggle k fallback (write_toggle k v s)) = v \<and>
    read_width Number (save_width Number w s) = w"
proof -
  have "bound (of_int w) = w" "w \<noteq> 0" using assms(4,5) bound_int by (auto simp: sidebarMin_def)
  then have "read_width Number (setItem width_key (show_int w) s) = w"
    using assms(1,3) by (simp add: read_width_def get_set_item)
  then have "read_width Number (save_width Number w s) = w" by (simp add: save_width_def)
  moreover have "savedTheme (saveTheme t s) = Some t" for t
    using assms(1) by (cases t) (simp_all add: savedTheme_def saveTheme_def get_set_item theme_name_def)
  then have "current_theme d (useTheme (th_storage (toggle_theme d h))) = current_theme d (toggle_theme d h)"
    using assms(2) by (simp add: current_theme_def useTheme_def toggle_theme_def Let_def)
  moreover have "current_theme d (toggle_theme d h) \<noteq> current_theme d h"
    by (simp add: current_theme_def toggle_theme_def Let_def)
  moreover have "fst (useStoredToggle k fallback (write_toggle k v s)) = v"
    using assms(1) by (simp add: useStoredToggle_def read_toggle_def write_toggle_def get_set_item Let_def)
  ultimately show ?thesis by blast
qed

theorem settings_survive_reload_witness:
  "let s = \<lparr>sg_blocked = False, sg_items = []\<rparr>; h = useTheme s; Number = (\<lambda>_ :: string. Some (300 :: rat)) in
    current_theme True (toggle_theme True h) \<noteq> current_theme True h \<and>
    current_theme True (useTheme (th_storage (toggle_theme True h))) = current_theme True (toggle_theme True h) \<and>
    fst (useStoredToggle ''k'' False (write_toggle ''k'' True s)) = True \<and>
    read_width Number (save_width Number 300 s) = 300"
  unfolding Let_def
  by (rule settings_survive_reload) (simp_all add: useTheme_def sidebarMin_def sidebarMax_def)

text \<open>The fields a link can name, in the order in which they are tried.\<close>

definition link_fields :: "fkey list" where
  "link_fields = [K_address, K_to, K_subject, K_from, K_q]"

text \<open>
  C38: The link of a timeout error opens the web interface on the search it names: it is the client's address with a query
  from which the page reads exactly the first field the filter has among address, to, subject, from and q, and
  an empty search when it has none of them.
\<close>

theorem inspect_link_opens_search:
  "\<exists>srch. inspectUrl c f = c_baseUrl c @ ''/'' @ srch \<and>
     readQuery srch = Some (case find (\<lambda>k. fstr f k \<noteq> None) link_fields of None \<Rightarrow> [] | Some k \<Rightarrow> the (fstr f k))"
proof -
  define q where "q = nullish_opt (fstr f K_address) (nullish_opt (fstr f K_to) (nullish_opt (fstr f K_subject)
    (nullish_opt (fstr f K_from) (fstr f K_q))))"
  have first: "(case find (\<lambda>k. fstr f k \<noteq> None) link_fields of None \<Rightarrow> [] | Some k \<Rightarrow> the (fstr f k)) = nullish q []"
    by (simp add: q_def link_fields_def nullish_opt_def split: option.split)
  have link: "inspectUrl c f = (if truthy q then c_baseUrl c @ ''/?q='' @ encodeURIComponent (nullish q []) else c_baseUrl c @ ''/'')"
    by (simp add: inspectUrl_def q_def Let_def)
  have "\<exists>srch. inspectUrl c f = c_baseUrl c @ ''/'' @ srch \<and> readQuery srch = Some (nullish q [])"
  proof (cases "truthy q")
    case True
    with link readQuery_component [of "nullish q []"] show ?thesis
      by (intro exI [of _ "''?q='' @ encodeURIComponent (nullish q [])"]) simp
  next
    case False
    then have "nullish q [] = []" by (auto simp: truthy_def split: option.splits)
    with False link readQuery_empty show ?thesis by (intro exI [of _ "[]"]) simp
  qed
  then show ?thesis by (simp only: first)
qed

text \<open>
  A dangerous action needs two presses: however presses and expirations of the confirmation interleave,
  the action has run at most once for every two presses.
\<close>

theorem confirm_needs_two:
  "2 * cf_done (confirm_run es useConfirmAction) \<le> length (filter (\<lambda>e. e = Trigger) es)"
  using confirm_run_done [of es useConfirmAction] by (simp add: useConfirmAction_def)

text \<open>Debouncing: when no timer runs, what is passed on is what was given last.\<close>

theorem debounce_catches_up: "debounce_reachable d \<Longrightarrow> (case db_timer d of None \<Rightarrow> db_debounced d | Some v \<Rightarrow> v) = db_value d"
  by (induction rule: debounce_reachable.induct)
     (auto simp: debounce_start_def debounce_set_def debounce_fire_def split: option.splits)

text \<open>On a phone the list and the message are never both hidden.\<close>

theorem phone_shows_something: "\<not> (listHiddenOnPhone l p \<and> paneHiddenOnPhone l p)"
  by (auto simp: listHiddenOnPhone_def paneHiddenOnPhone_def isEmptyInbox_def)

lemma menu_move_cases: "menu_move n k i \<in> {None, Some (min (i + 1) (int n - 1)), Some (max (i - 1) 0), Some 0, Some (int n - 1)}"
  unfolding menu_move_def Let_def by (simp only: insert_iff if_True if_False split: if_split) blast

text \<open>The active entry of a menu stays one of its options.\<close>

theorem menu_active_in_range:
  assumes "options \<noteq> []" "0 \<le> mn_active m" "mn_active m < int (length options)"
  shows "0 \<le> mn_active (onListKeyDown options k m)" "mn_active (onListKeyDown options k m) < int (length options)"
    "0 \<le> mn_active (menu_show options val m)" "mn_active (menu_show options val m) < int (length options)"
proof -
  have n: "1 \<le> int (length options)" using assms(1) by (cases options) auto
  show "0 \<le> mn_active (onListKeyDown options k m)" "mn_active (onListKeyDown options k m) < int (length options)"
    using assms n menu_move_cases [of "length options" k "mn_active m"]
    by (auto simp: onListKeyDown_def menu_hide_def split: option.splits)
  show "0 \<le> mn_active (menu_show options val m)" "mn_active (menu_show options val m) < int (length options)"
    using assms(1) n findIndex_lt [of "\<lambda>x. x = val" options] by (simp_all add: menu_show_def)
qed

end
