(* ===== verification/I18n.thy ===== *)
theory I18n
  imports Catalogues Ui_State
begin

text \<open>
  Languages of the web interface (\<open>web/src/i18n\<close>): choosing a locale from the browser's preferences or
  the reader's choice (\<open>locale.ts\<close>, \<open>I18nProvider.tsx\<close>), looking texts up and filling in their
  placeholders (\<open>context.ts\<close>, \<open>messages.ts\<close>), and the server's choice for the login page
  (\<open>internal/api/login_i18n.go\<close>), which has to agree with it. The catalogues are compared by
  evaluation in the kernel.
\<close>

section \<open>Locales and texts\<close>

datatype ui_locale = En_US | En_GB | Pt_BR | Pt_PT | Es_ES | Fr_FR

definition locales :: "ui_locale list" where
  "locales = [En_US, En_GB, Pt_BR, Pt_PT, Es_ES, Fr_FR]"

fun locale_tag :: "ui_locale \<Rightarrow> string" where
  "locale_tag En_US = ''en-US''"
| "locale_tag En_GB = ''en-GB''"
| "locale_tag Pt_BR = ''pt-BR''"
| "locale_tag Pt_PT = ''pt-PT''"
| "locale_tag Es_ES = ''es-ES''"
| "locale_tag Fr_FR = ''fr-FR''"

fun localeNames :: "ui_locale \<Rightarrow> string" where
  "localeNames En_US = ''English (US)''"
| "localeNames En_GB = ''English (UK)''"
| "localeNames Pt_BR = ''Portugu'' @ u00EA @ ''s (Brasil)''"
| "localeNames Pt_PT = ''Portugu'' @ u00EA @ ''s (Portugal)''"
| "localeNames Es_ES = ''Espa'' @ u00F1 @ ''ol (Espa'' @ u00F1 @ ''a)''"
| "localeNames Fr_FR = ''Fran'' @ u00E7 @ ''ais (France)''"

fun messages_in :: "ui_locale \<Rightarrow> catalogue" where
  "messages_in En_US = enUS"
| "messages_in En_GB = enUS"
| "messages_in Pt_BR = ptBR"
| "messages_in Pt_PT = ptPT"
| "messages_in Es_ES = esES"
| "messages_in Fr_FR = frFR"

text \<open>
  \<open>/\{(\w+)\}/g\<close>. The values of \<open>vars\<close> are those \<open>String\<close> makes of them. A text without an entry
  throws (\<open>None\<close>); the type \<open>MessageKey\<close> is to exclude that. \<open>name in vars\<close> is true of the
  names of \<open>Object.prototype\<close> too, none of which is a placeholder of a catalogue.
\<close>

definition placeholder_re :: regex where
  "placeholder_re = seqs [chr (CHR ''{''), Grp 1 (plus (Cls is_word)), chr (CHR ''}'')]"

definition fill :: "(string \<times> string) list \<Rightarrow> rmatch_result \<Rightarrow> string" where
  "fill vars m = nullish (map_of vars (nullish (m_group m 1) [])) (m_text m)"

definition translate :: "ui_locale \<Rightarrow> string \<Rightarrow> (string \<times> string) list \<Rightarrow> string option" where
  "translate l key vars = map_option (replace_all placeholder_re (fill vars)) (map_of (messages_in l) key)"

text \<open>The placeholders of a text, in order.\<close>

definition placeholders :: "string \<Rightarrow> string list" where
  "placeholders s = map (\<lambda>(_, m). nullish (m_group m 1) []) (fst (segments placeholder_re [] s))"

section \<open>Choosing a locale\<close>

definition europeanPortuguese :: "string list" where
  "europeanPortuguese = [''pt-pt'', ''pt-ao'', ''pt-mz'', ''pt-cv'', ''pt-gw'', ''pt-st'', ''pt-tl'']"

definition britishEnglish :: "string list" where
  "britishEnglish = [''en-gb'', ''en-ie'', ''en-au'', ''en-nz'', ''en-za'', ''en-in'']"

definition matchLocale :: "string \<Rightarrow> ui_locale option" where
  "matchLocale tg =
     (let lower = toLowerCase (trim tg) in
      case find (\<lambda>l. toLowerCase (locale_tag l) = lower) locales of
        Some l \<Rightarrow> Some l
      | None \<Rightarrow>
         (let lang = hd (split_on (CHR ''-'') lower) in
          if lang = ''pt'' then Some (if lower \<in> set europeanPortuguese then Pt_PT else Pt_BR)
          else if lang = ''en'' then Some (if lower \<in> set britishEnglish then En_GB else En_US)
          else if lang = ''es'' then Some Es_ES
          else if lang = ''fr'' then Some Fr_FR
          else None))"

fun detectLocale :: "string list \<Rightarrow> ui_locale" where
  "detectLocale [] = En_US"
| "detectLocale (tg # preferred) = (case matchLocale tg of Some l \<Rightarrow> l | None \<Rightarrow> detectLocale preferred)"

definition toLocale :: "string \<Rightarrow> ui_locale option" where
  "toLocale v = find (\<lambda>l. locale_tag l = v) locales"

definition locale_key :: string where "locale_key = ''mailpeek:locale''"

definition readSavedLocale :: "storage \<Rightarrow> ui_locale option" where
  "readSavedLocale s = (case getItem locale_key s of
     None \<Rightarrow> None
   | Some saved \<Rightarrow> find (\<lambda>l. Some (locale_tag l) = saved) locales)"

text \<open>
  \<open>document.cookie = s\<close>: the cookie named before \<open>=\<close> gets the value up to the first \<open>;\<close>, and is
  removed when \<open>Max-Age\<close> is 0.
\<close>

definition set_cookie :: "string \<Rightarrow> (string \<times> string) list \<Rightarrow> (string \<times> string) list" where
  "set_cookie s jar = (case split_on (CHR '';'') s of
     [] \<Rightarrow> jar
   | pair # attributes \<Rightarrow> (case cut (CHR ''='') pair of (name, v) \<Rightarrow>
       if ''Max-Age=0'' \<in> set (map trim attributes) then filter (\<lambda>(n, _). n \<noteq> name) jar
       else obj_set name v jar))"

definition cookieName :: string where "cookieName = ''mailpeek_lang''"

definition locale_cookie :: "ui_locale option \<Rightarrow> string" where
  "locale_cookie l = (case l of
     Some x \<Rightarrow> cookieName @ ''='' @ locale_tag x @ ''; Path=/; Max-Age=31536000; SameSite=Lax''
   | None \<Rightarrow> cookieName @ ''=; Path=/; Max-Age=0; SameSite=Lax'')"

definition saveLocale ::
  "ui_locale option \<Rightarrow> storage \<times> (string \<times> string) list \<Rightarrow> storage \<times> (string \<times> string) list" where
  "saveLocale l p =
     ((case l of Some x \<Rightarrow> setItem locale_key (locale_tag x) (fst p) | None \<Rightarrow> removeItem locale_key (fst p)),
      set_cookie (locale_cookie l) (snd p))"

text \<open>The provider: the choice, and the browser's languages, which may change at any time.\<close>

record i18n_provider =
  ip_choice :: "ui_locale option"
  ip_languages :: "string list"
  ip_storage :: storage
  ip_cookies :: "(string \<times> string) list"

definition I18nProvider :: "string list \<Rightarrow> storage \<Rightarrow> (string \<times> string) list \<Rightarrow> i18n_provider" where
  "I18nProvider languages s jar =
     \<lparr>ip_choice = readSavedLocale s, ip_languages = languages, ip_storage = s, ip_cookies = jar\<rparr>"

definition current_locale :: "i18n_provider \<Rightarrow> ui_locale" where
  "current_locale p = nullish (ip_choice p) (detectLocale (ip_languages p))"

definition document_lang :: "i18n_provider \<Rightarrow> string" where
  "document_lang p = locale_tag (current_locale p)"

definition setChoice :: "ui_locale option \<Rightarrow> i18n_provider \<Rightarrow> i18n_provider" where
  "setChoice c p = (case saveLocale c (ip_storage p, ip_cookies p) of (s, jar) \<Rightarrow>
     p\<lparr>ip_choice := c, ip_storage := s, ip_cookies := jar\<rparr>)"

definition provider_t :: "i18n_provider \<Rightarrow> string \<Rightarrow> (string \<times> string) list \<Rightarrow> string option" where
  "provider_t p key vars = translate (current_locale p) key vars"

section \<open>The login page\<close>

text \<open>
  The server walks the keys of its map of texts in an order Go leaves open, so the codes are an
  argument, in any order.
\<close>

definition login_matchLocale :: "string list \<Rightarrow> string \<Rightarrow> string option" where
  "login_matchLocale codes tg =
     (let lower = toLowerCase (TrimSpace tg) in
      case find (\<lambda>code. toLowerCase code = lower) codes of
        Some code \<Rightarrow> Some code
      | None \<Rightarrow>
         (let lang = fst (cut (CHR ''-'') lower) in
          if lang = ''pt'' then Some (if lower \<in> set europeanPortuguese then ''pt-PT'' else ''pt-BR'')
          else if lang = ''en'' then Some (if lower \<in> set britishEnglish then ''en-GB'' else ''en-US'')
          else if lang = ''es'' then Some ''es-ES''
          else if lang = ''fr'' then Some ''fr-FR''
          else None))"

fun first_match :: "string list \<Rightarrow> string list \<Rightarrow> string" where
  "first_match codes [] = ''en-US''"
| "first_match codes (tg # tags) = (case login_matchLocale codes tg of Some c \<Rightarrow> c | None \<Rightarrow> first_match codes tags)"

text \<open>The language of the login page, from the cookie and the accepted languages, best first.\<close>

definition loginLocale :: "string list \<Rightarrow> (string \<times> string) list \<Rightarrow> string list \<Rightarrow> string" where
  "loginLocale codes jar tags =
     (case map_of jar cookieName of
        Some v \<Rightarrow> (case login_matchLocale codes v of Some c \<Rightarrow> c | None \<Rightarrow> first_match codes tags)
      | None \<Rightarrow> first_match codes tags)"

section \<open>Lemmas on locales\<close>

lemma locales_all: "l \<in> set locales"
  by (cases l) (simp_all add: locales_def)

lemma locale_tag_inj [simp]: "locale_tag a = locale_tag b \<longleftrightarrow> a = b"
  by (cases a; cases b) simp_all

lemma find_tag: "find (\<lambda>x. locale_tag x = locale_tag l) locales = Some l"
  by (cases l) (simp_all add: locales_def)

lemma dropWhile_go_space: "CHR 0x85 \<notin> set s \<Longrightarrow> dropWhile go_space s = dropWhile is_space s"
proof (rule dropWhile_cong)
  fix c assume "c \<in> set s" "CHR 0x85 \<notin> set s"
  then have "c \<noteq> CHR 0x85" by auto
  then have "(of_char c :: nat) \<noteq> 133" using of_char_eq_iff [of c "CHR 0x85", where ?'a = nat] by simp
  then show "go_space c = is_space c" by (simp add: go_space_def)
qed simp

lemma TrimSpace_trim: "CHR 0x85 \<notin> set s \<Longrightarrow> TrimSpace s = trim s"
  using set_dropWhileD [of "CHR 0x85" is_space s] dropWhile_go_space [of s] dropWhile_go_space [of "rev (dropWhile is_space s)"]
  by (auto simp: TrimSpace_def trim_def trimEnd_def trimStart_def)

lemma fst_cut: "fst (cut c s) = hd (split_on c s)"
  by (induction c s rule: split_on.induct) (auto simp: cut_def split: list.splits)

lemma lower_tag_inj: "toLowerCase (locale_tag a) = toLowerCase (locale_tag b) \<longleftrightarrow> a = b"
  by (cases a; cases b) (simp_all add: js_eval)

lemma find_code:
  assumes "set codes = range locale_tag"
  shows "find (\<lambda>code. toLowerCase code = low) codes =
    map_option locale_tag (find (\<lambda>l. toLowerCase (locale_tag l) = low) locales)"
proof (cases "find (\<lambda>l. toLowerCase (locale_tag l) = low) locales")
  case None
  then have "\<forall>code \<in> set codes. toLowerCase code \<noteq> low"
    using locales_all assms by (auto simp: find_None_iff)
  then have "find (\<lambda>code. toLowerCase code = low) codes = None" by (simp add: find_None_iff)
  then show ?thesis using None by simp
next
  case (Some l)
  then have l: "toLowerCase (locale_tag l) = low" by (auto simp: find_Some_iff)
  then obtain code where code: "find (\<lambda>code. toLowerCase code = low) codes = Some code"
    using assms by (cases "find (\<lambda>code. toLowerCase code = low) codes") (auto simp: find_None_iff)
  then have "code \<in> set codes" "toLowerCase code = low" by (auto simp: find_Some_iff)
  with assms l have "code = locale_tag l" by (auto simp: lower_tag_inj)
  with code Some show ?thesis by simp
qed

lemma login_match:
  assumes "set codes = range locale_tag" "CHR 0x85 \<notin> set tg"
  shows "login_matchLocale codes tg = map_option locale_tag (matchLocale tg)"
  unfolding login_matchLocale_def matchLocale_def TrimSpace_trim [OF assms(2)] find_code [OF assms(1)] fst_cut
  by (simp add: Let_def split: option.split)

lemma first_match_detect:
  assumes "set codes = range locale_tag" "\<forall>tg \<in> set tags. CHR 0x85 \<notin> set tg"
  shows "first_match codes tags = locale_tag (detectLocale tags)"
  using assms(2)
proof (induction tags)
  case (Cons tg tags)
  then show ?case using login_match [OF assms(1), of tg] by (simp split: option.split)
qed simp

lemma match_tag: "matchLocale (locale_tag l) = Some l" "CHR 0x85 \<notin> set (locale_tag l)"
  by (induct l; code_simp)+

lemma cookie_of_choice:
  "map_of (set_cookie (locale_cookie c) jar) cookieName = map_option locale_tag c"
proof (cases c)
  case None
  have "split_on (CHR '';'') (locale_cookie None) = [''mailpeek_lang='', '' Path=/'', '' Max-Age=0'', '' SameSite=Lax'']"
    by code_simp
  moreover have "''Max-Age=0'' \<in> set (map trim ['' Path=/'', '' Max-Age=0'', '' SameSite=Lax''])" by code_simp
  moreover have "cut (CHR ''='') ''mailpeek_lang='' = (cookieName, [])" by code_simp
  ultimately show ?thesis using None
    by (auto simp: set_cookie_def map_of_eq_None_iff simp del: set_map list.map)
next
  case (Some l)
  have "split_on (CHR '';'') (locale_cookie (Some l)) =
      [cookieName @ ''='' @ locale_tag l, '' Path=/'', '' Max-Age=31536000'', '' SameSite=Lax'']"
    by (induct l; code_simp)
  moreover have "''Max-Age=0'' \<notin> set (map trim ['' Path=/'', '' Max-Age=31536000'', '' SameSite=Lax''])" by code_simp
  moreover have "cut (CHR ''='') (cookieName @ ''='' @ locale_tag l) = (cookieName, locale_tag l)"
    by (induct l; code_simp)
  ultimately show ?thesis using Some by (simp add: set_cookie_def map_of_obj_set del: set_map list.map)
qed

section \<open>Comparing the catalogues\<close>

text \<open>Every opening brace of a text begins a placeholder, and two texts have the same ones.\<close>

definition closed_holes :: "string \<Rightarrow> bool" where
  "closed_holes t \<longleftrightarrow> count_list t (CHR ''{'') = length (placeholders t)"

definition same_holes :: "string \<Rightarrow> string \<Rightarrow> bool" where
  "same_holes s t \<longleftrightarrow> placeholders s = placeholders t \<and> closed_holes s \<and> closed_holes t"

definition same_entry :: "string \<times> string \<Rightarrow> string \<times> string \<Rightarrow> bool" where
  "same_entry p q \<longleftrightarrow> fst p = fst q \<and> same_holes (snd p) (snd q)"

lemma placeholder_search_none: "CHR ''{'' \<notin> set r \<Longrightarrow> search placeholder_re b r = None"
  by (induction r arbitrary: b) (auto simp: placeholder_re_def chr_def)

lemma placeholders_code:
  "placeholders s = (if CHR ''{'' \<in> set s
     then map (\<lambda>(_, m). nullish (m_group m 1) []) (fst (segments placeholder_re [] s)) else [])"
  by (simp add: placeholders_def segments_None placeholder_search_none)

text \<open>
  The same placeholders read in one pass over the text: a brace, a run of word characters and the
  closing brace. The backtracking matcher gives a run's shorter ends up because a word character is no brace.
\<close>

fun scan_holes :: "string \<Rightarrow> string list" where
  "scan_holes [] = []"
| "scan_holes (c # s) =
     (if c = CHR ''{'' then
        (let w = takeWhile is_word s in
         if w \<noteq> [] \<and> drop (length w) s \<noteq> [] \<and> s ! length w = CHR ''}''
         then w # scan_holes (drop (length w + 1) s) else scan_holes s)
      else scan_holes s)"

lemma hole_here:
  assumes "w = takeWhile is_word s"
  shows "rmatch placeholder_re (MS b (CHR ''{'' # s) []) =
     (if w \<noteq> [] \<and> drop (length w) s \<noteq> [] \<and> s ! length w = CHR ''}''
      then [MS (CHR ''}'' # rev w @ CHR ''{'' # b) (drop (length w + 1) s) [(1, w)]] else [])"
proof (cases s)
  case Nil
  then show ?thesis using assms by (simp add: placeholder_re_def chr_def quant_def)
next
  case (Cons c r)
  show ?thesis
  proof (cases "is_word c")
    case False
    with Cons assms show ?thesis by (simp add: placeholder_re_def chr_def quant_def)
  next
    case True
    let ?b = "CHR ''{'' # b"
    from rmatch_plus_runs [of is_word c ?b r "[]", OF True] Cons assms obtain sts where
      run: "rmatch (plus (Cls is_word)) (MS ?b s []) = MS (rev w @ ?b) (dropWhile is_word s) [] # sts"
      and inside: "\<forall>st \<in> set sts. \<exists>c u. mrest st = c # u \<and> is_word c" by auto
    have no: "\<not> is_word (CHR ''}'')" by code_simp
    have none: "concat (map (rmatch (Cls (\<lambda>x. x = CHR ''}'')))
        (map (\<lambda>st'. MS (mbefore st') (mrest st') ((1, between (MS ?b s []) st') # mcaps st')) sts)) = []"
      using inside no by (auto split: list.splits)
    have s: "s = w @ dropWhile is_word s" using assms by simp
    have d: "drop (length w) s = dropWhile is_word s" "dropWhile is_word s \<noteq> [] \<Longrightarrow> s ! length w = hd (dropWhile is_word s)"
      "drop (length w + 1) s = tl (dropWhile is_word s)"
      by (metis s append_eq_conv_conj, metis s nth_append_length hd_Cons_tl, metis s append_eq_conv_conj drop_Suc Suc_eq_plus1 tl_drop)
    have w: "w \<noteq> []" using Cons True assms by simp
    have bet: "between (MS ?b s []) (MS (rev w @ ?b) (dropWhile is_word s) []) = w" by (simp add: between_def)
    have "rmatch placeholder_re (MS b (CHR ''{'' # s) []) = concat (map (rmatch (Cls (\<lambda>x. x = CHR ''}'')))
        (map (\<lambda>st'. MS (mbefore st') (mrest st') ((1, between (MS ?b s []) st') # mcaps st')) (rmatch (plus (Cls is_word)) (MS ?b s []))))"
      by (simp add: placeholder_re_def chr_def del: rmatch.simps(5))
    also have "\<dots> = rmatch (Cls (\<lambda>x. x = CHR ''}'')) (MS (rev w @ ?b) (dropWhile is_word s) [(1, w)])"
      unfolding run using none bet by simp
    finally show ?thesis using d w by (cases "dropWhile is_word s") auto
  qed
qed

lemma no_hole_here: "c \<noteq> CHR ''{'' \<Longrightarrow> rmatch placeholder_re (MS b (c # s) []) = []"
  by (simp add: placeholder_re_def chr_def)

definition hole_of :: "string \<times> rmatch_result \<Rightarrow> string" where
  "hole_of = (\<lambda>(_, m). nullish (m_group m 1) [])"

lemma holes_push: "map hole_of (fst (push_gap c p)) = map hole_of (fst p)"
  by (cases "(c, p)" rule: push_gap.cases) (auto simp: hole_of_def)

lemma scan_segments: "map hole_of (fst (segments placeholder_re b s)) = scan_holes s"
proof (induction s arbitrary: b rule: scan_holes.induct)
  case 1
  then show ?case by (simp add: segments_None placeholder_re_def chr_def)
next
  case (2 c s)
  define w where "w = takeWhile is_word s"
  note here = hole_here [OF w_def, of b]
  show ?case
  proof (cases "c = CHR ''{'' \<and> w \<noteq> [] \<and> drop (length w) s \<noteq> [] \<and> s ! length w = CHR ''}''")
    case True
    with here have "search placeholder_re b (c # s) = Some ([], \<lparr>m_text = CHR ''{'' # w @ ''}'', m_caps = [(1, w)]\<rparr>,
        CHR ''}'' # rev w @ CHR ''{'' # b, drop (length w + 1) s)"
      by (simp add: between_def)
    from segments_Some [OF this] True 2(1) [OF _ w_def] show ?thesis
      by (simp add: hole_of_def m_group_def w_def [symmetric] Let_def)
  next
    case False
    then have "rmatch placeholder_re (MS b (c # s) []) = []"
      using here no_hole_here [of c b s] by (cases "c = CHR ''{''") (simp_all only: if_False, auto)
    moreover have "scan_holes (c # s) = scan_holes s" "map hole_of (fst (segments placeholder_re (c # b) s)) = scan_holes s"
      using False 2(2) [OF _ w_def] 2(3) by (cases "c = CHR ''{''"; simp add: w_def [symmetric] Let_def; blast)+
    ultimately show ?thesis by (simp only: segments_skip holes_push)
  qed
qed

lemma placeholders_scan: "placeholders s = scan_holes s"
  unfolding placeholders_def hole_of_def [symmetric] by (rule scan_segments)

lemma plain_holes: "CHR ''{'' \<notin> set s \<Longrightarrow> CHR ''{'' \<notin> set t \<Longrightarrow> same_holes s t"
  by (simp add: same_holes_def closed_holes_def placeholders_code count_list_0_iff)

lemma equal_holes:
  "(let p = placeholders s; n = length p in
     placeholders t = p \<and> count_list s (CHR ''{'') = n \<and> count_list t (CHR ''{'') = n) \<Longrightarrow> same_holes s t"
  by (simp add: same_holes_def closed_holes_def Let_def)

lemma same_entryI: "same_holes s t \<Longrightarrow> same_entry (k, s) (k, t)"
  by (simp add: same_entry_def)

text \<open>The tables agree section by section.\<close>

text \<open>
  The tables agree entry by entry; a text without a brace has no placeholder. The changes of European
  Portuguese are to keys of the English table.
\<close>

lemma esES_like_enUS: "list_all2 same_entry enUS esES"
  unfolding enUS_def esES_def
  by (intro list_all2_appendI; (unfold section_defs)?, (intro list.rel_intros same_entryI)?;
     ((rule plain_holes, simp, simp) | (rule equal_holes, simp add: placeholders_scan js_eval)))

lemma frFR_like_enUS: "list_all2 same_entry enUS frFR"
  unfolding enUS_def frFR_def
  by (intro list_all2_appendI; (unfold section_defs)?, (intro list.rel_intros same_entryI)?;
     ((rule plain_holes, simp, simp) | (rule equal_holes, simp add: placeholders_scan js_eval)))

lemma ptBR_like_enUS: "list_all2 same_entry enUS ptBR"
  unfolding enUS_def ptBR_def
  by (intro list_all2_appendI; (unfold section_defs)?, (intro list.rel_intros same_entryI)?;
     ((rule plain_holes, simp, simp) | (rule equal_holes, simp add: placeholders_scan js_eval)))

lemma keys_distinct: "distinct (map fst enUS)"
  unfolding enUS_def section_defs list.map append.simps fst_conv by simp

definition known :: "catalogue \<Rightarrow> string \<times> string \<Rightarrow> bool" where
  "known c p \<longleftrightarrow> (\<exists>s. (fst p, s) \<in> set c \<and> same_holes s (snd p))"

lemma knownI: "(k, s) \<in> set c \<Longrightarrow> same_holes s t \<Longrightarrow> known c (k, t)"
  by (auto simp: known_def)

lemma in_section:
  "p \<in> set enUS_app \<Longrightarrow> p \<in> set enUS" "p \<in> set enUS_header \<Longrightarrow> p \<in> set enUS"
  "p \<in> set enUS_list \<Longrightarrow> p \<in> set enUS" "p \<in> set enUS_view \<Longrightarrow> p \<in> set enUS"
  "p \<in> set enUS_html \<Longrightarrow> p \<in> set enUS" "p \<in> set enUS_parts \<Longrightarrow> p \<in> set enUS"
  by (simp_all add: enUS_def)

lemma list_all_intros: "list_all P []" "P x \<Longrightarrow> list_all P xs \<Longrightarrow> list_all P (x # xs)"
  by simp_all

lemma ptPT_changes_known:
  "list_all (known enUS) ptPT_top" "list_all (known enUS) ptPT_middle" "list_all (known enUS) ptPT_bottom"
  unfolding ptPT_top_def ptPT_middle_def ptPT_bottom_def
  by (intro list_all_intros; (rule knownI, rule in_section, unfold section_defs,
     (rule list.set_intros(1) | rule list.set_intros(2))+,
     ((rule plain_holes, simp, simp) | (rule equal_holes, simp add: placeholders_scan js_eval))))+

lemma like_lookup:
  assumes "list_all2 same_entry a b" "map_of a k = Some s"
  shows "\<exists>t. map_of b k = Some t \<and> same_holes s t"
  using assms
  by (induction rule: list_all2_induct) (auto simp: same_entry_def split: if_splits)

lemma lookup_spread:
  "map_of (obj_spread a b) k = Some t \<Longrightarrow> map_of a k = Some t \<or> (k, t) \<in> set b"
  "map_of a k \<noteq> None \<Longrightarrow> map_of (obj_spread a b) k \<noteq> None"
  by (induction b arbitrary: a) (force simp: obj_spread_def map_of_obj_set split: if_splits)+

lemma ptPT_like_enUS:
  assumes k: "map_of enUS k = Some s"
  shows "\<exists>t. map_of ptPT k = Some t \<and> same_holes s t"
proof -
  let ?changes = "ptPT_top @ ptPT_middle @ ptPT_bottom"
  from like_lookup [OF ptBR_like_enUS k] obtain b where b: "map_of ptBR k = Some b" "same_holes s b" by blast
  with lookup_spread(2) [of ptBR k ?changes] obtain t where t: "map_of ptPT k = Some t"
    by (auto simp: ptPT_def)
  with lookup_spread(1) [of ptBR ?changes k t] consider "b = t" | "(k, t) \<in> set ?changes"
    using b by (auto simp: ptPT_def)
  then have "same_holes s t"
  proof cases
    case 2
    with ptPT_changes_known have "known enUS (k, t)" by (auto simp: list_all_iff)
    then obtain s' where "(k, s') \<in> set enUS" "same_holes s' t" by (auto simp: known_def)
    then show ?thesis using k keys_distinct by simp
  qed (use b in simp)
  with t show ?thesis by blast
qed

lemma every_language:
  assumes "map_of enUS k = Some s"
  shows "\<exists>t. map_of (messages_in l) k = Some t \<and> placeholders t = placeholders s \<and> closed_holes t"
proof -
  note facts = like_lookup [OF esES_like_enUS assms] like_lookup [OF frFR_like_enUS assms]
    like_lookup [OF ptBR_like_enUS assms] ptPT_like_enUS [OF assms]
  then have "closed_holes s" by (auto simp: same_holes_def)
  then show ?thesis using facts assms by (cases l) (auto simp: same_holes_def)
qed

section \<open>Filling in\<close>

lemma hole_text: "(g, m) \<in> set (fst (segments placeholder_re b r)) \<Longrightarrow> 1 \<le> count_list (m_text m) (CHR ''{'')"
  by (auto dest!: segments_search search_matched matched_Seq matched_Cls simp: placeholder_re_def chr_def)

lemma braces_split:
  assumes "\<forall>p \<in> set ms. 1 \<le> count_list (m_text (snd p)) c"
    and "count_list (concat (map (\<lambda>(g, m). g @ m_text m) ms)) c + n = length ms"
  shows "n = 0 \<and> (\<forall>(g, m) \<in> set ms. c \<notin> set g)"
  using assms
proof (induction ms arbitrary: n)
  case (Cons p ms)
  obtain g m where p: "p = (g, m)" by force
  let ?rest = "count_list (concat (map (\<lambda>(g, m). g @ m_text m) ms)) c"
  have "length ms \<le> ?rest"
    using Cons.prems(1) unfolding p by (induction ms) auto
  with Cons.prems have "?rest + n = length ms" "count_list g c = 0" by (auto simp: p)
  with Cons.IH Cons.prems(1) show ?case by (auto simp: p count_list_0_iff)
qed simp

lemma filled:
  assumes t: "closed_holes t" and v: "\<And>n. n \<in> set (placeholders t) \<Longrightarrow> \<exists>v. map_of vars n = Some v \<and> CHR ''{'' \<notin> set v"
  shows "CHR ''{'' \<notin> set (replace_all placeholder_re (fill vars) t)"
proof -
  let ?p = "segments placeholder_re [] t"
  have "count_list (concat (map (\<lambda>(g, m). g @ m_text m) (fst ?p))) (CHR ''{'') + count_list (snd ?p) (CHR ''{'') =
      length (fst ?p)"
    using t segments_lossless [of placeholder_re "[]" t]
    by (metis closed_holes_def count_list_append length_map placeholders_def unsegment_def)
  moreover have "\<forall>p \<in> set (fst ?p). 1 \<le> count_list (m_text (snd p)) (CHR ''{'')"
    using hole_text [of _ _ "[]" t] by force
  ultimately have g: "CHR ''{'' \<notin> set (snd ?p)" "\<forall>(g, m) \<in> set (fst ?p). CHR ''{'' \<notin> set g"
    using braces_split [of "fst ?p" "CHR ''{''" "count_list (snd ?p) (CHR ''{'')"] by (auto simp: count_list_0_iff)
  have "CHR ''{'' \<notin> set (fill vars m)" if "(g, m) \<in> set (fst ?p)" for g m
    using v [of "nullish (m_group m 1) []"] that by (force simp: placeholders_def fill_def)
  with g show ?thesis by (auto simp: replace_all_def Let_def)
qed

lemma translate_filled:
  assumes "map_of enUS key = Some en"
    and "\<forall>n \<in> set (placeholders en). \<exists>v. map_of vars n = Some v \<and> CHR ''{'' \<notin> set v"
  shows "\<exists>t. map_of (messages_in l) key = Some t \<and> placeholders t = placeholders en \<and>
    translate l key vars = Some (replace_all placeholder_re (fill vars) t) \<and>
    CHR ''{'' \<notin> set (replace_all placeholder_re (fill vars) t)"
proof -
  from every_language [OF assms(1)] obtain t where t: "map_of (messages_in l) key = Some t"
    "placeholders t = placeholders en" "closed_holes t" by blast
  with filled [OF t(3)] assms(2) show ?thesis by (auto simp: translate_def)
qed

lemma english:
  "map_of enUS ''error.network'' = Some ''Mailpeek can't be reached. Is it still running?''"
  "map_of enUS ''error.unauthorized'' = Some ''your session has ended. Sign in again.''"
  "map_of enUS ''error.notFound'' = Some ''it no longer exists (it may have been deleted).''"
  "map_of enUS ''error.server'' = Some ''the server failed (HTTP {status}).''"
  "map_of enUS ''error.http'' = Some ''the request was refused (HTTP {status}).''"
  "map_of enUS ''error.unknown'' = Some ''unexpected error.''"
  by (rule map_of_is_SomeI [OF keys_distinct], rule in_section(1), unfold enUS_app_def,
      (rule list.set_intros(1) | rule list.set_intros(2))+)+

lemma english_placeholders:
  "placeholders ''Mailpeek can't be reached. Is it still running?'' = []"
  "placeholders ''your session has ended. Sign in again.'' = []"
  "placeholders ''it no longer exists (it may have been deleted).'' = []"
  "placeholders ''the server failed (HTTP {status}).'' = [''status'']"
  "placeholders ''the request was refused (HTTP {status}).'' = [''status'']"
  "placeholders ''unexpected error.'' = []"
  by (simp_all add: placeholders_scan js_eval)

lemma show_int_no_brace: "CHR ''{'' \<notin> set (show_int n)"
proof -
  have "CHR ''{'' \<notin> set (show_nat k)" for k using show_nat_digits [of "CHR ''{''" k] by (auto simp: is_digit_def)
  then show ?thesis by (simp add: show_int_def)
qed

section \<open>Keys of the English table\<close>

definition english_keys :: "string list" where
  "english_keys = [
    ''app.inbox'', ''app.emptyList'', ''app.loadError'', ''app.messageError'', ''error.network'',
    ''error.unauthorized'', ''error.notFound'', ''error.server'', ''error.http'', ''error.unknown'',
    ''status.live'', ''status.connecting'', ''status.offline'', ''status.title'', ''smtp.copy'',
    ''smtp.loginRequired'', ''smtp.loginRequiredTitle'', ''header.search'', ''header.searchLabel'',
    ''header.clearSearch'', ''header.clear'', ''header.confirmClear'', ''header.clearInbox'',
    ''header.sound'', ''header.soundOn'', ''header.soundOff'', ''header.list'', ''header.showList'',
    ''header.hideList'', ''header.signOut'', ''header.language'', ''header.theme'', ''header.themeToLight'',
    ''header.themeToDark'', ''header.badge'', ''address.unknown'', ''attachment.file'', ''language.auto'',
    ''list.new'', ''list.noSubject'', ''list.to'', ''list.none'', ''list.loadingMore'', ''list.attachments'',
    ''empty.title'', ''empty.configure'', ''empty.configureSidebar'', ''empty.login'', ''empty.footer'',
    ''empty.noResults'', ''view.email'', ''view.back'', ''view.download'', ''view.delete'', ''view.details'',
    ''view.showDetails'', ''view.hideDetails'', ''view.from'', ''view.to'', ''view.cc'', ''view.replyTo'',
    ''view.received'', ''view.tabs'', ''tab.html'', ''tab.text'', ''tab.headers'', ''tab.raw'',
    ''tab.attachments'', ''tab.links'', ''html.none'', ''html.preview'', ''html.frame'', ''html.fullscreen'',
    ''html.fullscreenTitle'', ''html.close'', ''html.closeTitle'', ''width.desktop'', ''width.tablet'',
    ''width.mobile'', ''text.none'', ''raw.loading'', ''raw.error'', ''copy.copy'', ''copy.copied'',
    ''attachments.none'', ''attachments.download'', ''attachments.open'', ''attachments.preview'',
    ''attachments.inline'', ''links.none'', ''links.noText'', ''links.copy'', ''links.openTitle'',
    ''links.open'', ''resize.label'', ''resize.title'']"

definition english_holes :: "(string \<times> string list) list" where
  "english_holes = [
    (''app.loadError'', [''error'']),
    (''app.messageError'', [''error'']),
    (''error.server'', [''status'']),
    (''error.http'', [''status'']),
    (''list.to'', [''list'']),
    (''list.attachments'', [''count'']),
    (''empty.login'', [''env'']),
    (''empty.noResults'', [''query'']),
    (''raw.error'', [''error'']),
    (''attachments.preview'', [''name'']),
    (''links.open'', [''target''])]"

definition holes :: "string \<Rightarrow> string list" where
  "holes k = nullish (map_of english_holes k) []"

lemmas key_memberI = subst [OF english_keys_def [symmetric], of "\<lambda>xs. k \<in> set xs" for k]

lemma english_key_facts:
  "''app.inbox'' \<in> set english_keys \<and> holes ''app.inbox'' = []"
  "''app.emptyList'' \<in> set english_keys \<and> holes ''app.emptyList'' = []"
  "''app.loadError'' \<in> set english_keys \<and> holes ''app.loadError'' = [''error'']"
  "''app.messageError'' \<in> set english_keys \<and> holes ''app.messageError'' = [''error'']"
  "''error.network'' \<in> set english_keys \<and> holes ''error.network'' = []"
  "''error.unauthorized'' \<in> set english_keys \<and> holes ''error.unauthorized'' = []"
  "''error.notFound'' \<in> set english_keys \<and> holes ''error.notFound'' = []"
  "''error.server'' \<in> set english_keys \<and> holes ''error.server'' = [''status'']"
  "''error.http'' \<in> set english_keys \<and> holes ''error.http'' = [''status'']"
  "''error.unknown'' \<in> set english_keys \<and> holes ''error.unknown'' = []"
  "''status.live'' \<in> set english_keys \<and> holes ''status.live'' = []"
  "''status.connecting'' \<in> set english_keys \<and> holes ''status.connecting'' = []"
  "''status.offline'' \<in> set english_keys \<and> holes ''status.offline'' = []"
  "''status.title'' \<in> set english_keys \<and> holes ''status.title'' = []"
  "''smtp.copy'' \<in> set english_keys \<and> holes ''smtp.copy'' = []"
  "''smtp.loginRequired'' \<in> set english_keys \<and> holes ''smtp.loginRequired'' = []"
  "''smtp.loginRequiredTitle'' \<in> set english_keys \<and> holes ''smtp.loginRequiredTitle'' = []"
  "''header.search'' \<in> set english_keys \<and> holes ''header.search'' = []"
  "''header.searchLabel'' \<in> set english_keys \<and> holes ''header.searchLabel'' = []"
  "''header.clearSearch'' \<in> set english_keys \<and> holes ''header.clearSearch'' = []"
  "''header.clear'' \<in> set english_keys \<and> holes ''header.clear'' = []"
  "''header.confirmClear'' \<in> set english_keys \<and> holes ''header.confirmClear'' = []"
  "''header.clearInbox'' \<in> set english_keys \<and> holes ''header.clearInbox'' = []"
  "''header.sound'' \<in> set english_keys \<and> holes ''header.sound'' = []"
  "''header.soundOn'' \<in> set english_keys \<and> holes ''header.soundOn'' = []"
  "''header.soundOff'' \<in> set english_keys \<and> holes ''header.soundOff'' = []"
  "''header.list'' \<in> set english_keys \<and> holes ''header.list'' = []"
  "''header.showList'' \<in> set english_keys \<and> holes ''header.showList'' = []"
  "''header.hideList'' \<in> set english_keys \<and> holes ''header.hideList'' = []"
  "''header.signOut'' \<in> set english_keys \<and> holes ''header.signOut'' = []"
  "''header.language'' \<in> set english_keys \<and> holes ''header.language'' = []"
  "''header.theme'' \<in> set english_keys \<and> holes ''header.theme'' = []"
  "''header.themeToLight'' \<in> set english_keys \<and> holes ''header.themeToLight'' = []"
  "''header.themeToDark'' \<in> set english_keys \<and> holes ''header.themeToDark'' = []"
  "''header.badge'' \<in> set english_keys \<and> holes ''header.badge'' = []"
  "''address.unknown'' \<in> set english_keys \<and> holes ''address.unknown'' = []"
  "''attachment.file'' \<in> set english_keys \<and> holes ''attachment.file'' = []"
  "''language.auto'' \<in> set english_keys \<and> holes ''language.auto'' = []"
  "''list.new'' \<in> set english_keys \<and> holes ''list.new'' = []"
  "''list.noSubject'' \<in> set english_keys \<and> holes ''list.noSubject'' = []"
  "''list.to'' \<in> set english_keys \<and> holes ''list.to'' = [''list'']"
  "''list.none'' \<in> set english_keys \<and> holes ''list.none'' = []"
  "''list.loadingMore'' \<in> set english_keys \<and> holes ''list.loadingMore'' = []"
  "''list.attachments'' \<in> set english_keys \<and> holes ''list.attachments'' = [''count'']"
  "''empty.title'' \<in> set english_keys \<and> holes ''empty.title'' = []"
  "''empty.configure'' \<in> set english_keys \<and> holes ''empty.configure'' = []"
  "''empty.configureSidebar'' \<in> set english_keys \<and> holes ''empty.configureSidebar'' = []"
  "''empty.login'' \<in> set english_keys \<and> holes ''empty.login'' = [''env'']"
  "''empty.footer'' \<in> set english_keys \<and> holes ''empty.footer'' = []"
  "''empty.noResults'' \<in> set english_keys \<and> holes ''empty.noResults'' = [''query'']"
  "''view.email'' \<in> set english_keys \<and> holes ''view.email'' = []"
  "''view.back'' \<in> set english_keys \<and> holes ''view.back'' = []"
  "''view.download'' \<in> set english_keys \<and> holes ''view.download'' = []"
  "''view.delete'' \<in> set english_keys \<and> holes ''view.delete'' = []"
  "''view.details'' \<in> set english_keys \<and> holes ''view.details'' = []"
  "''view.showDetails'' \<in> set english_keys \<and> holes ''view.showDetails'' = []"
  "''view.hideDetails'' \<in> set english_keys \<and> holes ''view.hideDetails'' = []"
  "''view.from'' \<in> set english_keys \<and> holes ''view.from'' = []"
  "''view.to'' \<in> set english_keys \<and> holes ''view.to'' = []"
  "''view.cc'' \<in> set english_keys \<and> holes ''view.cc'' = []"
  "''view.replyTo'' \<in> set english_keys \<and> holes ''view.replyTo'' = []"
  "''view.received'' \<in> set english_keys \<and> holes ''view.received'' = []"
  "''view.tabs'' \<in> set english_keys \<and> holes ''view.tabs'' = []"
  "''tab.html'' \<in> set english_keys \<and> holes ''tab.html'' = []"
  "''tab.text'' \<in> set english_keys \<and> holes ''tab.text'' = []"
  "''tab.headers'' \<in> set english_keys \<and> holes ''tab.headers'' = []"
  "''tab.raw'' \<in> set english_keys \<and> holes ''tab.raw'' = []"
  "''tab.attachments'' \<in> set english_keys \<and> holes ''tab.attachments'' = []"
  "''tab.links'' \<in> set english_keys \<and> holes ''tab.links'' = []"
  "''html.none'' \<in> set english_keys \<and> holes ''html.none'' = []"
  "''html.preview'' \<in> set english_keys \<and> holes ''html.preview'' = []"
  "''html.frame'' \<in> set english_keys \<and> holes ''html.frame'' = []"
  "''html.fullscreen'' \<in> set english_keys \<and> holes ''html.fullscreen'' = []"
  "''html.fullscreenTitle'' \<in> set english_keys \<and> holes ''html.fullscreenTitle'' = []"
  "''html.close'' \<in> set english_keys \<and> holes ''html.close'' = []"
  "''html.closeTitle'' \<in> set english_keys \<and> holes ''html.closeTitle'' = []"
  "''width.desktop'' \<in> set english_keys \<and> holes ''width.desktop'' = []"
  "''width.tablet'' \<in> set english_keys \<and> holes ''width.tablet'' = []"
  "''width.mobile'' \<in> set english_keys \<and> holes ''width.mobile'' = []"
  "''text.none'' \<in> set english_keys \<and> holes ''text.none'' = []"
  "''raw.loading'' \<in> set english_keys \<and> holes ''raw.loading'' = []"
  "''raw.error'' \<in> set english_keys \<and> holes ''raw.error'' = [''error'']"
  "''copy.copy'' \<in> set english_keys \<and> holes ''copy.copy'' = []"
  "''copy.copied'' \<in> set english_keys \<and> holes ''copy.copied'' = []"
  "''attachments.none'' \<in> set english_keys \<and> holes ''attachments.none'' = []"
  "''attachments.download'' \<in> set english_keys \<and> holes ''attachments.download'' = []"
  "''attachments.open'' \<in> set english_keys \<and> holes ''attachments.open'' = []"
  "''attachments.preview'' \<in> set english_keys \<and> holes ''attachments.preview'' = [''name'']"
  "''attachments.inline'' \<in> set english_keys \<and> holes ''attachments.inline'' = []"
  "''links.none'' \<in> set english_keys \<and> holes ''links.none'' = []"
  "''links.noText'' \<in> set english_keys \<and> holes ''links.noText'' = []"
  "''links.copy'' \<in> set english_keys \<and> holes ''links.copy'' = []"
  "''links.openTitle'' \<in> set english_keys \<and> holes ''links.openTitle'' = []"
  "''links.open'' \<in> set english_keys \<and> holes ''links.open'' = [''target'']"
  "''resize.label'' \<in> set english_keys \<and> holes ''resize.label'' = []"
  "''resize.title'' \<in> set english_keys \<and> holes ''resize.title'' = []"
  by (rule conjI, rule key_memberI, (rule list.set_intros(1) | rule list.set_intros(2))+, simp add: holes_def english_holes_def)+

lemma enUS_keys: "map fst enUS = english_keys"
  unfolding enUS_def section_defs list.map append.simps fst_conv english_keys_def by (rule refl)

lemma plain_hole: "CHR ''{'' \<notin> set s \<Longrightarrow> holes k = [] \<Longrightarrow> placeholders (snd (k, s)) = holes (fst (k, s))"
  by (simp add: placeholders_code)

lemma enUS_holes: "list_all (\<lambda>p. placeholders (snd p) = holes (fst p)) enUS"
  unfolding enUS_def list_all_append
  by (intro conjI; (unfold section_defs)?, (intro list_all_intros)?;
     ((rule plain_hole, simp, simp add: english_key_facts) | (simp add: placeholders_scan js_eval english_key_facts)))

section \<open>The properties\<close>

text \<open>
  C29: Every text can be shown in every language: each key of the English table has a text in each
  locale, with the same placeholders in the same order, and translating it with values for them succeeds
  and leaves no placeholder behind.
\<close>

theorem translations_complete:
  assumes "map_of enUS key = Some en"
    and "\<forall>n \<in> set (placeholders en). \<exists>v. map_of vars n = Some v \<and> CHR ''{'' \<notin> set v"
  shows "\<exists>t. map_of (messages_in l) key = Some t \<and> placeholders t = placeholders en \<and>
    translate l key vars = Some (replace_all placeholder_re (fill vars) t) \<and>
    CHR ''{'' \<notin> set (replace_all placeholder_re (fill vars) t)"
  using assms by (rule translate_filled)

theorem translations_complete_witness:
  "\<exists>t. map_of (messages_in Fr_FR) ''error.http'' = Some t \<and>
    placeholders t = placeholders ''the request was refused (HTTP {status}).'' \<and>
    translate Fr_FR ''error.http'' [(''status'', ''404'')] =
      Some (replace_all placeholder_re (fill [(''status'', ''404'')]) t) \<and>
    CHR ''{'' \<notin> set (replace_all placeholder_re (fill [(''status'', ''404'')]) t)"
  by (rule translations_complete) (simp_all add: english english_placeholders)

text \<open>
  Whatever goes wrong with a request, the page has a sentence for it in the reader's language,
  with the status filled in.
\<close>

theorem errors_are_described:
  "\<exists>txt. translate l (pb_key (describeError e)) (pb_vars (describeError e)) = Some txt \<and> CHR ''{'' \<notin> set txt"
proof -
  let ?p = "describeError e"
  have "\<exists>en. map_of enUS (pb_key ?p) = Some en \<and>
      (\<forall>n \<in> set (placeholders en). \<exists>v. map_of (pb_vars ?p) n = Some v \<and> CHR ''{'' \<notin> set v)"
    by (cases e) (simp_all add: describeError_def english english_placeholders show_int_no_brace)
  then show ?thesis using translate_filled [of "pb_key ?p" _ "pb_vars ?p" l] by blast
qed

text \<open>
  C30: The login page of the server speaks the language of the web interface: after the reader
  chooses a language, or goes back to automatic, the server, given the cookie the page wrote and the
  languages the browser prefers, picks the locale the page is shown in. (U+0085 is white space for Go
  and not for JavaScript; no language tag has it.)
\<close>

theorem login_page_language:
  assumes "set codes = range locale_tag" "\<forall>tg \<in> set (ip_languages p). CHR 0x85 \<notin> set tg"
  shows "loginLocale codes (ip_cookies (setChoice c p)) (ip_languages p) = document_lang (setChoice c p)"
proof -
  have "ip_cookies (setChoice c p) = set_cookie (locale_cookie c) (ip_cookies p)" "ip_choice (setChoice c p) = c"
    "ip_languages (setChoice c p) = ip_languages p"
    by (simp_all add: setChoice_def saveLocale_def)
  then show ?thesis
    using first_match_detect [OF assms] login_match [OF assms(1) match_tag(2)]
    by (cases c) (simp_all add: loginLocale_def cookie_of_choice document_lang_def current_locale_def match_tag nullish_def)
qed

theorem login_page_language_witness:
  "loginLocale (map locale_tag (rev locales)) (ip_cookies (setChoice None
      \<lparr>ip_choice = Some Es_ES, ip_languages = [''pt-AO'', ''fr''], ip_storage = \<lparr>sg_blocked = True, sg_items = []\<rparr>,
       ip_cookies = [(''mailpeek_lang'', ''es-ES'')]\<rparr>)) [''pt-AO'', ''fr''] = ''pt-PT''"
proof -
  have "range locale_tag = locale_tag ` set locales" using locales_all by auto
  moreover have "locale_tag (detectLocale [''pt-AO'', ''fr'']) = ''pt-PT''" by code_simp
  ultimately show ?thesis
    using login_page_language [of "map locale_tag (rev locales)" "\<lparr>ip_choice = Some Es_ES,
      ip_languages = [''pt-AO'', ''fr''], ip_storage = \<lparr>sg_blocked = True, sg_items = []\<rparr>,
      ip_cookies = [(''mailpeek_lang'', ''es-ES'')]\<rparr>" None]
    by (simp add: document_lang_def current_locale_def setChoice_def saveLocale_def nullish_def del: detectLocale.simps)
qed

text \<open>A chosen language is read back by the next page, as long as the storage can be used.\<close>

theorem choice_survives_reload:
  assumes "\<not> sg_blocked (ip_storage p)"
  shows "ip_choice (I18nProvider langs (ip_storage (setChoice c p)) jar) = c"
  using assms find_tag
  by (cases c) (simp_all add: I18nProvider_def setChoice_def saveLocale_def readSavedLocale_def get_set_item get_remove_item find_None_iff)

end
