(* ===== verification/View.thy ===== *)
theory View
  imports I18n
begin

text \<open>
  The components of the page around a message (\<open>web/src/components\<close>: \<open>ui.tsx\<close>, \<open>Header.tsx\<close>, \<open>header\<close>,
  \<open>MessageList.tsx\<close>, \<open>ListArea.tsx\<close>, \<open>Sidebar.tsx\<close>, \<open>SidebarFooter.tsx\<close>, \<open>EmptyState.tsx\<close>, \<open>ErrorBanner.tsx\<close>,
  \<open>ResizeHandle.tsx\<close>). A component is a function from its properties and local state to a tree of
  elements with attributes, event handlers and texts. Class names and styles are left out, except that
  what they hide on phones, on the desktop or when collapsed has an attribute that says so; so are refs, which
  only move the focus and scroll.
\<close>

section \<open>Texts and elements\<close>

text \<open>
  A text of the page: data, a literal of the source, a translation, several in a row, or a function of
  a text. Data is taken as it is encoded for the page, like the catalogues.
\<close>

datatype label =
    L_raw string
  | L_fixed string
  | L_tr string "(string \<times> label) list"
  | L_cat "label list"
  | L_fun "string \<Rightarrow> string" label

abbreviation tr :: "string \<Rightarrow> label" where "tr k \<equiv> L_tr k []"

fun label_text :: "ui_locale \<Rightarrow> label \<Rightarrow> string option" where
  "label_text l (L_raw s) = Some s"
| "label_text l (L_fixed s) = Some s"
| "label_text l (L_tr k vars) =
     Option.bind (those (map (\<lambda>(n, v). map_option (Pair n) (label_text l v)) vars)) (translate l k)"
| "label_text l (L_cat xs) = map_option concat (those (map (label_text l) xs))"
| "label_text l (L_fun f x) = map_option f (label_text l x)"

text \<open>What the handlers of the page do.\<close>

datatype preview_width = Desktop | Tablet | Mobile

datatype action =
    Open_id string
  | Load_more
  | Set_query string
  | Blur_search
  | Press_clear
  | Toggle_sound
  | Hide_list
  | Sign_out
  | Switch_theme
  | Menu_press
  | Menu_trigger_key string
  | Menu_list_key string
  | Menu_blur
  | Menu_pick string
  | Copy_text string
  | Resize_key string
  | Reset_width
  | Show_tab tab
  | Toggle_details
  | Delete_shown
  | Go_back
  | Preview_width preview_width
  | Open_fullscreen
  | Close_fullscreen

text \<open>A handler gets the key that was pressed or the new value of the field.\<close>

datatype node =
    Elem (nd_tag: string) (nd_attrs: "(string \<times> label) list") (nd_handlers: "(string \<times> (string \<Rightarrow> action list)) list")
      (nd_children: "node list")
  | Text_node label

definition bool_label :: "bool \<Rightarrow> label" where
  "bool_label b = L_fixed (if b then ''true'' else ''false'')"

definition only_if :: "bool \<Rightarrow> 'a \<Rightarrow> 'a list" where
  [simp]: "only_if b x = (if b then [x] else [])"

definition on_click :: "action \<Rightarrow> string \<times> (string \<Rightarrow> action list)" where
  "on_click a = (''click'', \<lambda>_. [a])"

definition icon :: "string \<Rightarrow> node" where
  "icon name = Elem name [] [] []"

definition elem :: "string \<Rightarrow> node list \<Rightarrow> node" where
  "elem tg cs = Elem tg [] [] cs"

definition or_tr :: "string \<Rightarrow> string \<Rightarrow> label" where
  "or_tr s k = (if s = [] then tr k else L_raw s)"

text \<open>What an event on an element does; a disabled one gets none.\<close>

definition fire :: "string \<Rightarrow> string \<Rightarrow> node \<Rightarrow> action list" where
  "fire event v n = (case n of
     Text_node _ \<Rightarrow> []
   | Elem _ attrs hs _ \<Rightarrow> if map_of attrs ''disabled'' \<noteq> None then [] else
       (case map_of hs event of None \<Rightarrow> [] | Some f \<Rightarrow> f v))"

text \<open>What formatting depends on besides the data.\<close>

record view_env =
  ve_locale :: ui_locale
  ve_intl :: intl
  ve_now :: int

definition env_tag :: "view_env \<Rightarrow> string option" where
  "env_tag v = Some (locale_tag (ve_locale v))"

section \<open>Buttons\<close>

definition CopyButton :: "bool \<Rightarrow> string \<Rightarrow> label option \<Rightarrow> bool \<Rightarrow> node" where
  "CopyButton copied val lbl showLabel =
     (let txt = nullish lbl (tr ''copy.copy'')
      in Elem ''button'' [(''type'', L_fixed ''button''),
           (''title'', if copied then tr ''copy.copied'' else txt), (''aria-label'', txt)]
         [on_click (Copy_text val)]
         (icon (if copied then ''Check'' else ''Copy'') #
          only_if showLabel (Text_node (if copied then tr ''copy.copied'' else txt))))"

text \<open>The remaining properties come last and override the defaults.\<close>

definition IconButton :: "label \<Rightarrow> (string \<times> label) list \<Rightarrow> action \<Rightarrow> node list \<Rightarrow> node" where
  "IconButton lbl rest a cs =
     Elem ''button'' (obj_spread [(''type'', L_fixed ''button''), (''title'', lbl), (''aria-label'', lbl)] rest) [on_click a] cs"

definition Kbd :: "node list \<Rightarrow> node" where
  "Kbd cs = elem ''kbd'' cs"

section \<open>The header\<close>

definition Logo :: node where
  "Logo = elem ''div'' [Elem ''img'' [(''src'', L_fixed ''/favicon.svg''), (''alt'', L_fixed [])] [] [],
     elem ''span'' [Text_node (L_fixed ''Mailpeek'')], elem ''span'' [Text_node (tr ''header.badge'')]]"

definition ThemeToggle :: "bool \<Rightarrow> node" where
  "ThemeToggle dark = IconButton (tr ''header.theme'')
     [(''title'', tr (if dark then ''header.themeToLight'' else ''header.themeToDark'')), (''aria-pressed'', bool_label dark)]
     Switch_theme [icon (if dark then ''Moon'' else ''Sun'')]"

definition ClearButton :: "bool \<Rightarrow> bool \<Rightarrow> node" where
  "ClearButton armed disabled =
     Elem ''button'' ((''type'', L_fixed ''button'') # only_if disabled (''disabled'', L_fixed []) @
       [(''aria-label'', tr (if armed then ''header.confirmClear'' else ''header.clearInbox''))])
     [on_click Press_clear]
     [icon ''Trash2'', elem ''span'' [Text_node (tr (if armed then ''header.confirmClear'' else ''header.clear''))]]"

text \<open>The languages offered: automatic, then the locales. An option is its tag, or \<open>auto\<close>.\<close>

definition language_options :: "string list" where
  "language_options = ''auto'' # map locale_tag locales"

definition choice_option :: "ui_locale option \<Rightarrow> string" where
  "choice_option c = nullish (map_option locale_tag c) ''auto''"

definition localeFlags :: "ui_locale \<Rightarrow> string" where
  "localeFlags l = (case l of En_US \<Rightarrow> ''us'' | En_GB \<Rightarrow> ''gb'' | Pt_BR \<Rightarrow> ''br'' | Pt_PT \<Rightarrow> ''pt'' | Es_ES \<Rightarrow> ''es'' | Fr_FR \<Rightarrow> ''fr'')"

definition Flag :: "string \<Rightarrow> node" where
  "Flag otag = (case toLocale otag of
     None \<Rightarrow> elem ''span'' [icon ''Globe'']
   | Some l \<Rightarrow> Elem ''img'' [(''src'', L_fixed (localeFlags l)), (''alt'', L_fixed [])] [] [])"

definition option_name :: "i18n_provider \<Rightarrow> string \<Rightarrow> label" where
  "option_name p otag = (case toLocale otag of
     None \<Rightarrow> L_cat (tr ''language.auto'' #
       only_if (ip_choice p = None) (L_raw ('' ('' @ localeNames (current_locale p) @ '')'')))
   | Some l \<Rightarrow> L_raw (localeNames l))"

definition language_option :: "i18n_provider \<Rightarrow> int \<Rightarrow> nat \<times> string \<Rightarrow> node" where
  "language_option p active io = (case io of (i, otag) \<Rightarrow>
     let selected = (otag = choice_option (ip_choice p)) in
     Elem ''button'' ([(''type'', L_fixed ''button''), (''role'', L_fixed ''option''), (''aria-selected'', bool_label selected),
         (''tabindex'', L_fixed (if int i = active then ''0'' else ''-1''))] @ only_if (otag \<noteq> ''auto'') (''lang'', L_fixed otag))
       [on_click (Menu_pick otag)]
       ([Flag otag, elem ''span'' [Text_node (option_name p otag)]] @ only_if selected (icon ''Check'')))"

definition LanguagePicker :: "i18n_provider \<Rightarrow> menu \<Rightarrow> node" where
  "LanguagePicker p m =
     Elem ''div'' [] [(''blur'', \<lambda>_. [Menu_blur])]
       (Elem ''button''
          [(''type'', L_fixed ''button''), (''aria-label'', tr ''header.language''),
           (''title'', L_cat [tr ''header.language'', L_raw ('' ('' @ localeNames (current_locale p) @ '')'')]),
           (''aria-haspopup'', L_fixed ''listbox''), (''aria-expanded'', bool_label (mn_open m)),
           (''aria-controls'', L_fixed ''language-list'')]
          [on_click Menu_press, (''keydown'', \<lambda>k. [Menu_trigger_key k])]
          [Flag (locale_tag (current_locale p))] #
        only_if (mn_open m)
          (Elem ''div''
             [(''id'', L_fixed ''language-list''), (''role'', L_fixed ''listbox''), (''aria-label'', tr ''header.language'')]
             [(''keydown'', \<lambda>k. [Menu_list_key k])]
             (map (language_option p (mn_active m)) (enumerate 0 language_options))))"

record header_props =
  hp_query :: string
  hp_canClear :: bool
  hp_soundEnabled :: bool
  hp_listHidden :: bool
  hp_signOut :: bool

record header_state =
  hs_dark :: bool
  hs_menu :: menu
  hs_armed :: bool

definition search_field :: "string \<Rightarrow> node" where
  "search_field q = elem ''label''
     [icon ''Search'',
      Elem ''input''
        [(''type'', L_fixed ''search''), (''value'', L_raw q), (''placeholder'', tr ''header.search''),
         (''aria-label'', tr ''header.searchLabel'')]
        [(''change'', \<lambda>v. [Set_query v]), (''keydown'', \<lambda>k. if k = ''Escape'' then [Set_query [], Blur_search] else [])] [],
      elem ''span''
        [if q \<noteq> [] then Elem ''button'' [(''type'', L_fixed ''button''), (''aria-label'', tr ''header.clearSearch'')]
             [on_click (Set_query [])] [icon ''X'']
         else elem ''span'' [Kbd [Text_node (L_fixed ''/'')]]]]"

definition Header :: "header_props \<Rightarrow> header_state \<Rightarrow> i18n_provider \<Rightarrow> node" where
  "Header h s p =
     elem ''header''
       [Logo,
        IconButton (tr ''header.list'')
          [(''title'', tr (if hp_listHidden h then ''header.showList'' else ''header.hideList'')),
           (''aria-expanded'', bool_label (\<not> hp_listHidden h)), (''aria-controls'', L_fixed ''email-list'')]
          Hide_list [icon (if hp_listHidden h then ''PanelLeftOpen'' else ''PanelLeftClose'')],
        elem ''div'' [],
        search_field (hp_query h),
        elem ''div''
          ([IconButton (tr ''header.sound'')
              [(''title'', tr (if hp_soundEnabled h then ''header.soundOn'' else ''header.soundOff'')),
               (''aria-pressed'', bool_label (hp_soundEnabled h))]
              Toggle_sound [icon (if hp_soundEnabled h then ''Bell'' else ''BellOff'')],
            ThemeToggle (hs_dark s), LanguagePicker p (hs_menu s), ClearButton (hs_armed s) (\<not> hp_canClear h)] @
           only_if (hp_signOut h) (IconButton (tr ''header.signOut'') [] Sign_out [icon ''LogOut'']))]"

section \<open>The list\<close>

definition message_title :: "web_summary \<Rightarrow> label" where
  "message_title m = or_tr (ws_subject m) ''list.noSubject''"

definition from_label :: "address \<Rightarrow> label" where
  "from_label a = or_tr (addressLabel a []) ''address.unknown''"

definition to_label :: "web_summary \<Rightarrow> label" where
  "to_label m = L_tr ''list.to'' [(''list'', or_tr (join '', '' (map a_address (ws_to m))) ''list.none'')]"

definition message_item :: "view_env \<Rightarrow> string option \<Rightarrow> string list \<Rightarrow> web_summary \<Rightarrow> node" where
  "message_item v selected unread m =
     (let chosen = (Some (ws_id m) = selected); isUnread = (\<not> chosen \<and> ws_id m \<in> set unread) in
      Elem ''li''
        [(''role'', L_fixed ''option''), (''aria-selected'', bool_label chosen), (''tabindex'', L_fixed ''0'')]
        [(''keydown'', \<lambda>k. if k = ''Enter'' \<or> k = '' '' then [Open_id (ws_id m)] else []), on_click (Open_id (ws_id m))]
        (only_if chosen (elem ''span'' []) @
         [elem ''div''
            (only_if isUnread (Elem ''span'' [(''role'', L_fixed ''img''), (''aria-label'', tr ''list.new'')] [] []) @
             [elem ''span'' [Text_node (message_title m)],
              Elem ''time''
                [(''datetime'', L_raw (ws_createdAt m)), (''title'', L_raw (formatDateTime (ve_intl v) (ws_createdAt m) (env_tag v)))] []
                [Text_node (L_raw (formatListTime (ve_intl v) (ws_createdAt m) (env_tag v) (ve_now v)))]]),
          elem ''div'' [Text_node (from_label (ws_from m))],
          elem ''div''
            (elem ''span'' [Text_node (to_label m)] #
             only_if (0 < ws_attachments m)
               (Elem ''span'' [(''title'', L_tr ''list.attachments'' [(''count'', L_raw (show_int (ws_attachments m)))])] []
                  [icon ''Paperclip'', Text_node (L_raw (show_int (ws_attachments m)))]))]))"

text \<open>The observer's callback (\<open>useInfiniteScroll\<close>): which observed elements are in view.\<close>

definition useInfiniteScroll :: "'a \<Rightarrow> bool list \<Rightarrow> 'a list" where
  "useInfiniteScroll onEnd intersecting = only_if (list_ex (\<lambda>b. b) intersecting) onEnd"

text \<open>The element whose coming into view asks for more.\<close>

definition sentinel :: node where
  "sentinel = Elem ''div'' [(''aria-hidden'', L_fixed ''true'')] [(''intersect'', \<lambda>_. useInfiniteScroll Load_more [True])]
     [Text_node (tr ''list.loadingMore'')]"

definition MessageList :: "view_env \<Rightarrow> web_summary list \<Rightarrow> bool \<Rightarrow> string option \<Rightarrow> string list \<Rightarrow> node" where
  "MessageList v msgs moreLeft selected unread =
     elem ''div''
       (Elem ''ul'' [(''role'', L_fixed ''listbox''), (''aria-label'', tr ''app.inbox'')] []
          (map (message_item v selected unread) msgs) #
        only_if moreLeft sentinel)"

definition SidebarPlaceholder :: node where
  "SidebarPlaceholder = elem ''div'' [elem ''div'' [icon ''Mail''], elem ''p'' [Text_node (tr ''app.emptyList'')]]"

definition NoResults :: "string \<Rightarrow> node" where
  "NoResults q = elem ''div'' [icon ''SearchX'', elem ''p'' [Text_node (L_tr ''empty.noResults'' [(''query'', L_raw q)])]]"

definition ListArea :: "list_content \<Rightarrow> view_env \<Rightarrow> web_summary list \<Rightarrow> bool \<Rightarrow> string option \<Rightarrow> string list \<Rightarrow> string \<Rightarrow> node" where
  "ListArea content v msgs moreLeft selected unread srch = (case content of
     Messages_content \<Rightarrow> MessageList v msgs moreLeft selected unread
   | No_results \<Rightarrow> NoResults srch
   | Placeholder \<Rightarrow> SidebarPlaceholder)"

record sidebar_props =
  sp_count :: int
  sp_hidden :: bool
  sp_hiddenOnPhone :: bool

definition Sidebar :: "sidebar_props \<Rightarrow> node list \<Rightarrow> node list \<Rightarrow> node" where
  "Sidebar s footer cs =
     Elem ''aside'' ((''id'', L_fixed ''email-list'') # only_if (sp_hidden s) (''hidden-on-desktop'', L_fixed []) @
         only_if (sp_hiddenOnPhone s) (''hidden-on-phone'', L_fixed [])) []
       [elem ''div''
          (elem ''div''
             [elem ''span'' [icon ''Inbox'', Text_node (L_fixed '' ''), Text_node (tr ''app.inbox'')],
              elem ''span'' [Text_node (L_raw (show_int (sp_count s)))]] #
           cs @ footer)]"

definition statusLabel :: "connection_status \<Rightarrow> string" where
  "statusLabel s = (case s of Live \<Rightarrow> ''status.live'' | Connecting \<Rightarrow> ''status.connecting'' | Offline \<Rightarrow> ''status.offline'')"

definition SidebarFooter :: "bool \<Rightarrow> string \<Rightarrow> bool \<Rightarrow> connection_status \<Rightarrow> node" where
  "SidebarFooter copied smtpAddress smtpAuth status =
     elem ''div''
       ([elem ''span'' [Text_node (L_fixed ''SMTP'')],
         Elem ''code'' [(''title'', L_raw smtpAddress)] [] [Text_node (L_raw smtpAddress)],
         CopyButton copied smtpAddress (Some (tr ''smtp.copy'')) False] @
        only_if smtpAuth
          (Elem ''span'' [(''role'', L_fixed ''img''), (''aria-label'', tr ''smtp.loginRequired''), (''title'', tr ''smtp.loginRequiredTitle'')] []
             [icon ''Lock'']) @
        [elem ''span'' [],
         Elem ''span'' [(''role'', L_fixed ''status''), (''title'', tr ''status.title'')] []
           [elem ''span'' [], Text_node (tr (statusLabel status))]])"

section \<open>Empty states\<close>

text \<open>\<open>s.split(sep)\<close> for a separator that is not empty.\<close>

function split_str :: "string \<Rightarrow> string \<Rightarrow> string list" where
  "split_str sep s = (case s of
     [] \<Rightarrow> [[]]
   | c # cs \<Rightarrow>
       if sep \<noteq> [] \<and> startsWith s sep then [] # split_str sep (drop (length sep) s)
       else (case split_str sep cs of [] \<Rightarrow> [[c]] | p # ps \<Rightarrow> (c # p) # ps))"
  by pat_completeness auto
termination by (relation "measure (\<lambda>(sep, s). length s)") (auto simp: neq_Nil_conv)

declare split_str.simps [simp del]

definition part_of :: "string \<Rightarrow> nat \<Rightarrow> string \<Rightarrow> string" where
  "part_of sep n s = nullish (at_index (split_str sep s) (int n)) []"

definition login_hint :: "nat \<Rightarrow> label" where
  "login_hint n = L_fun (part_of ''{env}'' n) (tr ''empty.login'')"

definition EmptyInbox :: "bool \<Rightarrow> string \<Rightarrow> bool \<Rightarrow> node" where
  "EmptyInbox copied smtpAddress smtpAuth =
     elem ''div''
       [elem ''div''
          ([Elem ''div'' [(''aria-hidden'', L_fixed ''true'')] []
              [elem ''div'' [], elem ''div'' [icon ''Mail''], elem ''div'' [icon ''Inbox''], elem ''div'' [icon ''ArrowDown'']],
            elem ''h2'' [Text_node (tr ''empty.title'')],
            elem ''p'' [Text_node (tr ''empty.configure'')],
            elem ''div''
              [elem ''div'' [elem ''span'' [Text_node (L_fixed ''SMTP'')], CopyButton copied smtpAddress (Some (tr ''smtp.copy'')) True],
               elem ''div'' [elem ''code'' [Text_node (L_raw smtpAddress)]]]] @
           only_if smtpAuth
             (elem ''p'' [Text_node (login_hint 0), elem ''code'' [Text_node (L_fixed ''MAILPEEK_SMTP_AUTH'')], Text_node (login_hint 1)]) @
           [elem ''p'' [Text_node (tr ''empty.footer'')]])]"

definition ErrorBanner :: "label \<Rightarrow> node" where
  "ErrorBanner x = Elem ''div'' [(''role'', L_fixed ''alert'')] [] [Text_node x]"

text \<open>The handle's pointer handlers are in \<open>Ui_State\<close>; here are its keys and the double click.\<close>

definition ResizeHandle :: "int \<Rightarrow> node" where
  "ResizeHandle width =
     Elem ''div''
       [(''role'', L_fixed ''separator''), (''aria-label'', tr ''resize.label''), (''aria-orientation'', L_fixed ''vertical''),
        (''aria-valuemin'', L_raw (show_int sidebarMin)), (''aria-valuemax'', L_raw (show_int sidebarMax)),
        (''aria-valuenow'', L_raw (show_int width)), (''tabindex'', L_fixed ''0''), (''title'', tr ''resize.title'')]
       [(''keydown'', \<lambda>k. [Resize_key k]), (''dblclick'', \<lambda>_. [Reset_width])]
       [elem ''span'' []]"

end
