(* ===== verification/Mime_Highlight.thy ===== *)
theory Mime_Highlight
  imports JS_Regex
begin

text \<open>
  The raw-source view's highlighter (\<open>web/src/lib/mimeHighlight.ts\<close>): the message source is
  split into lines and every line into classified tokens with their offsets. The lemmas show
  that the tokens of a line, put together, are the line, that the offsets are those of the
  text, and that the only change to the source is that CRLF line ends become LF.
\<close>

section \<open>The highlighter\<close>

datatype token_kind = TName | TValue | TEncoded | TBoundary | TBase64 | TBody

record raw_token =
  t_kind :: token_kind
  t_text :: string

record token = raw_token +
  t_start :: nat

record line =
  ln_offset :: nat
  ln_tokens :: "token list"

definition HIGHLIGHT_LIMIT :: nat where
  "HIGHLIGHT_LIMIT = 256 * 1024"

definition header_char :: "char \<Rightarrow> bool" where
  "header_char c \<longleftrightarrow> (let n = (of_char c :: nat) in (33 \<le> n \<and> n \<le> 57) \<or> (59 \<le> n \<and> n \<le> 126))"

text \<open>The dot of a pattern: no line terminator.\<close>

definition dot_char :: "char \<Rightarrow> bool" where
  "dot_char c \<longleftrightarrow> c \<noteq> CHR 0x0A \<and> c \<noteq> CHR 0x0D"

definition headerLine :: regex where
  "headerLine = seqs [Bol, Grp 1 (plus (Cls header_char)), chr (CHR '':''), Grp 2 (star (Cls dot_char)), Eol]"

definition encodedWord :: regex where
  "encodedWord = seqs [lit ''=?'', plus (Cls (\<lambda>c. c \<noteq> CHR ''?'' \<and> \<not> is_space c)), lit ''?'', one_of ''BbQq'',
     lit ''?'', star (Cls (\<lambda>c. c \<noteq> CHR ''?'' \<and> \<not> is_space c)), lit ''?='']"

definition base64_char :: "char \<Rightarrow> bool" where
  "base64_char c \<longleftrightarrow> is_upper c \<or> is_lower c \<or> is_digit c \<or> c = CHR ''+'' \<or> c = CHR ''/''"

definition base64Line :: regex where
  "base64Line = seqs [Bol, Quant True 40 None (Cls base64_char), rep 0 2 (chr (CHR ''='')), Eol]"

definition boundaryParam :: regex where
  "boundaryParam = seqs [litI ''boundary'', star space_class, chr (CHR ''=''), star space_class,
     opt (chr (CHR 0x22)), Grp 1 (plus (Cls (\<lambda>c. c \<noteq> CHR 0x22 \<and> c \<noteq> CHR '';'' \<and> \<not> is_space c))),
     opt (chr (CHR 0x22))]"

definition new_line :: regex where
  "new_line = Seq (opt (chr (CHR 0x0D))) (chr (CHR 0x0A))"

definition closing_dashes :: regex where
  "closing_dashes = seqs [lit ''--'', star space_class, Eol]"

text \<open>\<open>s.split(re)\<close> for a pattern that does not match the empty string and has no groups.\<close>

definition split_re :: "regex \<Rightarrow> string \<Rightarrow> string list" where
  "split_re re s = map fst (fst (segments re [] s)) @ [snd (segments re [] s)]"

fun valueTokens_loop :: "string \<Rightarrow> nat \<Rightarrow> (nat \<times> rmatch_result) list \<Rightarrow> raw_token list" where
  "valueTokens_loop s from [] =
     (if from < length s then [\<lparr>t_kind = TValue, t_text = slice_from s (int from)\<rparr>] else [])"
| "valueTokens_loop s from ((pos, m) # ms) =
     (if from < pos then [\<lparr>t_kind = TValue, t_text = slice s (int from) (int pos)\<rparr>] else []) @
     \<lparr>t_kind = TEncoded, t_text = m_text m\<rparr> # valueTokens_loop s (pos + length (m_text m)) ms"

definition valueTokens :: "string \<Rightarrow> raw_token list" where
  "valueTokens s = valueTokens_loop s 0 (matchAll encodedWord s)"

definition boundaries_of :: "string \<Rightarrow> string list" where
  "boundaries_of raw = filter (\<lambda>b. b \<noteq> []) (List.map_filter (\<lambda>(_, m). m_group m 1) (matchAll boundaryParam raw))"

text \<open>One iteration of the loop: the tokens pushed and \<open>inHeaders\<close> after it.\<close>

definition boundary_name :: "string \<Rightarrow> string" where
  "boundary_name l = trim (replace_first closing_dashes [] (slice_from l 2))"

definition tokenize_line :: "string list \<Rightarrow> bool \<Rightarrow> string \<Rightarrow> raw_token list \<times> bool" where
  "tokenize_line boundaries inHeaders l =
     (if startsWith l ''--'' \<and> boundary_name l \<in> set boundaries
      then ([\<lparr>t_kind = TBoundary, t_text = l\<rparr>], \<not> endsWith (trimEnd l) ''--'')
      else
        let body = [\<lparr>t_kind = (if test base64Line l then TBase64 else TBody), t_text = l\<rparr>] in
        if inHeaders then
          if l = [] then ([], False)
          else (case match_first headerLine l of
            Some m \<Rightarrow> (\<lparr>t_kind = TName, t_text = nullish (m_group m 1) [] @ '':''\<rparr> #
                       valueTokens (nullish (m_group m 2) []), inHeaders)
          | None \<Rightarrow>
              if test (seqs [Bol, one_of [CHR '' '', CHR 0x09]]) l then (valueTokens l, inHeaders)
              else (body, inHeaders))
        else (body, inHeaders))"

fun tokenize_loop :: "string list \<Rightarrow> bool \<Rightarrow> string list \<Rightarrow> raw_token list list" where
  "tokenize_loop boundaries inHeaders [] = []"
| "tokenize_loop boundaries inHeaders (l # ls) =
     fst (tokenize_line boundaries inHeaders l) #
     tokenize_loop boundaries (snd (tokenize_line boundaries inHeaders l)) ls"

definition tokenize :: "string \<Rightarrow> raw_token list list" where
  "tokenize raw = tokenize_loop (boundaries_of raw) True (split_re new_line raw)"

fun with_starts :: "nat \<Rightarrow> raw_token list \<Rightarrow> token list" where
  "with_starts start [] = []"
| "with_starts start (t # ts) =
     \<lparr>t_kind = t_kind t, t_text = t_text t, t_start = start\<rparr> # with_starts (start + length (t_text t)) ts"

definition texts_length :: "raw_token list \<Rightarrow> nat" where
  "texts_length ts = sum_list (map (\<lambda>t. length (t_text t)) ts)"

fun highlight_loop :: "nat \<Rightarrow> raw_token list list \<Rightarrow> line list" where
  "highlight_loop offset [] = []"
| "highlight_loop offset (raws # rs) =
     \<lparr>ln_offset = offset, ln_tokens = with_starts 0 raws\<rparr> # highlight_loop (offset + texts_length raws + 1) rs"

definition highlightMime :: "string \<Rightarrow> line list" where
  "highlightMime raw = highlight_loop 0 (tokenize raw)"

section \<open>Lines and tokens are lossless\<close>

text \<open>Replacing every match by \<open>t\<close> is splitting at the matches and joining with \<open>t\<close>.\<close>

lemma replace_all_split: "replace_all re (\<lambda>_. t) s = join t (split_re re s)"
proof -
  have "concat (map (\<lambda>(g, m). g @ t) ms) @ z = join t (map fst ms @ [z])"
    for ms :: "(string \<times> rmatch_result) list" and z
    by (induction ms) (auto simp: join_Cons)
  then show ?thesis by (simp add: replace_all_def split_re_def Let_def)
qed

definition raw_text :: "raw_token list \<Rightarrow> string" where
  "raw_text ts = concat (map t_text ts)"

lemma raw_text_simps [simp]:
  "raw_text [] = []" "raw_text (t # ts) = t_text t @ raw_text ts" "raw_text (ts @ us) = raw_text ts @ raw_text us"
  by (simp_all add: raw_text_def)

lemma texts_length_raw: "texts_length ts = length (raw_text ts)"
  by (induction ts) (auto simp: texts_length_def)

lemma valueTokens_loop_text:
  "raw_text (valueTokens_loop (pre @ unsegment (ms, z)) (length pre) (index_from (length pre) ms)) = unsegment (ms, z)"
proof (induction ms arbitrary: pre)
  case Nil
  then show ?case by (auto simp: unsegment_def slice_from_def rel_index_def)
next
  case (Cons p ms)
  obtain g m where p: "p = (g, m)" by (cases p)
  let ?pre = "pre @ g @ m_text m"
  have u: "unsegment ((g, m) # ms, z) = g @ m_text m @ unsegment (ms, z)" by (simp add: unsegment_def)
  from Cons [of ?pre] show ?case
    by (auto simp: p u slice_def rel_index_def Let_def add.assoc nat_add_distrib)
qed

lemma valueTokens_text: "raw_text (valueTokens s) = s"
  using valueTokens_loop_text [of "[]" "fst (segments encodedWord [] s)" "snd (segments encodedWord [] s)"]
  by (simp add: valueTokens_def matchAll_def segments_lossless)


lemma headerLine_text:
  assumes "match_first headerLine l = Some m"
  shows "\<exists>a b. m_group m 1 = Some a \<and> m_group m 2 = Some b \<and> l = a @ '':'' @ b"
proof -
  from assms obtain skip b' r' where s: "search headerLine [] l = Some (skip, m, b', r')"
    by (auto simp: match_first_def)
  let ?st = "MS (rev skip) (drop (length skip) l) []"
  from search_at [OF s] obtain st where st: "st \<in> set (rmatch headerLine ?st)"
    and l: "l = skip @ drop (length skip) l" and m: "m_caps m = mcaps st" by auto
  from st obtain s0 s1 st2 s3 where 0: "s0 \<in> set (rmatch Bol ?st)"
    and s1: "s1 \<in> set (rmatch (Grp 1 (plus (Cls header_char))) s0)"
    and s2: "st2 \<in> set (rmatch (Cls (\<lambda>x. x = CHR '':'')) s1)"
    and s3: "s3 \<in> set (rmatch (Grp 2 (star (Cls dot_char))) st2)" and 4: "st \<in> set (rmatch Eol s3)"
    unfolding headerLine_def chr_def seqs.simps rmatch_Seq_in by blast
  from 0 have s0: "s0 = ?st" and skip: "skip = []" unfolding rmatch_anchor_in by auto
  from s1 obtain st1 where 1: "st1 \<in> set (rmatch (plus (Cls header_char)) ?st)"
    and e1: "s1 = MS (mbefore st1) (mrest st1) ((1, between ?st st1) # mcaps st1)"
    unfolding rmatch_Grp_in s0 by blast
  from s2 obtain r where r: "mrest st1 = CHR '':'' # r"
    and 2: "st2 = MS (CHR '':'' # mbefore st1) r ((1, between ?st st1) # mcaps st1)"
    unfolding rmatch_Cls_in e1 by auto
  from s3 obtain st3 where 3: "st3 \<in> set (rmatch (star (Cls dot_char)) st2)"
    and e3: "s3 = MS (mbefore st3) (mrest st3) ((2, between st2 st3) # mcaps st3)"
    unfolding rmatch_Grp_in by blast
  from 4 e3 have e: "mrest st3 = []" and c: "mcaps st = (2, between st2 st3) # mcaps st3"
    unfolding rmatch_anchor_in by auto
  have "mcaps st = [(2, between st2 st3), (1, between ?st st1)]"
    using c 2 rmatch_run_caps [OF 1] rmatch_run_caps [OF 3] by simp
  moreover have "l = between ?st st1 @ '':'' @ between st2 st3"
    using extends_between [OF rmatch_extends [OF 1]] extends_between [OF rmatch_extends [OF 3]] skip r e 2 by simp
  ultimately show ?thesis by (simp add: m_group_def m)
qed

lemma tokenize_line_text: "raw_text (fst (tokenize_line bs h l)) = l"
  using headerLine_text [of l]
  by (auto simp: tokenize_line_def Let_def valueTokens_text split: option.splits)

lemma tokenize_loop_text: "map raw_text (tokenize_loop bs h ls) = ls"
  by (induction bs h ls rule: tokenize_loop.induct) (simp_all add: tokenize_line_text)

lemma tokenize_text: "map raw_text (tokenize raw) = split_re new_line raw"
  by (simp add: tokenize_def tokenize_loop_text)

section \<open>Offsets\<close>

definition line_text :: "line \<Rightarrow> string" where
  "line_text ln = concat (map t_text (ln_tokens ln))"

lemma with_starts_text: "concat (map t_text (with_starts n ts)) = raw_text ts"
  by (induction n ts rule: with_starts.induct) auto

lemma highlight_loop_text: "map line_text (highlight_loop n rs) = map raw_text rs"
  by (induction n rs rule: highlight_loop.induct) (auto simp: line_text_def with_starts_text)

lemma with_starts_at:
  "t \<in> set (with_starts (length pre) ts) \<Longrightarrow>
     take (length (t_text t)) (drop (t_start t) (pre @ raw_text ts)) = t_text t"
proof (induction ts arbitrary: pre)
  case (Cons u ts)
  show ?case
  proof (cases "t \<in> set (with_starts (length (pre @ t_text u)) ts)")
    case True
    from Cons.IH [OF True] show ?thesis by simp
  next
    case False
    with Cons.prems have "t = \<lparr>t_kind = t_kind u, t_text = t_text u, t_start = length pre\<rparr>" by simp
    then show ?thesis by simp
  qed
qed simp

lemma highlight_loop_at:
  "ln \<in> set (highlight_loop (length pre) rs) \<Longrightarrow> rs \<noteq> [] \<Longrightarrow>
     take (length (line_text ln)) (drop (ln_offset ln) (pre @ join ''\<newline>'' (map raw_text rs))) = line_text ln"
proof (induction rs arbitrary: pre)
  case (Cons r rs)
  let ?ln = "\<lparr>ln_offset = length pre, ln_tokens = with_starts 0 r\<rparr>"
  let ?pre = "pre @ raw_text r @ ''\<newline>''"
  have t: "line_text ?ln = raw_text r" by (simp add: line_text_def with_starts_text)
  have j: "\<exists>z. join ''\<newline>'' (map raw_text (r # rs)) = raw_text r @ z" by (cases rs) auto
  from Cons.prems(1) consider "ln = ?ln" | "ln \<in> set (highlight_loop (length ?pre) rs)"
    by (auto simp: texts_length_raw add.assoc)
  then show ?case
  proof cases
    case 1
    with t j show ?thesis by auto
  next
    case 2
    then have ne: "rs \<noteq> []" by auto
    from Cons.IH [OF 2 ne] ne show ?thesis by (simp add: join_Cons)
  qed
qed simp

section \<open>The properties\<close>

text \<open>
  Highlighting loses and changes nothing but line ends: the lines' tokens put together
  and joined by newlines are the source with every CRLF turned into LF.
\<close>

theorem highlightMime_lossless:
  "join ''\<newline>'' (map line_text (highlightMime raw)) = replace_all new_line (\<lambda>_. ''\<newline>'') raw"
  by (simp add: highlightMime_def highlight_loop_text tokenize_text replace_all_split)

text \<open>
  Each line's \<open>offset\<close> and each token's \<open>start\<close> are positions: the line is found in the
  LF-normalised source at its offset, and the token in its line at its start.
\<close>

theorem highlightMime_positions:
  assumes "ln \<in> set (highlightMime raw)" and "t \<in> set (ln_tokens ln)"
  shows "take (length (line_text ln)) (drop (ln_offset ln) (replace_all new_line (\<lambda>_. ''\<newline>'') raw)) = line_text ln
    \<and> take (length (t_text t)) (drop (t_start t) (line_text ln)) = t_text t"
proof
  have ne: "tokenize raw \<noteq> []" using tokenize_text [of raw] by (auto simp: split_re_def)
  show "take (length (line_text ln)) (drop (ln_offset ln) (replace_all new_line (\<lambda>_. ''\<newline>'') raw)) = line_text ln"
    using highlight_loop_at [of ln "[]" "tokenize raw"] assms(1) ne
    by (simp add: highlightMime_def tokenize_text replace_all_split)
  have "\<exists>ts. ln_tokens ln = with_starts 0 ts \<and> line_text ln = raw_text ts" if "ln \<in> set (highlight_loop n rs)" for n rs
    using that by (induction n rs rule: highlight_loop.induct) (auto simp: line_text_def with_starts_text)
  with assms(1) obtain ts where "ln_tokens ln = with_starts 0 ts" "line_text ln = raw_text ts"
    unfolding highlightMime_def by blast
  with assms(2) with_starts_at [of t "[]" ts] show "take (length (t_text t)) (drop (t_start t) (line_text ln)) = t_text t"
    by simp
qed


lemma sample_highlight:
  "highlightMime ''x'' = [\<lparr>ln_offset = 0, ln_tokens = [\<lparr>t_kind = TBody, t_text = ''x'', t_start = 0\<rparr>]\<rparr>]"
proof -
  have "search new_line [] ''x'' = None" "search boundaryParam [] ''x'' = None"
    "match_first headerLine ''x'' = None" "match_first base64Line ''x'' = None"
    "match_first (seqs [Bol, one_of [CHR '' '', CHR 0x09]]) ''x'' = None"
    by (simp_all add: new_line_def boundaryParam_def headerLine_def base64Line_def header_char_def
        match_first_def rx_eval js_eval)
  then show ?thesis
    by (simp add: highlightMime_def tokenize_def split_re_def boundaries_of_def matchAll_def segments_None
        tokenize_line_def test_def)
qed

theorem highlightMime_positions_witness:
  "take (length ''x'') (drop 0 (replace_all new_line (\<lambda>_. ''\<newline>'') ''x'')) = ''x''
   \<and> take (length ''x'') (drop 0 ''x'') = ''x''"
  using highlightMime_positions [of "\<lparr>ln_offset = 0, ln_tokens = [\<lparr>t_kind = TBody, t_text = ''x'', t_start = 0\<rparr>]\<rparr>"
      "''x''" "\<lparr>t_kind = TBody, t_text = ''x'', t_start = 0\<rparr>"]
  by (simp add: sample_highlight line_text_def)

end
