(* ===== verification/Message_View.thy ===== *)
theory Message_View
  imports View Mime_Highlight
begin

text \<open>
  The components of a message (\<open>web/src/components/MessageView.tsx\<close>, \<open>message\<close>, \<open>panels\<close>, \<open>hooks/usePreview.ts\<close>),
  as functions to trees like those of \<open>View\<close>: the header with its details, the tabs, and a
  panel for each: the HTML preview in its frame, the text, the headers, the highlighted source, the
  attachments and the links.
\<close>

section \<open>The HTML preview\<close>

datatype fullscreen_state = Closed | Opened | Closing

record preview =
  pv_width :: preview_width
  pv_fullscreen :: fullscreen_state

definition usePreview :: preview where
  "usePreview = \<lparr>pv_width = Desktop, pv_fullscreen = Closed\<rparr>"

definition widthOptions :: "(preview_width \<times> string \<times> string) list" where
  "widthOptions = [(Desktop, ''width.desktop'', ''Monitor''), (Tablet, ''width.tablet'', ''Tablet''),
     (Mobile, ''width.mobile'', ''Smartphone'')]"

definition WidthToggle :: "preview_width \<Rightarrow> node list" where
  "WidthToggle width = map (\<lambda>(val, lbl, ic).
     Elem ''button'' [(''type'', L_fixed ''button''), (''title'', tr lbl), (''aria-label'', tr lbl),
         (''aria-pressed'', bool_label (width = val))]
       [on_click (Preview_width val)] [icon ic]) widthOptions"

text \<open>The width of the frame is a class of the frame, given here as an attribute.\<close>

definition frameWidth :: "preview_width \<Rightarrow> string" where
  "frameWidth w = (case w of Desktop \<Rightarrow> ''full'' | Tablet \<Rightarrow> ''768px'' | Mobile \<Rightarrow> ''375px'')"

definition PreviewFrame :: "string \<Rightarrow> preview_width \<Rightarrow> node" where
  "PreviewFrame srcDoc width =
     Elem ''iframe'' [(''title'', tr ''html.frame''), (''sandbox'', L_fixed ''allow-popups allow-popups-to-escape-sandbox''),
       (''referrerpolicy'', L_fixed ''no-referrer''), (''srcdoc'', L_raw srcDoc), (''width'', L_fixed (frameWidth width))] [] []"

definition FullscreenPreview :: "string \<Rightarrow> string \<Rightarrow> preview_width \<Rightarrow> node" where
  "FullscreenPreview subject srcDoc width =
     Elem ''dialog'' [(''aria-label'', tr ''html.fullscreen'')] [(''cancel'', \<lambda>_. [Close_fullscreen])]
       [elem ''div''
          (elem ''span'' [Text_node (or_tr subject ''list.noSubject'')] # WidthToggle width @
           [elem ''span'' [],
            Elem ''button'' [(''type'', L_fixed ''button''), (''title'', tr ''html.closeTitle''), (''aria-label'', tr ''html.close'')]
              [on_click Close_fullscreen] [icon ''X'']]),
        elem ''div'' [PreviewFrame srcDoc width]]"

definition Empty :: "label \<Rightarrow> node" where
  "Empty x = elem ''div'' [Text_node x]"

definition HtmlPanel :: "string \<Rightarrow> preview \<Rightarrow> web_message \<Rightarrow> node" where
  "HtmlPanel origin p m =
     (if wm_html m = [] then Empty (tr ''html.none'')
      else (let srcDoc = prepareHtml m origin in
        elem ''div''
          ([elem ''div''
              (elem ''span'' [Text_node (tr ''html.preview'')] # WidthToggle (pv_width p) @
               [elem ''span'' [],
                Elem ''button'' [(''type'', L_fixed ''button''), (''title'', tr ''html.fullscreenTitle''), (''aria-label'', tr ''html.fullscreen'')]
                  [on_click Open_fullscreen] [icon ''Maximize2'']]),
            elem ''div'' (only_if (pv_fullscreen p \<noteq> Opened) (PreviewFrame srcDoc (pv_width p)))] @
           only_if (pv_fullscreen p \<noteq> Closed) (FullscreenPreview (wm_subject m) srcDoc (pv_width p)))))"

text \<open>What the preview's buttons do; \<open>closed\<close> is called when the closing animation ends.\<close>

definition preview_act :: "action \<Rightarrow> preview \<Rightarrow> preview" where
  "preview_act a p = (case a of
     Preview_width w \<Rightarrow> p\<lparr>pv_width := w\<rparr>
   | Open_fullscreen \<Rightarrow> p\<lparr>pv_fullscreen := Opened\<rparr>
   | Close_fullscreen \<Rightarrow> p\<lparr>pv_fullscreen := Closing\<rparr>
   | _ \<Rightarrow> p)"

definition preview_closed :: "preview \<Rightarrow> preview" where
  "preview_closed p = p\<lparr>pv_fullscreen := Closed\<rparr>"

section \<open>Text, headers and source\<close>

definition TextPanel :: "web_message \<Rightarrow> node" where
  "TextPanel m = (if wm_text m = [] then Empty (tr ''text.none'') else elem ''pre'' [Text_node (L_raw (wm_text m))])"

text \<open>\<open>collate\<close> is \<open>Array.prototype.sort\<close> by \<open>localeCompare\<close> of the names, which depends on the browser's locale data.\<close>

type_synonym header_sort = "(string \<times> string list) list \<Rightarrow> (string \<times> string list) list"

definition header_rows :: "header_sort \<Rightarrow> web_message \<Rightarrow> (string \<times> string) list" where
  "header_rows collate m = concat (map (\<lambda>(name, vals). map (Pair name) vals) (collate (wm_headers m)))"

definition HeadersPanel :: "header_sort \<Rightarrow> web_message \<Rightarrow> node" where
  "HeadersPanel collate m = elem ''table'' [elem ''tbody'' (map (\<lambda>(name, val).
     elem ''tr'' [Elem ''th'' [(''scope'', L_fixed ''row'')] [] [Text_node (L_raw name)], elem ''td'' [Text_node (L_raw val)]])
     (header_rows collate m))]"

text \<open>\<open>raw.lastIndexOf("\n", n)\<close>: the last position up to \<open>n\<close>, or -1.\<close>

definition lastIndexOf :: "char \<Rightarrow> string \<Rightarrow> nat \<Rightarrow> int" where
  "lastIndexOf c s n = (case find (\<lambda>i. s ! i = c) (rev [0..<min (Suc n) (length s)]) of None \<Rightarrow> -1 | Some i \<Rightarrow> int i)"

definition highlight_cut :: "string \<Rightarrow> nat" where
  "highlight_cut src = (if HIGHLIGHT_LIMIT < length src then nat (lastIndexOf (CHR 0x0A) src HIGHLIGHT_LIMIT + 1) else length src)"

definition token_node :: "token \<Rightarrow> node" where
  "token_node t = Elem ''span'' [(''data-token'', L_fixed (case t_kind t of TName \<Rightarrow> ''name'' | TValue \<Rightarrow> ''value''
     | TEncoded \<Rightarrow> ''encoded'' | TBoundary \<Rightarrow> ''boundary'' | TBase64 \<Rightarrow> ''base64'' | TBody \<Rightarrow> ''body''))] [] [Text_node (L_raw (t_text t))]"

definition HighlightedMime :: "string \<Rightarrow> node" where
  "HighlightedMime src =
     (let cut_at = highlight_cut src; head = highlightMime (take cut_at src); rest = drop cut_at src in
      elem ''pre''
        (map (\<lambda>ln. elem ''span'' (map token_node (ln_tokens ln) @ [Text_node (L_fixed [CHR 0x0A])])) head @
         only_if (rest \<noteq> []) (elem ''span'' [Text_node (L_raw rest)])))"

definition problem_label :: "problem \<Rightarrow> label" where
  "problem_label e = L_tr (pb_key e) (map (\<lambda>(k, v). (k, L_raw v)) (pb_vars e))"

definition RawPanel :: "bool \<Rightarrow> raw_state option \<Rightarrow> web_message \<Rightarrow> node" where
  "RawPanel copied st m = (case useRawSource (wm_id m) st of
     (_, Some e, _) \<Rightarrow> Empty (L_tr ''raw.error'' [(''error'', problem_label e)])
   | (None, None, _) \<Rightarrow> Empty (tr ''raw.loading'')
   | (Some src, None, _) \<Rightarrow>
       elem ''div''
         [elem ''div''
            [CopyButton copied src None True,
             Elem ''a'' [(''href'', L_raw (rawUrl (wm_id m) True))] [] [icon ''Download'', Text_node (L_fixed '' .eml'')]],
          HighlightedMime src])"

section \<open>Attachments and links\<close>

definition archive_re :: regex where
  "archive_re = Alt (lit ''zip'') (Alt (lit ''tar'') (Alt (lit ''gzip'') (lit ''compressed'')))"

definition AttachmentIcon :: "attachment \<Rightarrow> node" where
  "AttachmentIcon a =
     (let ct = at_contentType a in
      if startsWith ct ''image/'' then icon ''FileImage''
      else if startsWith ct ''text/'' \<or> ct = ''application/pdf'' then icon ''FileText''
      else if match_first archive_re ct \<noteq> None then icon ''FileArchive''
      else icon ''File'')"

definition new_tab :: "string \<Rightarrow> (string \<times> label) list" where
  "new_tab href = [(''href'', L_raw href), (''target'', L_fixed ''_blank''), (''rel'', L_fixed ''noopener noreferrer'')]"

definition attachment_item :: "view_env \<Rightarrow> string \<Rightarrow> attachment \<Rightarrow> node" where
  "attachment_item v mid a =
     elem ''li''
       ([if canPreview a
         then Elem ''a'' (new_tab (attachmentPreviewUrl mid (at_id a))) []
           [Elem ''img'' [(''src'', L_raw (attachmentPreviewUrl mid (at_id a))),
              (''alt'', L_tr ''attachments.preview'' [(''name'', L_raw (at_filename a))]), (''loading'', L_fixed ''lazy'')] [] []]
         else elem ''div'' [AttachmentIcon a],
         elem ''div''
           [Elem ''div'' [(''title'', L_raw (at_filename a))] [] [Text_node (L_raw (at_filename a))],
            elem ''div''
              ([elem ''span'' [Text_node (L_fun (fileTypeLabel (at_filename a) (at_contentType a)) (tr ''attachment.file''))],
                elem ''span'' [Text_node (L_raw (formatBytes (ve_intl v) (at_size a) (env_tag v)))]] @
               only_if (at_inline a) (elem ''span'' [Text_node (tr ''attachments.inline'')]))]] @
        only_if (canPreview a) (Elem ''a'' (new_tab (attachmentPreviewUrl mid (at_id a))) []
          [icon ''ExternalLink'', Text_node (L_fixed '' ''), Text_node (tr ''attachments.open'')]) @
        [Elem ''a'' [(''href'', L_raw (attachmentUrl mid (at_id a))), (''download'', L_raw (at_filename a))] []
          [icon ''Download'', Text_node (L_fixed '' ''), Text_node (tr ''attachments.download'')]])"

definition AttachmentsPanel :: "view_env \<Rightarrow> web_message \<Rightarrow> node" where
  "AttachmentsPanel v m =
     (if wm_attachments m = [] then Empty (tr ''attachments.none'')
      else elem ''ul'' (map (attachment_item v (wm_id m)) (wm_attachments m)))"

definition link_item :: "(string \<Rightarrow> bool) \<Rightarrow> link \<Rightarrow> node" where
  "link_item copied l =
     elem ''li''
       [elem ''div''
          [elem ''div'' [Text_node (or_tr (l_text l) ''links.noText'')],
           Elem ''div'' [(''title'', L_raw (l_href l))] [] [Text_node (L_raw (l_href l))]],
        CopyButton (copied (l_href l)) (l_href l) (Some (tr ''links.copy'')) True,
        Elem ''a'' (new_tab (l_href l) @ [(''title'', tr ''links.openTitle''),
            (''aria-label'', L_tr ''links.open'' [(''target'', L_raw (or_str (l_text l) (l_href l)))])]) []
          [icon ''ExternalLink'']]"

definition LinksPanel :: "(string \<Rightarrow> bool) \<Rightarrow> web_message \<Rightarrow> node" where
  "LinksPanel copied m =
     (if wm_links m = [] then Empty (tr ''links.none'') else elem ''ul'' (map (link_item copied) (wm_links m)))"

section \<open>The message\<close>

definition MetaRow :: "string \<Rightarrow> node list \<Rightarrow> node list" where
  "MetaRow k cs = [elem ''dt'' [Text_node (tr k)], elem ''dd'' cs]"

definition middle_dot :: label where
  "middle_dot = L_fixed ('' '' @ u00B7 @ '' '')"

definition MessageDetails :: "view_env \<Rightarrow> web_message \<Rightarrow> bool \<Rightarrow> node" where
  "MessageDetails v m collapsed =
     Elem ''div'' ((''id'', L_fixed ''email-details'') # only_if collapsed (''hidden'', L_fixed [])) []
       [elem ''div'' [elem ''dl''
          (MetaRow ''view.from'' [Text_node (L_raw (addressList [wm_from m]))] @
           MetaRow ''view.to'' [Text_node (or_tr (addressList (wm_to m)) ''list.none'')] @
           (if wm_cc m \<noteq> [] then MetaRow ''view.cc'' [Text_node (L_raw (addressList (wm_cc m)))] else []) @
           (if wm_replyTo m \<noteq> [] then MetaRow ''view.replyTo'' [Text_node (L_raw (addressList (wm_replyTo m)))] else []) @
           MetaRow ''view.received'' [elem ''span''
             [Text_node (L_raw (formatDateTime (ve_intl v) (wm_createdAt m) (env_tag v))), Text_node middle_dot,
              Text_node (L_raw (formatBytes (ve_intl v) (wm_size m) (env_tag v)))]])]]"

definition MessageHeader :: "view_env \<Rightarrow> web_message \<Rightarrow> bool \<Rightarrow> node" where
  "MessageHeader v m collapsed =
     elem ''div''
       [elem ''div''
          ([IconButton (tr ''view.back'') [] Go_back [icon ''ArrowLeft''],
            Elem ''h1'' (only_if collapsed (''title'', L_raw (wm_subject m))) [] [Text_node (or_tr (wm_subject m) ''list.noSubject'')]] @
           only_if collapsed (elem ''span''
             [Text_node (from_label (wm_from m)), Text_node middle_dot,
              Text_node (L_raw (formatListTime (ve_intl v) (wm_createdAt m) (env_tag v) (ve_now v)))]) @
           [IconButton (tr ''view.details'')
              [(''title'', tr (if collapsed then ''view.showDetails'' else ''view.hideDetails'')),
               (''aria-expanded'', bool_label (\<not> collapsed)), (''aria-controls'', L_fixed ''email-details'')]
              Toggle_details [icon ''ChevronUp''],
            Elem ''a'' [(''href'', L_raw (rawUrl (wm_id m) True)), (''title'', tr ''view.download''), (''aria-label'', tr ''view.download'')] []
              [icon ''Download''],
            IconButton (tr ''view.delete'') [] Delete_shown [icon ''Trash2'']]),
        MessageDetails v m collapsed]"

definition MessageTabs :: "tab_info list \<Rightarrow> tab \<Rightarrow> node" where
  "MessageTabs tabs active =
     Elem ''div'' [(''role'', L_fixed ''tablist''), (''aria-label'', tr ''view.tabs'')] []
       (map (\<lambda>t. Elem ''button''
          [(''type'', L_fixed ''button''), (''role'', L_fixed ''tab''), (''aria-selected'', bool_label (active = tb_id t))]
          [on_click (Show_tab (tb_id t))]
          (Text_node (tr (tb_label t)) #
           (case tb_count t of
              Some n \<Rightarrow> only_if (0 < n) (elem ''span'' [Text_node (L_raw (show_nat n))])
            | None \<Rightarrow> []))) tabs)"

text \<open>The local state of the panels, of which one is shown at a time.\<close>

record panel_state =
  ps_origin :: string
  ps_preview :: preview
  ps_sort :: header_sort
  ps_raw :: "raw_state option"
  ps_copied :: "string \<Rightarrow> bool"

definition panels :: "view_env \<Rightarrow> panel_state \<Rightarrow> tab \<Rightarrow> web_message \<Rightarrow> node" where
  "panels v s t m = (case t of
     Html \<Rightarrow> HtmlPanel (ps_origin s) (ps_preview s) m
   | Text \<Rightarrow> TextPanel m
   | Headers \<Rightarrow> HeadersPanel (ps_sort s) m
   | Raw_tab \<Rightarrow> RawPanel (ps_copied s []) (ps_raw s) m
   | Attachments \<Rightarrow> AttachmentsPanel v m
   | Links \<Rightarrow> LinksPanel (ps_copied s) m)"

definition MessageView :: "view_env \<Rightarrow> panel_state \<Rightarrow> web_message \<Rightarrow> tab \<Rightarrow> bool \<Rightarrow> node" where
  "MessageView v s m t collapsed =
     (let active = effectiveTab t m in
      Elem ''article'' [(''aria-label'', tr ''view.email'')] []
        [MessageHeader v m collapsed,
         MessageTabs (messageTabs m) active,
         Elem ''div'' [(''role'', L_fixed ''tabpanel'')] [] [panels v s active m]])"

end
