(* ===== verification/Page_View.thy ===== *)
theory Page_View
  imports Message_View
begin

text \<open>
  The page (\<open>web/src/pages/InboxPage.tsx\<close>, \<open>components/MessagePane.tsx\<close>, \<open>context\<close>, \<open>main.tsx\<close>), put together from
  the components and the states of the hooks, and the check that keeps its texts translatable
  (\<open>scripts/check-ui-i18n.mjs\<close>). The properties hold for the whole tree: every text has a translation
  in every language, mail cannot run scripts or reach the page, and the list shows what the hooks hold.
\<close>

section \<open>The page\<close>

definition MessagePane :: "bool \<Rightarrow> pane_content \<Rightarrow> node list \<Rightarrow> node list \<Rightarrow> node list \<Rightarrow> node" where
  "MessagePane hiddenOnPhone content emptyInbox message error =
     Elem ''main'' (only_if hiddenOnPhone (''hidden-on-phone'', L_fixed [])) []
       (case content of Empty_inbox \<Rightarrow> emptyInbox | Message_content \<Rightarrow> message | Error_content \<Rightarrow> error | Nothing_content \<Rightarrow> [])"

text \<open>The state behind a page: that of the hooks and the local states of the components.\<close>

record page_view =
  vw_inbox :: inbox_page
  vw_query :: string
  vw_server :: server_view
  vw_status :: connection_status
  vw_layout :: layout
  vw_width :: int
  vw_header :: header_state
  vw_i18n :: i18n_provider
  vw_intl :: intl
  vw_now :: int
  vw_panel :: panel_state

definition page_env :: "page_view \<Rightarrow> view_env" where
  "page_env w = \<lparr>ve_locale = current_locale (vw_i18n w), ve_intl = vw_intl w, ve_now = vw_now w\<rparr>"

definition page_list :: "page_view \<Rightarrow> list_state" where
  "page_list w = hk_current (ip_list (vw_inbox w))"

definition page_header :: "page_view \<Rightarrow> node" where
  "page_header w = Header
     \<lparr>hp_query = vw_query w, hp_canClear = (page_messages (vw_inbox w) \<noteq> []), hp_soundEnabled = ip_sound (vw_inbox w),
      hp_listHidden = ly_listHidden (vw_layout w), hp_signOut = sv_uiAuth (vw_server w)\<rparr>
     (vw_header w) (vw_i18n w)"

definition page_sidebar :: "page_view \<Rightarrow> node" where
  "page_sidebar w =
     (let p = vw_inbox w; ly = vw_layout w; smtp = sv_smtpAddress (vw_server w) in
      Sidebar
        \<lparr>sp_count = ls_total (page_list w), sp_hidden = ly_listHidden ly, sp_hiddenOnPhone = listHiddenOnPhone ly p\<rparr>
        (only_if (page_messages p \<noteq> [])
           (SidebarFooter (ps_copied (vw_panel w) smtp) smtp (sv_smtpAuth (vw_server w)) (vw_status w)))
        [ListArea (page_list_content p) (page_env w) (page_messages p) (hasMore (ip_list p)) (page_selected p)
           (page_unread p) (ip_search p)])"

definition page_pane :: "page_view \<Rightarrow> node" where
  "page_pane w =
     (let p = vw_inbox w; ly = vw_layout w; smtp = sv_smtpAddress (vw_server w); (m, e, _) = useMessage (ip_message p) in
      MessagePane (paneHiddenOnPhone ly p) (page_pane_content p)
        [EmptyInbox (ps_copied (vw_panel w) smtp) smtp (sv_smtpAuth (vw_server w))]
        (case m of None \<Rightarrow> [] | Some m \<Rightarrow> [MessageView (page_env w) (vw_panel w) m (ly_tab ly) (ly_detailsCollapsed ly)])
        [elem ''div'' (case e of None \<Rightarrow> [] | Some e \<Rightarrow> [Text_node (L_tr ''app.messageError'' [(''error'', problem_label e)])])])"

definition InboxPage :: "page_view \<Rightarrow> node" where
  "InboxPage w =
     elem ''div''
       (page_header w #
        (case ls_error (page_list w) of
           None \<Rightarrow> []
         | Some e \<Rightarrow> [ErrorBanner (L_tr ''app.loadError'' [(''error'', problem_label e)])]) @
        [elem ''div''
           (page_sidebar w # only_if (showResizeHandle (vw_layout w) (vw_inbox w)) (ResizeHandle (vw_width w)) @
            [page_pane w])])"

section \<open>Starting\<close>

text \<open>A context read outside its provider throws.\<close>

definition useInbox :: "'a option \<Rightarrow> string + 'a" where
  "useInbox c = (case c of None \<Rightarrow> Inl ''useInbox must be used inside <InboxProvider>'' | Some x \<Rightarrow> Inr x)"

definition useLayout :: "'a option \<Rightarrow> string + 'a" where
  "useLayout c = (case c of None \<Rightarrow> Inl ''useLayout must be used inside <LayoutProvider>'' | Some x \<Rightarrow> Inr x)"

text \<open>The providers nest, so the page finds both contexts.\<close>

definition InboxProvider :: "('inbox option \<Rightarrow> 'n) \<Rightarrow> 'inbox \<Rightarrow> 'n" where
  "InboxProvider children inbox = children (Some inbox)"

definition LayoutProvider :: "('inbox \<Rightarrow> 'layout) \<Rightarrow> ('inbox option \<Rightarrow> 'layout option \<Rightarrow> 'n) \<Rightarrow> 'inbox option \<Rightarrow> string + 'n" where
  "LayoutProvider useLayoutState children inbox =
     (case useInbox inbox of Inl e \<Rightarrow> Inl e | Inr i \<Rightarrow> Inr (children inbox (Some (useLayoutState i))))"

text \<open>\<open>main.tsx\<close>: the theme is applied before anything is drawn; whether the class \<open>dark\<close> is set.\<close>

definition main_theme :: "storage \<Rightarrow> bool \<Rightarrow> bool" where
  "main_theme s prefersDark = applyTheme (nullish (savedTheme s) (systemTheme prefersDark))"

section \<open>The check of the texts\<close>

definition allowed_words :: "string list" where
  "allowed_words = [''Mailpeek'', ''SMTP'', ''MAILPEEK_SMTP_AUTH'', ''.eml'']"

definition textAttributes :: "string list" where
  "textAttributes = [''title'', ''aria-label'', ''aria-description'', ''placeholder'', ''alt'', ''label'']"

text \<open>Letters are those of ASCII, as in the literals of the components.\<close>

definition is_letter :: "char \<Rightarrow> bool" where
  "is_letter c \<longleftrightarrow> (let n = (of_char c :: nat) in (65 \<le> n \<and> n \<le> 90) \<or> (97 \<le> n \<and> n \<le> 122))"

definition hasWords :: "string \<Rightarrow> bool" where
  "hasWords s \<longleftrightarrow> match_first (Quant True 2 None (Cls is_letter)) s \<noteq> None \<and> trim s \<notin> set allowed_words"

text \<open>The literals of a tree that the check looks at, and those it reports.\<close>

fun shown_literals :: "node \<Rightarrow> string list" where
  "shown_literals (Text_node x) = (case x of L_fixed s \<Rightarrow> [s] | _ \<Rightarrow> [])"
| "shown_literals (Elem tg attrs hs cs) =
     concat (map (\<lambda>(k, x). case x of L_fixed s \<Rightarrow> only_if (k \<in> set textAttributes) s | _ \<Rightarrow> []) attrs) @
     concat (map shown_literals cs)"

definition untranslated :: "node \<Rightarrow> string list" where
  "untranslated n = filter hasWords (shown_literals n)"

section \<open>Looking at trees\<close>

fun labels_of :: "node \<Rightarrow> label list" where
  "labels_of (Text_node x) = [x]"
| "labels_of (Elem tg attrs hs cs) = map snd attrs @ concat (map labels_of cs)"

fun subnodes :: "node \<Rightarrow> node list" where
  "subnodes (Text_node x) = [Text_node x]"
| "subnodes (Elem tg attrs hs cs) = Elem tg attrs hs cs # concat (map subnodes cs)"

text \<open>The placeholders of a text, in a language, that get no value.\<close>

fun unfilled :: "ui_locale \<Rightarrow> label \<Rightarrow> string list" where
  "unfilled l (L_tr k vars) =
     filter (\<lambda>n. n \<notin> set (map fst vars)) (placeholders (nullish (map_of (messages_in l) k) [])) @
     concat (map (\<lambda>(n, v). unfilled l v) vars)"
| "unfilled l (L_cat xs) = concat (map (unfilled l) xs)"
| "unfilled l x = []"

text \<open>
  Frames cannot run scripts or act with the page's origin; what opens a new tab gives away neither the
  page nor its address; no element of the page is a script or gets raw HTML.
\<close>

definition safe_element :: "string \<Rightarrow> (string \<times> label) list \<Rightarrow> bool" where
  "safe_element tg attrs \<longleftrightarrow>
     tg \<noteq> ''script'' \<and> map_of attrs ''dangerouslySetInnerHTML'' = None \<and>
     (if tg = ''iframe'' then (case map_of attrs ''sandbox'' of
        Some (L_fixed s) \<Rightarrow> ''allow-scripts'' \<notin> set (split_on (CHR '' '') s) \<and> ''allow-same-origin'' \<notin> set (split_on (CHR '' '') s)
      | _ \<Rightarrow> False) else map_of attrs ''srcdoc'' = None) \<and>
     (map_of attrs ''target'' = None \<or> map_of attrs ''rel'' = Some (L_fixed ''noopener noreferrer''))"

definition safe_node :: "node \<Rightarrow> bool" where
  "safe_node n = (case n of Text_node _ \<Rightarrow> True | Elem tg attrs _ _ \<Rightarrow> safe_element tg attrs)"

section \<open>Good trees\<close>

text \<open>What is shown of each element: its texts can be translated, no literal needs it, and it is safe.\<close>

fun label_ok :: "label \<Rightarrow> bool" where
  "label_ok (L_tr k vars) \<longleftrightarrow> k \<in> set english_keys \<and> list_all (\<lambda>n. n \<in> set (map fst vars)) (holes k) \<and>
     list_all (\<lambda>(n, v). label_ok v) vars"
| "label_ok (L_cat xs) \<longleftrightarrow> list_all label_ok xs"
| "label_ok (L_fun f x) \<longleftrightarrow> (case x of L_tr k vars \<Rightarrow> vars = [] \<and> k \<in> set english_keys | _ \<Rightarrow> False)"
| "label_ok x \<longleftrightarrow> True"

definition literal_ok :: "label \<Rightarrow> bool" where
  "literal_ok x = (case x of L_fixed s \<Rightarrow> \<not> hasWords s | _ \<Rightarrow> True)"

fun good :: "node \<Rightarrow> bool" where
  "good (Text_node x) \<longleftrightarrow> label_ok x \<and> literal_ok x"
| "good (Elem tg attrs hs cs) \<longleftrightarrow>
     list_all (\<lambda>(k, x). label_ok x \<and> (k \<in> set textAttributes \<longrightarrow> literal_ok x)) attrs \<and>
     safe_element tg attrs \<and> list_all good cs"

lemma good_labels: "good n \<Longrightarrow> x \<in> set (labels_of n) \<Longrightarrow> label_ok x"
  by (induction n rule: labels_of.induct) (auto simp: list_all_iff)

lemma good_literals: "good n \<Longrightarrow> s \<in> set (shown_literals n) \<Longrightarrow> \<not> hasWords s"
  by (induction n rule: shown_literals.induct) (auto simp: list_all_iff literal_ok_def split: label.splits if_splits)

lemma good_safe: "good n \<Longrightarrow> list_all safe_node (subnodes n)"
  by (induction n rule: subnodes.induct) (auto simp: list_all_iff safe_node_def)

lemma those_Some: "(\<And>x. x \<in> set xs \<Longrightarrow> x \<noteq> None) \<Longrightarrow> those xs \<noteq> None"
  by (induction xs) (auto split: option.split)

lemma key_text:
  assumes "k \<in> set english_keys"
  shows "\<exists>t. map_of (messages_in l) k = Some t \<and> placeholders t = holes k"
proof -
  obtain s where s: "map_of enUS k = Some s"
    using assms by (metis enUS_keys map_of_eq_None_iff not_None_eq set_map)
  then have "placeholders s = holes k" using enUS_holes map_of_SomeD [OF s] by (fastforce simp: list_all_iff)
  with every_language [OF s] show ?thesis by fastforce
qed

lemma label_ok_shown: "label_ok x \<Longrightarrow> label_text l x \<noteq> None \<and> unfilled l x = []"
proof (induction x rule: label_ok.induct)
  case (1 k vars)
  then obtain t where t: "map_of (messages_in l) k = Some t" "placeholders t = holes k" using key_text by fastforce
  have "label_text l v \<noteq> None \<and> unfilled l v = []" if "(n, v) \<in> set vars" for n v
    using 1 that by (fastforce simp: list_all_iff)
  moreover from this have "those (map (\<lambda>(n, v). map_option (Pair n) (label_text l v)) vars) \<noteq> None"
    by (intro those_Some) force
  ultimately show ?case using 1(2) t by (auto simp: translate_def list_all_iff)
next
  case (2 xs)
  then have "those (map (label_text l) xs) \<noteq> None" by (intro those_Some) (auto simp: list_all_iff)
  with 2 show ?case by (auto simp: list_all_iff)
next
  case (3 f x)
  then obtain k where "x = L_tr k []" "k \<in> set english_keys" by (auto split: label.splits)
  with key_text [of k l] show ?case by (auto simp: translate_def)
qed auto

section \<open>Every component is good\<close>

lemma literals_ok [simp]:
  "\<not> hasWords ''Mailpeek''" "\<not> hasWords ''SMTP''" "\<not> hasWords ''MAILPEEK_SMTP_AUTH''" "\<not> hasWords '' .eml''"
  "\<not> hasWords ''/''" "\<not> hasWords '' ''" "\<not> hasWords []" "\<not> hasWords [CHR 0x0A]" "\<not> hasWords [CHR '' '', CHR 0xC2, CHR 0xB7, CHR '' '']"
  by code_simp+

lemma bool_label_ok [simp]: "label_ok (bool_label b)"
  by (simp add: bool_label_def)

lemma or_tr_ok [simp]: "literal_ok (or_tr s k)" "label_ok (or_tr s k) \<longleftrightarrow> s \<noteq> [] \<or> label_ok (tr k)"
  by (auto simp: or_tr_def literal_ok_def)

lemma safe_other [simp]:
  "tg \<noteq> ''script'' \<Longrightarrow> tg \<noteq> ''iframe'' \<Longrightarrow> map_of attrs ''dangerouslySetInnerHTML'' = None \<Longrightarrow> map_of attrs ''srcdoc'' = None \<Longrightarrow> map_of attrs ''target'' = None \<Longrightarrow> safe_element tg attrs"
  by (simp add: safe_element_def)

lemma good_icon [simp]: "name \<noteq> ''script'' \<Longrightarrow> name \<noteq> ''iframe'' \<Longrightarrow> good (icon name)"
  by (simp add: icon_def)

lemma good_elem [simp]: "tg \<noteq> ''script'' \<Longrightarrow> tg \<noteq> ''iframe'' \<Longrightarrow> good (elem tg cs) \<longleftrightarrow> list_all good cs"
  by (simp add: elem_def)

lemma literal_ok_simps [simp]:
  "literal_ok (L_fixed s) \<longleftrightarrow> \<not> hasWords s" "literal_ok (L_raw s)" "literal_ok (L_tr k vars)" "literal_ok (L_cat xs)" "literal_ok (L_fun f x)"
  by (simp_all add: literal_ok_def)

lemmas key_simps = english_key_facts textAttributes_def

lemma good_CopyButton [simp]:
  "label_ok (nullish lbl (tr ''copy.copy'')) \<Longrightarrow> literal_ok (nullish lbl (tr ''copy.copy'')) \<Longrightarrow> good (CopyButton c val lbl b)"
  by (auto simp: CopyButton_def Let_def key_simps)

lemma good_Logo [simp]: "good Logo"
  by (simp add: Logo_def key_simps)

lemma good_ThemeToggle [simp]: "good (ThemeToggle d)"
  by (simp add: ThemeToggle_def IconButton_def obj_spread_def key_simps)

lemma good_ClearButton [simp]: "good (ClearButton a d)"
  by (simp add: ClearButton_def key_simps)

lemma good_Flag [simp]: "good (Flag x)"
  by (simp add: Flag_def key_simps split: option.split)

lemma good_language_option [simp]: "good (language_option p active io)"
  by (cases io) (simp add: language_option_def option_name_def Let_def english_keys_def holes_def english_holes_def textAttributes_def split: option.split)

lemma good_LanguagePicker [simp]: "good (LanguagePicker p m)"
  by (simp add: LanguagePicker_def key_simps list_all_iff)

lemma good_search_field [simp]: "good (search_field q)"
  by (simp add: search_field_def Kbd_def key_simps)

lemma good_Header [simp]: "good (Header h s p)"
  by (simp add: Header_def IconButton_def obj_spread_def key_simps)

lemma good_message_item [simp]: "good (message_item v selected unread m)"
  by (simp add: message_item_def message_title_def from_label_def to_label_def Let_def key_simps)

lemma good_MessageList [simp]: "good (MessageList v msgs mo selected unread)"
  by (simp add: MessageList_def sentinel_def key_simps list_all_iff)

lemma good_ListArea [simp]: "good (ListArea content v msgs mo selected unread srch)"
  by (cases content) (simp_all add: ListArea_def NoResults_def SidebarPlaceholder_def key_simps)

lemma good_Sidebar [simp]: "good (Sidebar s footer cs) \<longleftrightarrow> list_all good footer \<and> list_all good cs"
  by (auto simp: Sidebar_def key_simps)

lemma good_SidebarFooter [simp]: "good (SidebarFooter c a au st)"
  by (cases st) (simp_all add: SidebarFooter_def statusLabel_def key_simps)

lemma good_EmptyInbox [simp]: "good (EmptyInbox c a au)"
  by (simp add: EmptyInbox_def login_hint_def key_simps)

lemma good_ResizeHandle [simp]: "good (ResizeHandle x)"
  by (simp add: ResizeHandle_def key_simps)

lemma good_WidthToggle [simp]: "list_all good (WidthToggle x)"
  by (simp add: WidthToggle_def widthOptions_def key_simps)

lemma good_PreviewFrame [simp]: "good (PreviewFrame d x)"
  by (simp add: PreviewFrame_def safe_element_def key_simps)

lemma good_Empty [simp]: "good (Empty x) \<longleftrightarrow> label_ok x \<and> literal_ok x"
  by (simp add: Empty_def)

lemma good_HtmlPanel [simp]: "good (HtmlPanel org pv m)"
  by (simp add: HtmlPanel_def FullscreenPreview_def Let_def key_simps)

lemma good_TextPanel [simp]: "good (TextPanel m)"
  by (simp add: TextPanel_def key_simps)

lemma good_HeadersPanel [simp]: "good (HeadersPanel c m)"
  by (auto simp: HeadersPanel_def key_simps list_all_iff)

lemma good_HighlightedMime [simp]: "good (HighlightedMime s)"
  by (auto simp: HighlightedMime_def token_node_def Let_def key_simps list_all_iff)

lemma problem_label_ok [simp]: "label_ok (problem_label (describeError e))" "literal_ok (problem_label q)"
  by (cases e; simp add: problem_label_def describeError_def key_simps) (simp add: problem_label_def literal_ok_def)

lemma good_attachment_item [simp]: "good (attachment_item v i a)"
  by (simp add: attachment_item_def AttachmentIcon_def new_tab_def safe_element_def Let_def key_simps)

lemma good_link_item [simp]: "good (link_item c l)"
  by (simp add: link_item_def new_tab_def safe_element_def key_simps)

lemma good_AttachmentsPanel [simp]: "good (AttachmentsPanel v m)" "good (LinksPanel c m)"
  by (simp_all add: AttachmentsPanel_def LinksPanel_def key_simps list_all_iff)

lemma good_MessageHeader [simp]: "good (MessageHeader v m c)"
  by (simp add: MessageHeader_def MessageDetails_def MetaRow_def middle_dot_def from_label_def IconButton_def obj_spread_def key_simps)

lemma good_MessageTabs [simp]: "good (MessageTabs (messageTabs m) act)"
  by (simp add: MessageTabs_def messageTabs_def key_simps)

text \<open>The problems the page shows are descriptions of errors.\<close>

definition described :: "problem option \<Rightarrow> bool" where
  "described q \<longleftrightarrow> (case q of None \<Rightarrow> True | Some x \<Rightarrow> (\<exists>e. x = describeError e))"

lemma good_RawPanel:
  "described (fst (snd (useRawSource (wm_id m) st))) \<Longrightarrow> good (RawPanel c st m)"
  by (auto simp: RawPanel_def described_def key_simps split: prod.splits option.splits)

lemma good_MessageView:
  "described (fst (snd (useRawSource (wm_id m) (ps_raw s)))) \<Longrightarrow> good (MessageView v s m tb c)"
  by (auto simp: MessageView_def panels_def Let_def good_RawPanel key_simps split: tab.splits)

definition problems_described :: "page_view \<Rightarrow> bool" where
  "problems_described w \<longleftrightarrow> described (ls_error (page_list w)) \<and> described (fst (snd (useMessage (ip_message (vw_inbox w))))) \<and>
     described (Option.bind (ps_raw (vw_panel w)) rw_error)"

lemma raw_described: "described (Option.bind st rw_error) \<Longrightarrow> described (fst (snd (useRawSource i st)))"
  by (auto simp: described_def useRawSource_def split: option.splits if_splits)

lemma good_InboxPage:
  assumes "problems_described w"
  shows "good (InboxPage w)"
proof -
  have "good (page_header w)" "good (page_sidebar w)"
    by (simp_all add: page_header_def page_sidebar_def Let_def)
  moreover have "good (page_pane w)"
    using assms raw_described [of "ps_raw (vw_panel w)"]
    by (auto simp: page_pane_def MessagePane_def problems_described_def described_def good_MessageView key_simps Let_def
        split: prod.splits option.splits pane_content.splits)
  moreover have "list_all good (case ls_error (page_list w) of None \<Rightarrow> []
      | Some e \<Rightarrow> [ErrorBanner (L_tr ''app.loadError'' [(''error'', problem_label e)])])"
    using assms by (auto simp: ErrorBanner_def problems_described_def described_def key_simps split: option.splits)
  ultimately show ?thesis by (simp add: InboxPage_def)
qed

text \<open>
  Problems come about only as descriptions of errors, so this holds in every state the hooks reach:
  of the list, of the message shown and of its source.
\<close>

inductive raw_reachable :: "raw_state option \<Rightarrow> bool" where
  raw_start: "raw_reachable None"
| raw_answer: "raw_reachable st \<Longrightarrow> raw_reachable (raw_settle i cancelled answer st)"

definition page_running :: "(string \<Rightarrow> nat \<Rightarrow> string option \<Rightarrow> message_page) \<Rightarrow> (string \<Rightarrow> int) \<Rightarrow> (string \<Rightarrow> web_message \<Rightarrow> bool) \<Rightarrow>
    page_view \<Rightarrow> bool" where
  "page_running served count sent w \<longleftrightarrow> hook_reachable served count (ip_list (vw_inbox w)) \<and>
     message_reachable sent (ip_message (vw_inbox w)) \<and> raw_reachable (ps_raw (vw_panel w))"

lemma described_simps [simp]: "described None" "described (Some (describeError e))"
  by (auto simp: described_def)

lemma hook_step_described:
  "hook_step served count s s' \<Longrightarrow> described (ls_error (hk_current s)) \<Longrightarrow> described (ls_error (hk_current s'))"
  by (induction rule: hook_step.induct)
     (auto simp: refresh_def timer_fires_def loadMore_def set_query_def unmount_def abort_current_def settle_def finish_load_def Let_def
       split: option.split outcome.split)

lemma hook_described: "hook_reachable served count s \<Longrightarrow> described (ls_error (hk_current s))"
  by (induction rule: hook_reachable.induct) (auto simp: useMessages_def set_query_def intro: hook_step_described)

lemma message_described: "message_reachable sent s \<Longrightarrow> described (sm_error (mk_state s))"
proof (induction rule: message_reachable.induct)
  case (goes_on s s')
  from goes_on(2,3) show ?case
    by cases (auto simp: message_effect_def pruneMessageCache_def message_settle_def Let_def split: prod.split)
qed (simp add: new_message_hook_def)

lemma raw_described_reachable: "raw_reachable st \<Longrightarrow> described (Option.bind st rw_error)"
  by (induction rule: raw_reachable.induct) (auto simp: raw_settle_def split: sum.split)

lemma running_described: "page_running served count sent w \<Longrightarrow> problems_described w"
  using hook_described [of served count "ip_list (vw_inbox w)"] message_described [of sent "ip_message (vw_inbox w)"]
    raw_described_reachable [of "ps_raw (vw_panel w)"]
  by (auto simp: page_running_def problems_described_def page_list_def useMessage_def split: option.split)

lemmas running_good = good_InboxPage [OF running_described]

section \<open>Where the HTML of a message goes\<close>

text \<open>The page with the documents of its frames left out, and with the HTML of every message it holds replaced.\<close>

fun without_frames :: "node \<Rightarrow> node" where
  "without_frames (Text_node x) = Text_node x"
| "without_frames (Elem tg attrs hs cs) =
     Elem tg (if tg = ''iframe'' then filter (\<lambda>(k, x). k \<noteq> ''srcdoc'') attrs else attrs) hs (map without_frames cs)"

definition with_html :: "(string \<Rightarrow> string) \<Rightarrow> web_message \<Rightarrow> web_message" where
  "with_html f m = m\<lparr>wm_html := f (wm_html m)\<rparr>"

definition hook_html :: "(string \<Rightarrow> string) \<Rightarrow> message_hook \<Rightarrow> message_hook" where
  "hook_html f s = s\<lparr>mk_cache := map (\<lambda>(i, m). (i, with_html f m)) (mk_cache s),
     mk_state := (mk_state s)\<lparr>sm_message := map_option (with_html f) (sm_message (mk_state s))\<rparr>\<rparr>"

definition page_html :: "(string \<Rightarrow> string) \<Rightarrow> page_view \<Rightarrow> page_view" where
  "page_html f w = w\<lparr>vw_inbox := (vw_inbox w)\<lparr>ip_message := hook_html f (ip_message (vw_inbox w))\<rparr>\<rparr>"

lemma with_html_simps [simp]:
  "wm_id (with_html f m) = wm_id m" "wm_from (with_html f m) = wm_from m" "wm_to (with_html f m) = wm_to m"
  "wm_cc (with_html f m) = wm_cc m" "wm_replyTo (with_html f m) = wm_replyTo m" "wm_subject (with_html f m) = wm_subject m"
  "wm_text (with_html f m) = wm_text m" "wm_html (with_html f m) = f (wm_html m)" "wm_headers (with_html f m) = wm_headers m"
  "wm_attachments (with_html f m) = wm_attachments m" "wm_links (with_html f m) = wm_links m" "wm_size (with_html f m) = wm_size m"
  "wm_createdAt (with_html f m) = wm_createdAt m"
  by (simp_all add: with_html_def)

lemma useMessage_html:
  "useMessage (hook_html f s) = (case useMessage s of (m, e, b) \<Rightarrow> (map_option (with_html f) m, e, b))"
  by (simp add: useMessage_def hook_html_def map_of_map split: option.split)

lemma frames_elem [simp]: "tg \<noteq> ''iframe'' \<Longrightarrow> without_frames (elem tg cs) = elem tg (map without_frames cs)"
  by (simp add: elem_def)

lemma frame_hidden: "without_frames (PreviewFrame d1 width) = without_frames (PreviewFrame d2 width)"
  by (simp add: PreviewFrame_def)

lemma fullscreen_hidden: "without_frames (FullscreenPreview t d1 width) = without_frames (FullscreenPreview t d2 width)"
  using frame_hidden [of d1 width d2] by (simp add: FullscreenPreview_def)

lemma HtmlPanel_hidden:
  assumes "\<And>h. f h = [] \<longleftrightarrow> h = []"
  shows "without_frames (HtmlPanel origin p (with_html f m)) = without_frames (HtmlPanel origin p m)"
  using assms frame_hidden [of "prepareHtml (with_html f m) origin" "pv_width p" "prepareHtml m origin"]
    fullscreen_hidden [of "wm_subject m" "prepareHtml (with_html f m) origin" "pv_width p" "prepareHtml m origin"]
  by (simp add: HtmlPanel_def Let_def)

lemma MessageView_hidden:
  assumes "\<And>h. f h = [] \<longleftrightarrow> h = []"
  shows "without_frames (MessageView v st (with_html f m) t c) = without_frames (MessageView v st m t c)"
proof -
  have tabs: "messageTabs (with_html f m) = messageTabs m" by (simp only: messageTabs_def with_html_simps)
  have tab: "effectiveTab t (with_html f m) = effectiveTab t m" by (simp only: effectiveTab_def with_html_simps assms)
  have raw: "RawPanel c r (with_html f m) = RawPanel c r m" for c r unfolding RawPanel_def with_html_simps ..
  have other: "a \<noteq> Html \<Longrightarrow> panels v st a (with_html f m) = panels v st a m" for a
    by (cases a) (simp_all add: panels_def TextPanel_def HeadersPanel_def header_rows_def raw AttachmentsPanel_def LinksPanel_def)
  have "without_frames (panels v st a (with_html f m)) = without_frames (panels v st a m)" for a
  proof (cases "a = Html")
    case True
    then show ?thesis by (simp add: panels_def HtmlPanel_hidden [OF assms])
  qed (simp add: other)
  moreover have "MessageHeader v (with_html f m) c = MessageHeader v m c" by (simp add: MessageHeader_def MessageDetails_def)
  ultimately show ?thesis by (simp add: MessageView_def tabs tab Let_def)
qed

lemma page_html_simps [simp]:
  "page_header (page_html f w) = page_header w" "page_sidebar (page_html f w) = page_sidebar w"
  "page_list (page_html f w) = page_list w" "vw_layout (page_html f w) = vw_layout w" "vw_width (page_html f w) = vw_width w"
  "showResizeHandle l (vw_inbox (page_html f w)) = showResizeHandle l (vw_inbox w)"
  by (simp_all add: page_html_def page_header_def page_sidebar_def page_list_def showResizeHandle_def page_messages_def
      isEmptyInbox_def page_loaded_def page_env_def listHiddenOnPhone_def page_list_content_def page_selected_def page_unread_def Let_def)

lemma page_pane_hidden:
  assumes "\<And>h. f h = [] \<longleftrightarrow> h = []"
  shows "without_frames (page_pane (page_html f w)) = without_frames (page_pane w)"
proof -
  obtain m e b where m: "useMessage (ip_message (vw_inbox w)) = (m, e, b)" by (metis prod_cases3)
  then have m': "useMessage (ip_message (vw_inbox (page_html f w))) = (map_option (with_html f) m, e, b)"
    by (simp add: page_html_def useMessage_html)
  have same: "page_env (page_html f w) = page_env w" "vw_panel (page_html f w) = vw_panel w" "vw_server (page_html f w) = vw_server w"
    "paneHiddenOnPhone l (vw_inbox (page_html f w)) = paneHiddenOnPhone l (vw_inbox w)"
    "isEmptyInbox (vw_inbox (page_html f w)) = isEmptyInbox (vw_inbox w)" for l
    by (simp_all add: page_html_def page_env_def paneHiddenOnPhone_def page_messages_def isEmptyInbox_def page_loaded_def)
  have "page_pane_content (vw_inbox (page_html f w)) = page_pane_content (vw_inbox w)"
    by (simp add: page_pane_content_def m m' same)
  with MessageView_hidden [OF assms] show ?thesis
    by (cases m) (auto simp: page_pane_def m m' same MessagePane_def Let_def split: pane_content.split)
qed

section \<open>The list and the source\<close>

text \<open>The entries a reader can choose from, and the plain text of a tree without translations.\<close>

definition options_of :: "node \<Rightarrow> node list" where
  "options_of n = filter (\<lambda>x. case x of Text_node _ \<Rightarrow> False | Elem _ attrs _ _ \<Rightarrow> map_of attrs ''role'' = Some (L_fixed ''option''))
     (subnodes n)"

definition selected_option :: "node \<Rightarrow> bool" where
  "selected_option n = (case n of Text_node _ \<Rightarrow> False | Elem _ attrs _ _ \<Rightarrow> map_of attrs ''aria-selected'' = Some (bool_label True))"

fun plain_text :: "node \<Rightarrow> string" where
  "plain_text (Text_node x) = (case x of L_raw s \<Rightarrow> s | L_fixed s \<Rightarrow> s | _ \<Rightarrow> [])"
| "plain_text (Elem tg attrs hs cs) = concat (map plain_text cs)"

lemma options_of_concat: "filter (\<lambda>x. case x of Text_node _ \<Rightarrow> False | Elem _ attrs _ _ \<Rightarrow> map_of attrs ''role'' = Some (L_fixed ''option''))
    (concat (map subnodes cs)) = concat (map options_of cs)"
  by (simp add: filter_concat comp_def options_of_def [abs_def])

lemma options_of_Elem:
  "options_of (Elem tg attrs hs cs) =
     only_if (map_of attrs ''role'' = Some (L_fixed ''option'')) (Elem tg attrs hs cs) @ concat (map options_of cs)"
  by (simp add: options_of_def [of "Elem tg attrs hs cs"] options_of_concat)

lemma options_of_simps [simp]:
  "options_of (Text_node x) = []" "options_of (elem tg cs) = concat (map options_of cs)" "options_of (icon s) = []"
  by (simp_all add: elem_def icon_def options_of_Elem) (simp add: options_of_def)

lemma options_of_item: "options_of (message_item v sel unread m) = [message_item v sel unread m]"
  by (simp add: message_item_def Let_def options_of_Elem)

lemma options_of_list: "options_of (MessageList v msgs mo sel unread) = map (message_item v sel unread) msgs"
  by (simp add: MessageList_def sentinel_def options_of_Elem options_of_item comp_def concat_map_singleton)

lemma options_of_footer: "options_of (SidebarFooter c a au st) = []"
  by (simp add: SidebarFooter_def CopyButton_def Let_def options_of_Elem)

lemma options_of_sidebar:
  assumes "page_messages (vw_inbox w) \<noteq> []"
  shows "options_of (page_sidebar w) =
    map (message_item (page_env w) (page_selected (vw_inbox w)) (page_unread (vw_inbox w))) (page_messages (vw_inbox w))"
  using assms
  by (simp add: page_sidebar_def Sidebar_def Let_def options_of_Elem options_of_list options_of_footer
      page_list_content_def listContent_def ListArea_def)

lemma item_facts:
  "fire ''click'' [] (message_item v sel unread m) = [Open_id (ws_id m)]"
  "fire ''keydown'' ''Enter'' (message_item v sel unread m) = [Open_id (ws_id m)]"
  "selected_option (message_item v sel unread m) \<longleftrightarrow> sel = Some (ws_id m)"
  by (auto simp: message_item_def Let_def fire_def on_click_def selected_option_def bool_label_def)

lemma filter_one: "distinct (map f xs) \<Longrightarrow> x \<in> set xs \<Longrightarrow> filter (\<lambda>y. f x = f y) xs = [x]"
  by (induction xs) (auto simp: filter_empty_conv image_iff)

lemma highlighted_text:
  "concat (map (\<lambda>ln. plain_text (elem ''span'' (map token_node (ln_tokens ln) @ [Text_node (L_fixed [CHR 0x0A])]))) lns) =
     concat (map (\<lambda>ln. line_text ln @ [CHR 0x0A]) lns)"
proof -
  have "plain_text (token_node x) = t_text x" for x by (simp add: token_node_def)
  then show ?thesis by (simp add: elem_def line_text_def comp_def)
qed

lemma lines_joined: "xs \<noteq> [] \<Longrightarrow> concat (map (\<lambda>x. x @ [c]) xs) = join [c] xs @ [c]"
  by (induction xs rule: induct_list012) auto

lemma highlight_text: "concat (map (\<lambda>ln. line_text ln @ [CHR 0x0A]) (highlightMime s)) =
    replace_all new_line (\<lambda>_. [CHR 0x0A]) s @ [CHR 0x0A]"
proof -
  let ?ls = "map line_text (highlightMime s)"
  have "?ls = split_re new_line s" by (simp add: highlightMime_def highlight_loop_text tokenize_text)
  moreover have "split_re new_line s \<noteq> []" by (simp add: split_re_def)
  ultimately have "concat (map (\<lambda>x. x @ [CHR 0x0A]) ?ls) = replace_all new_line (\<lambda>_. [CHR 0x0A]) s @ [CHR 0x0A]"
    using lines_joined [of ?ls "CHR 0x0A"] by (simp add: replace_all_split)
  then show ?thesis by (simp add: comp_def)
qed

section \<open>The properties\<close>

text \<open>
  C25: The page can be shown in every language: in every state its hooks reach, each of its texts and attributes has a
  text in each locale, and every placeholder of the translation used gets a value.
\<close>

theorem page_speaks_every_language:
  assumes "page_running served count sent w"
  shows "list_all (\<lambda>x. label_text l x \<noteq> None \<and> unfilled l x = []) (labels_of (InboxPage w))"
  using good_labels [OF running_good [OF assms]] label_ok_shown by (auto simp: list_all_iff)

definition first_page :: page_view where
  "first_page =
     \<lparr>vw_inbox = \<lparr>ip_list = useMessages [], ip_selection = \<lparr>sl_chosen = None, sl_seen = []\<rparr>, ip_arrived = [],
        ip_message = new_message_hook, ip_search = [], ip_sound = False, ip_chimes = 0\<rparr>,
      vw_query = [], vw_server = useServerInfo ''localhost'' None, vw_status = Connecting,
      vw_layout = \<lparr>ly_tab = Html, ly_showDetail = False, ly_listHidden = False, ly_detailsCollapsed = False, ly_resizing = False\<rparr>,
      vw_width = sidebarDefault,
      vw_header = \<lparr>hs_dark = False, hs_menu = \<lparr>mn_open = True, mn_active = 0\<rparr>, hs_armed = False\<rparr>,
      vw_i18n = I18nProvider [''fr''] \<lparr>sg_blocked = False, sg_items = []\<rparr> [],
      vw_intl = \<lparr>in_number = (\<lambda>_ _ _. []), in_toDateString = (\<lambda>_. []), in_time = (\<lambda>_ _. []), in_day = (\<lambda>_ _. []), in_dateTime = (\<lambda>_ _. [])\<rparr>,
      vw_now = 0,
      vw_panel = \<lparr>ps_origin = [], ps_preview = usePreview, ps_sort = (\<lambda>xs. xs),
        ps_raw = Some \<lparr>rw_id = ''1'', rw_text = None, rw_error = Some (describeError Network)\<rparr>, ps_copied = (\<lambda>_. False)\<rparr>\<rparr>"

lemma first_page_running: "page_running (\<lambda>_ _ _. \<lparr>mp_messages = [], mp_nextCursor = None\<rparr>) (\<lambda>_. 0) (\<lambda>_ _. True) first_page"
proof -
  have "raw_reachable (raw_settle ''1'' False (Inl Network) None)" by (intro raw_answer raw_start)
  then show ?thesis by (simp add: page_running_def first_page_def raw_settle_def mounts begins)
qed

theorem page_speaks_every_language_witness:
  "list_all (\<lambda>x. label_text Fr_FR x \<noteq> None \<and> unfilled Fr_FR x = []) (labels_of (InboxPage first_page))"
  by (rule page_speaks_every_language) (rule first_page_running)

text \<open>
  C24: Mail is contained: in every state the hooks of the page reach, no element of the page is a script or is given raw
  HTML, a frame's sandbox allows neither scripts nor the page's origin, only frames have a document of
  their own, and every link that opens a new tab gives away neither the page nor its address. And the HTML of a
  message goes nowhere but into the document of such a frame: whatever other HTML the messages have (or none when
  they have none), everything of the page but those documents stays the same.
\<close>

theorem mail_is_contained:
  assumes "page_running served count sent w" "\<And>h. f h = [] \<longleftrightarrow> h = []"
  shows "list_all safe_node (subnodes (InboxPage w)) \<and>
    without_frames (InboxPage (page_html f w)) = without_frames (InboxPage w)"
  using good_safe [OF running_good [OF assms(1)]] page_pane_hidden [OF assms(2)] by (simp add: InboxPage_def)

text \<open>A page that shows a message.\<close>

definition mail_page :: page_view where
  "mail_page = first_page\<lparr>vw_inbox := (vw_inbox first_page)\<lparr>ip_message :=
     message_settle 0 (Inr plain_message) (message_effect (Some ''1'') new_message_hook)\<rparr>\<rparr>"

lemma mail_page_running: "page_running (\<lambda>_ _ _. \<lparr>mp_messages = [], mp_nextCursor = None\<rparr>) (\<lambda>_. 0) (\<lambda>_ _. True) mail_page"
proof -
  have "message_reachable (\<lambda>_ _. True) (message_settle 0 (Inr plain_message) (message_effect (Some ''1'') new_message_hook))"
    by (rule goes_on [OF goes_on [OF begins selects] answers])
       (simp_all add: message_effect_def new_message_hook_def truthy_def)
  with first_page_running show ?thesis by (simp add: page_running_def mail_page_def)
qed

theorem mail_is_contained_witness:
  "list_all safe_node (subnodes (InboxPage mail_page)) \<and>
    without_frames (InboxPage (page_html (\<lambda>h. if h = [] then [] else ''<script>'') mail_page)) = without_frames (InboxPage mail_page)"
  by (rule mail_is_contained [OF mail_page_running]) simp

text \<open>The check of the texts finds nothing in the page.\<close>

theorem no_untranslated_text:
  assumes "page_running served count sent w"
  shows "untranslated (InboxPage w) = []"
  using good_literals [OF running_good [OF assms]] by (auto simp: untranslated_def filter_empty_conv)

text \<open>
  C27: The list of the page offers exactly the messages the hook holds, in their order: clicking an entry or
  pressing Enter opens its message, and with distinct identifiers exactly one entry is marked as selected, the
  one of the message that is selected.
\<close>

theorem list_shows_messages:
  assumes "page_messages (vw_inbox w) \<noteq> []" "distinct (map ws_id (page_messages (vw_inbox w)))"
  shows "map (fire ''click'' []) (options_of (page_sidebar w)) = map (\<lambda>m. [Open_id (ws_id m)]) (page_messages (vw_inbox w)) \<and>
    map (fire ''keydown'' ''Enter'') (options_of (page_sidebar w)) = map (\<lambda>m. [Open_id (ws_id m)]) (page_messages (vw_inbox w)) \<and>
    (\<exists>i. page_selected (vw_inbox w) = Some i \<and>
      map (fire ''click'' []) (filter selected_option (options_of (page_sidebar w))) = [[Open_id i]])"
proof -
  let ?ms = "page_messages (vw_inbox w)" and ?sel = "page_selected (vw_inbox w)"
  let ?item = "message_item (page_env w) ?sel (page_unread (vw_inbox w))"
  note o = options_of_sidebar [OF assms(1)]
  from assms(1) obtain m where m: "m \<in> set ?ms" "?sel = Some (ws_id m)"
    using selectedId_cases [of ?ms "ip_selection (vw_inbox w)"] by (auto simp: page_selected_def split: option.splits)
  have "filter selected_option (options_of (page_sidebar w)) = map ?item (filter (\<lambda>x. ws_id m = ws_id x) ?ms)"
    unfolding o filter_map comp_def item_facts(3) by (simp add: m(2))
  also have "\<dots> = [?item m]" by (simp add: filter_one [OF assms(2) m(1)])
  finally show ?thesis using m(2) by (simp add: o item_facts)
qed

theorem list_shows_messages_witness:
  "\<exists>w. map (fire ''click'' []) (options_of (page_sidebar w)) = [[Open_id ''a''], [Open_id ''b'']]"
proof -
  let ?ms = "[summary_named ''a'', summary_named ''b'']"
  let ?l = "(useMessages [])\<lparr>hk_current := \<lparr>ls_messages = ?ms, ls_total = 2, ls_nextCursor = None, ls_loaded = True, ls_error = None\<rparr>\<rparr>"
  let ?w = "first_page\<lparr>vw_inbox := (vw_inbox first_page)\<lparr>ip_list := ?l\<rparr>\<rparr>"
  have "page_messages (vw_inbox ?w) = ?ms" by (simp add: page_messages_def)
  with list_shows_messages [of ?w] show ?thesis by (intro exI [of _ ?w]) (simp add: summary_named_def)
qed

text \<open>
  C28: The source panel shows the source: its text is the source up to where highlighting stops with every
  CRLF turned into LF, a newline, and the rest of the source as it is. (When the source is longer than
  the limit, the newline is an empty line that is not in the source.)
\<close>

theorem source_panel_text:
  "plain_text (HighlightedMime s) =
     replace_all new_line (\<lambda>_. [CHR 0x0A]) (take (highlight_cut s) s) @ [CHR 0x0A] @ drop (highlight_cut s) s"
  using highlighted_text [of "highlightMime (take (highlight_cut s) s)"] highlight_text [of "take (highlight_cut s) s"]
  by (auto simp: HighlightedMime_def elem_def Let_def comp_def)

text \<open>Picking a language in the header makes it the choice, and picking the automatic one undoes it.\<close>

theorem picked_language_is_chosen:
  assumes "x \<in> set language_options"
  shows "choice_option (ip_choice (setChoice (toLocale x) p)) = x"
proof -
  have "toLocale ''auto'' = None" by code_simp
  moreover have "toLocale (locale_tag l) = Some l" for l using find_tag by (simp add: toLocale_def)
  ultimately show ?thesis using assms by (auto simp: language_options_def choice_option_def setChoice_def saveLocale_def)
qed

end
