(* ===== verification/Text_Check.thy ===== *)
theory Text_Check
  imports Page_View
begin

text \<open>
  The quality gate for texts (\<open>scripts/check-ui-i18n.mjs\<close>): it walks the source files of the components and their
  syntax trees and reports every literal text that a reader would see. The compiler that parses a file is
  the argument \<open>parse\<close>, reading the disk is a tree of directories.
\<close>

section \<open>The check\<close>

datatype initializer = String_literal string | Other_initializer

text \<open>The nodes the check tells apart, with the line they start on (from zero) and their children.\<close>

datatype ts_node = Jsx_text nat string | Jsx_attribute nat string "initializer option" "ts_node list" | Other_node "ts_node list"

datatype fs_entry = File string | Dir "(string \<times> fs_entry) list"

definition join_path :: "string \<Rightarrow> string \<Rightarrow> string" where
  "join_path dir name = (if dir = [] then name else dir @ ''/'' @ name)"

text \<open>The sources, with their paths relative to the root; directories named \<open>i18n\<close> are left out.\<close>

fun files :: "string \<Rightarrow> (string \<times> fs_entry) list \<Rightarrow> (string \<times> string) list" where
  "files dir [] = []"
| "files dir ((name, Dir es) # rest) = (if name \<noteq> ''i18n'' then files (join_path dir name) es else []) @ files dir rest"
| "files dir ((name, File content) # rest) =
     (if endsWith name ''.tsx'' then [(join_path dir name, content)] else []) @ files dir rest"

definition report :: "string \<Rightarrow> nat \<Rightarrow> string \<Rightarrow> string" where
  "report path line s = ''  '' @ path @ '':'' @ show_nat (line + 1) @ ''  '' @ json_string (trim s)"

fun visit :: "string \<Rightarrow> ts_node \<Rightarrow> string list" where
  "visit path (Jsx_text line s) = only_if (hasWords s) (report path line s)"
| "visit path (Jsx_attribute line name init cs) =
     (case init of Some (String_literal s) \<Rightarrow> only_if (name \<in> set textAttributes \<and> hasWords s) (report path line s) | _ \<Rightarrow> []) @
     concat (map (visit path) cs)"
| "visit path (Other_node cs) = concat (map (visit path) cs)"

record check_outcome =
  oc_exit :: nat
  oc_stderr :: "string list"
  oc_stdout :: "string list"

definition check_texts :: "(string \<Rightarrow> ts_node) \<Rightarrow> (string \<times> fs_entry) list \<Rightarrow> check_outcome" where
  "check_texts parse sources =
     (let found = concat (map (\<lambda>(path, content). visit path (parse content)) (files [] sources))
      in if found \<noteq> []
         then \<lparr>oc_exit = 1, oc_stderr = [''Untranslated UI text (add a key to web/src/i18n/locales and use t()):'', join ''\<newline>'' found],
           oc_stdout = []\<rparr>
         else \<lparr>oc_exit = 0, oc_stderr = [], oc_stdout = [''UI i18n OK: no literal text in web/src components.'']\<rparr>)"

section \<open>What it should find\<close>

text \<open>A node of a syntax tree, and a source file of a directory.\<close>

inductive node_in :: "ts_node \<Rightarrow> ts_node \<Rightarrow> bool" where
  node_self: "node_in n n"
| node_attribute: "c \<in> set cs \<Longrightarrow> node_in n c \<Longrightarrow> node_in n (Jsx_attribute line name init cs)"
| node_other: "c \<in> set cs \<Longrightarrow> node_in n c \<Longrightarrow> node_in n (Other_node cs)"

inductive source_in :: "string \<Rightarrow> (string \<times> fs_entry) list \<Rightarrow> bool" where
  source_here: "(name, File content) \<in> set es \<Longrightarrow> endsWith name ''.tsx'' \<Longrightarrow> source_in content es"
| source_below: "(name, Dir ds) \<in> set es \<Longrightarrow> name \<noteq> ''i18n'' \<Longrightarrow> source_in content ds \<Longrightarrow> source_in content es"

definition untranslated_node :: "ts_node \<Rightarrow> bool" where
  "untranslated_node n = (case n of
     Jsx_text _ s \<Rightarrow> hasWords s
   | Jsx_attribute _ name (Some (String_literal s)) _ \<Rightarrow> name \<in> set textAttributes \<and> hasWords s
   | _ \<Rightarrow> False)"

inductive_simps node_in_simps [simp]: "node_in n (Jsx_text line s)" "node_in n (Jsx_attribute line name init cs)" "node_in n (Other_node cs)"

lemma untranslated_simps [simp]:
  "untranslated_node (Jsx_text line s) = hasWords s" "\<not> untranslated_node (Other_node cs)"
  "\<not> untranslated_node (Jsx_attribute line name None cs)"
  "\<not> untranslated_node (Jsx_attribute line name (Some Other_initializer) cs)"
  "untranslated_node (Jsx_attribute line name (Some (String_literal s)) cs) \<longleftrightarrow> name \<in> set textAttributes \<and> hasWords s"
  by (simp_all add: untranslated_node_def)

lemma concat_map_ne: "concat (map f xs) \<noteq> [] \<longleftrightarrow> (\<exists>x \<in> set xs. f x \<noteq> [])"
  by auto

lemma ex_node:
  "(\<exists>n. node_in n (Jsx_text line s) \<and> P n) \<longleftrightarrow> P (Jsx_text line s)"
  "(\<exists>n. node_in n (Jsx_attribute line name init cs) \<and> P n) \<longleftrightarrow>
     P (Jsx_attribute line name init cs) \<or> (\<exists>c \<in> set cs. \<exists>n. node_in n c \<and> P n)"
  "(\<exists>n. node_in n (Other_node cs) \<and> P n) \<longleftrightarrow> P (Other_node cs) \<or> (\<exists>c \<in> set cs. \<exists>n. node_in n c \<and> P n)"
  unfolding node_in_simps by blast+

lemma visit_exact: "visit path t \<noteq> [] \<longleftrightarrow> (\<exists>n. node_in n t \<and> untranslated_node n)"
proof (induction path t rule: visit.induct)
  case (2 path line name init cs)
  then have "concat (map (visit path) cs) \<noteq> [] \<longleftrightarrow> (\<exists>c \<in> set cs. \<exists>n. node_in n c \<and> untranslated_node n)"
    by (simp only: concat_map_ne) auto
  then show ?case
    unfolding ex_node visit.simps append_is_Nil_conv de_Morgan_conj
    by (auto simp: only_if_def untranslated_node_def simp del: concat_eq_Nil_conv split: option.split initializer.split)
next
  case (3 path cs)
  then have "concat (map (visit path) cs) \<noteq> [] \<longleftrightarrow> (\<exists>c \<in> set cs. \<exists>n. node_in n c \<and> untranslated_node n)"
    by (simp only: concat_map_ne) auto
  then show ?case unfolding ex_node visit.simps by simp
qed (simp only: ex_node visit.simps, simp add: only_if_def)

lemma source_in_Cons: "source_in c (e # es) \<longleftrightarrow> source_in c [e] \<or> source_in c es"
  by (subst (1 2 3) source_in.simps) auto

lemma files_exact: "c \<in> snd ` set (files dir es) \<longleftrightarrow> source_in c es"
proof (induction dir es rule: files.induct)
  case (1 dir)
  show ?case by (auto elim: source_in.cases)
next
  case (2 dir name es rest)
  have "source_in c [(name, Dir es)] \<longleftrightarrow> name \<noteq> ''i18n'' \<and> source_in c es"
    by (subst source_in.simps) auto
  with 2 source_in_Cons [of c _ rest] show ?case by (simp add: image_Un) blast
next
  case (3 dir name content rest)
  have "source_in c [(name, File content)] \<longleftrightarrow> endsWith name ''.tsx'' \<and> c = content"
    by (subst source_in.simps) auto
  with 3 source_in_Cons [of c _ rest] show ?case by (simp add: image_Un) blast
qed

section \<open>The property\<close>

text \<open>
  The check passes exactly when no source file outside the directories of translations, however deep, holds a
  literal text or text attribute with words that are not among the allowed names.
\<close>

theorem check_texts_exact:
  "oc_exit (check_texts parse sources) = 0 \<longleftrightarrow>
     (\<nexists>content n. source_in content sources \<and> node_in n (parse content) \<and> untranslated_node n)"
proof -
  have "concat (map (\<lambda>(path, content). visit path (parse content)) (files [] sources)) = [] \<longleftrightarrow>
      (\<nexists>content. content \<in> snd ` set (files [] sources) \<and> (\<exists>n. node_in n (parse content) \<and> untranslated_node n))"
    using visit_exact by (fastforce simp: case_prod_unfold)
  then show ?thesis by (simp add: check_texts_def files_exact Let_def)
qed

end
