(* ===== verification/Browser_Effects.thy ===== *)
theory Browser_Effects
  imports Message_View
begin

text \<open>
  Two hooks whose effects outlive a render. \<open>hooks/useFaviconBadge.ts\<close> shows the number of unread messages in the
  title and, drawn asynchronously, on the icon: drawings finish in any order, and one that is out of
  date must not be shown. \<open>hooks/useFullscreenDialog.ts\<close> closes the full-screen preview after an
  animation, with a timer in case the animation never finishes. Both are step relations; the canvas
  and the animation are the browser's.
\<close>

section \<open>The badge\<close>

text \<open>What is drawn on the canvas, command by command; \<open>data_url\<close> is the canvas's \<open>toDataURL\<close>.\<close>

datatype canvas_op =
    Draw_icon int int int int
  | Begin_path
  | Arc int int int
  | Fill_style string
  | Fill
  | Line_width int
  | Stroke_style string
  | Stroke
  | Font string
  | Text_align string
  | Text_baseline string
  | Fill_text string int int

definition icon_size :: int where "icon_size = 64"

definition iconUrl :: string where "iconUrl = ''/favicon.svg''"

definition badge_ops :: "nat \<Rightarrow> canvas_op list" where
  "badge_ops count =
     (let r = 19; x = icon_size - r; y = r in
      [Draw_icon 0 0 icon_size icon_size, Begin_path, Arc x y r, Fill_style ''#ef4444'', Fill, Line_width 4,
       Stroke_style ''#ffffff'', Stroke, Fill_style ''#ffffff'',
       Font (''bold '' @ (if 9 < count then ''20'' else ''26'') @ ''px system-ui, sans-serif''), Text_align ''center'',
       Text_baseline ''middle'', Fill_text (badge_text count) x (y + 1)])"

text \<open>What the browser offers: whether the icon loads, whether there is a canvas context.\<close>

record canvas_env =
  ce_icon :: bool
  ce_context :: bool
  ce_data_url :: "canvas_op list \<Rightarrow> string"

text \<open>\<open>None\<close>: the promise is rejected.\<close>

definition drawBadge :: "canvas_env \<Rightarrow> nat \<Rightarrow> string option" where
  "drawBadge ce count = (if \<not> ce_icon ce \<or> \<not> ce_context ce then None else Some (ce_data_url ce (badge_ops count)))"

record drawing =
  dw_id :: nat
  dw_count :: nat
  dw_cancelled :: bool

record favicon =
  fv_title :: string
  fv_link :: "string \<times> string"
  fv_count :: nat
  fv_drawings :: "drawing list"
  fv_started :: nat

definition plain_icon :: "string \<times> string" where "plain_icon = (''image/svg+xml'', iconUrl)"

text \<open>The effect for a new count, after the clean-up of the previous one.\<close>

definition useFaviconBadge :: "nat \<Rightarrow> favicon \<Rightarrow> favicon" where
  "useFaviconBadge count s =
     (let s = s\<lparr>fv_title := page_title count ''Mailpeek'', fv_count := count,
              fv_drawings := map (\<lambda>d. d\<lparr>dw_cancelled := True\<rparr>) (fv_drawings s)\<rparr> in
      if count = 0 then s\<lparr>fv_link := plain_icon\<rparr>
      else s\<lparr>fv_drawings := fv_drawings s @ [\<lparr>dw_id = fv_started s, dw_count = count, dw_cancelled = False\<rparr>],
             fv_started := fv_started s + 1\<rparr>)"

definition badge_drawn :: "canvas_env \<Rightarrow> drawing \<Rightarrow> favicon \<Rightarrow> favicon" where
  "badge_drawn ce d s =
     (let s = s\<lparr>fv_drawings := filter (\<lambda>x. dw_id x \<noteq> dw_id d) (fv_drawings s)\<rparr> in
      case drawBadge ce (dw_count d) of
        None \<Rightarrow> s
      | Some href \<Rightarrow> if dw_cancelled d then s else s\<lparr>fv_link := (''image/png'', href)\<rparr>)"

definition first_icon :: favicon where
  "first_icon = useFaviconBadge 0 \<lparr>fv_title = ''Mailpeek'', fv_link = plain_icon, fv_count = 0, fv_drawings = [], fv_started = 0\<rparr>"

inductive badge_reachable :: "canvas_env \<Rightarrow> favicon \<Rightarrow> bool" for ce where
  badge_start: "badge_reachable ce first_icon"
| badge_count: "badge_reachable ce s \<Longrightarrow> badge_reachable ce (useFaviconBadge n s)"
| badge_done: "badge_reachable ce s \<Longrightarrow> d \<in> set (fv_drawings s) \<Longrightarrow> badge_reachable ce (badge_drawn ce d s)"

definition live_drawings :: "favicon \<Rightarrow> drawing list" where
  "live_drawings s = filter (\<lambda>d. \<not> dw_cancelled d) (fv_drawings s)"

text \<open>The icon for a count: plain for none, and where the browser cannot draw.\<close>

definition badge_link :: "canvas_env \<Rightarrow> nat \<Rightarrow> string \<times> string" where
  "badge_link ce n = (if 0 < n \<and> ce_icon ce \<and> ce_context ce then (''image/png'', ce_data_url ce (badge_ops n)) else plain_icon)"

definition badge_ok :: "canvas_env \<Rightarrow> favicon \<Rightarrow> bool" where
  "badge_ok ce s \<longleftrightarrow>
     distinct (map dw_id (fv_drawings s)) \<and> list_all (\<lambda>d. dw_id d < fv_started s) (fv_drawings s) \<and>
     fv_title s = page_title (fv_count s) ''Mailpeek'' \<and>
     (\<not> (ce_icon ce \<and> ce_context ce) \<longrightarrow> fv_link s = plain_icon) \<and>
     (case live_drawings s of
        [] \<Rightarrow> fv_link s = badge_link ce (fv_count s)
      | [d] \<Rightarrow> dw_count d = fv_count s \<and> 0 < fv_count s
      | _ \<Rightarrow> False)"

lemma useFaviconBadge_ok:
  assumes "badge_ok ce s"
  shows "badge_ok ce (useFaviconBadge n s)"
proof -
  have *: "dw_id \<circ> (\<lambda>d. d\<lparr>dw_cancelled := True\<rparr>) = dw_id" by (simp add: fun_eq_iff)
  from assms have "distinct (map dw_id (fv_drawings s))" "\<forall>d \<in> set (fv_drawings s). dw_id d < fv_started s"
    "\<not> (ce_icon ce \<and> ce_context ce) \<Longrightarrow> fv_link s = plain_icon"
    by (auto simp: badge_ok_def list_all_iff)
  then show ?thesis
    by (auto simp: badge_ok_def useFaviconBadge_def live_drawings_def Let_def badge_link_def list_all_iff * filter_map comp_def)
qed

lemma badge_drawn_ok:
  assumes ok: "badge_ok ce s" and d: "d \<in> set (fv_drawings s)"
  shows "badge_ok ce (badge_drawn ce d s)"
proof -
  let ?s = "badge_drawn ce d s"
  have ds: "fv_drawings ?s = filter (\<lambda>x. dw_id x \<noteq> dw_id d) (fv_drawings s)" "fv_count ?s = fv_count s"
    "fv_title ?s = fv_title s" "fv_started ?s = fv_started s"
    by (simp_all add: badge_drawn_def Let_def split: option.split)
  have live: "live_drawings ?s = filter (\<lambda>x. dw_id x \<noteq> dw_id d) (live_drawings s)"
    by (simp add: live_drawings_def ds conj_commute)
  have same: "x = d" if "x \<in> set (live_drawings s)" "dw_id x = dw_id d" for x
    using that d ok by (auto simp: live_drawings_def badge_ok_def dest!: map_of_is_SomeI intro: inj_onD [of dw_id] simp: distinct_map)
  show ?thesis
  proof (cases "dw_cancelled d")
    case True
    have "filter (\<lambda>x. dw_id x \<noteq> dw_id d) (live_drawings s) = live_drawings s"
      using same True by (intro filter_True) (auto simp: live_drawings_def)
    moreover have "fv_link ?s = fv_link s" using True by (simp add: badge_drawn_def Let_def split: option.split)
    ultimately show ?thesis using ok
      by (auto simp: badge_ok_def ds live distinct_map_filter list_all_iff split: list.split option.split)
  next
    case False
    with d have "d \<in> set (live_drawings s)" by (simp add: live_drawings_def)
    with ok have l: "live_drawings s = [d]" "dw_count d = fv_count s" "0 < fv_count s"
      by (auto simp: badge_ok_def split: list.splits)
    moreover have "fv_link ?s = badge_link ce (fv_count s)" "\<not> (ce_icon ce \<and> ce_context ce) \<longrightarrow> fv_link ?s = plain_icon"
      using l False ok by (auto simp: badge_link_def badge_ok_def badge_drawn_def drawBadge_def Let_def)
    ultimately show ?thesis using ok by (auto simp: badge_ok_def ds live distinct_map_filter list_all_iff)
  qed
qed

lemma badge_reachable_ok: "badge_reachable ce s \<Longrightarrow> badge_ok ce s"
proof (induction rule: badge_reachable.induct)
  case badge_start
  show ?case unfolding first_icon_def
    by (rule useFaviconBadge_ok) (simp add: badge_ok_def live_drawings_def badge_link_def page_title_def)
qed (simp_all add: useFaviconBadge_ok badge_drawn_ok)

section \<open>The full-screen dialog\<close>

text \<open>
  The preview with its dialog: whether the timer of 700 milliseconds runs and whether the closing animation
  has its callback. \<open>can_animate\<close>: there is an element to shrink to and no preference for less motion.
\<close>

record dialog =
  dl_preview :: preview
  dl_timer :: bool
  dl_onfinish :: bool

text \<open>\<open>onClosed\<close> unmounts the dialog, whose clean-up takes the callback off and stops the timer.\<close>

definition dialog_done :: "dialog \<Rightarrow> dialog" where
  "dialog_done s = s\<lparr>dl_preview := preview_closed (dl_preview s), dl_timer := False, dl_onfinish := False\<rparr>"

text \<open>The effect on \<open>closing\<close>: run when it changes, after the clean-up of the previous one.\<close>

definition closing_effect :: "bool \<Rightarrow> dialog \<Rightarrow> dialog" where
  "closing_effect can_animate s =
     (let s = s\<lparr>dl_timer := False, dl_onfinish := False\<rparr> in
      if pv_fullscreen (dl_preview s) \<noteq> Closing then s
      else if \<not> can_animate then dialog_done s
      else s\<lparr>dl_timer := True, dl_onfinish := True\<rparr>)"

definition dialog_act :: "bool \<Rightarrow> action \<Rightarrow> dialog \<Rightarrow> dialog" where
  "dialog_act can_animate a s =
     (let s' = s\<lparr>dl_preview := preview_act a (dl_preview s)\<rparr> in
      if (pv_fullscreen (dl_preview s') = Closing) = (pv_fullscreen (dl_preview s) = Closing) then s'
      else closing_effect can_animate s')"

text \<open>Actions come from the buttons on the page: the dialog's only while it is there.\<close>

inductive dialog_reachable :: "dialog \<Rightarrow> bool" where
  dialog_start: "dialog_reachable \<lparr>dl_preview = usePreview, dl_timer = False, dl_onfinish = False\<rparr>"
| dialog_pressed: "dialog_reachable s \<Longrightarrow> a = Close_fullscreen \<longrightarrow> pv_fullscreen (dl_preview s) \<noteq> Closed \<Longrightarrow>
    dialog_reachable (dialog_act can_animate a s)"
| dialog_timer: "dialog_reachable s \<Longrightarrow> dl_timer s \<Longrightarrow> dialog_reachable (dialog_done s)"
| dialog_finished: "dialog_reachable s \<Longrightarrow> dl_onfinish s \<Longrightarrow> dialog_reachable (dialog_done s)"

lemma dialog_reachable_ok:
  "dialog_reachable s \<Longrightarrow> (dl_timer s \<longleftrightarrow> pv_fullscreen (dl_preview s) = Closing) \<and> (dl_onfinish s \<longleftrightarrow> dl_timer s)"
  by (induction rule: dialog_reachable.induct)
     (auto simp: usePreview_def dialog_done_def preview_closed_def dialog_act_def closing_effect_def Let_def)

section \<open>The properties\<close>

text \<open>
  C26: The title always shows the current number of unread messages, and the icon never shows a number that is out of date
  for good: whatever the order in which drawings finish, once the one for the current number is not under
  way any more the icon is the badge of that number, or the plain icon when there is none or when the
  browser cannot draw (the icon does not load, or there is no canvas).
\<close>

theorem badge_is_current:
  assumes "badge_reachable ce s"
  shows "fv_title s = page_title (fv_count s) ''Mailpeek'' \<and>
    (live_drawings s = [] \<longrightarrow> fv_link s =
       (if 0 < fv_count s \<and> ce_icon ce \<and> ce_context ce then (''image/png'', ce_data_url ce (badge_ops (fv_count s))) else plain_icon))"
  using badge_reachable_ok [OF assms] by (auto simp: badge_ok_def badge_link_def)

theorem badge_is_current_witness:
  "\<exists>s :: favicon. fv_count s = 2 \<and> fv_link s = (''image/png'', ''2'')"
proof -
  define ce where "ce = \<lparr>ce_icon = True, ce_context = True,
    ce_data_url = (\<lambda>ops. case last ops of Fill_text t _ _ \<Rightarrow> t | _ \<Rightarrow> [])\<rparr>"
  define s1 where "s1 = useFaviconBadge 2 (useFaviconBadge 1 first_icon)"
  let ?d1 = "\<lparr>dw_id = 0, dw_count = 1, dw_cancelled = True\<rparr>" and ?d2 = "\<lparr>dw_id = 1, dw_count = 2, dw_cancelled = False\<rparr>"
  have s1: "fv_drawings s1 = [?d1, ?d2]" by (simp add: s1_def useFaviconBadge_def first_icon_def Let_def)
  define s where "s = badge_drawn ce ?d1 (badge_drawn ce ?d2 s1)"
  have "fv_drawings (badge_drawn ce ?d2 s1) = [?d1]" by (simp add: badge_drawn_def Let_def s1 split: option.split)
  moreover have "badge_reachable ce s1"
    unfolding s1_def by (intro badge_count badge_start)
  ultimately have r: "badge_reachable ce s"
    unfolding s_def by (intro badge_done) (simp_all add: s1)
  have l: "live_drawings s = []"
    by (simp add: s_def live_drawings_def badge_drawn_def Let_def s1 split: option.split)
  have "fv_count s = 2" by (simp add: s_def s1_def badge_drawn_def useFaviconBadge_def Let_def split: option.split)
  moreover have "ce_icon ce" "ce_context ce" "ce_data_url ce (badge_ops 2) = ''2''"
    by (simp_all add: ce_def badge_ops_def Let_def badge_text_def show_nat_eval digit_char_numeral js_eval)
  ultimately show ?thesis using badge_is_current [OF r] l by (intro exI [of _ s]) simp
qed

text \<open>
  The full-screen preview never hangs while closing: as long as it is closing the timer runs, and only then, and
  when the timer or the animation ends it is closed with nothing left running.
\<close>

theorem closing_ends:
  assumes "dialog_reachable s"
  shows "(dl_timer s \<longleftrightarrow> pv_fullscreen (dl_preview s) = Closing) \<and> (dl_onfinish s \<longleftrightarrow> dl_timer s) \<and>
    pv_fullscreen (dl_preview (dialog_done s)) = Closed \<and> \<not> dl_timer (dialog_done s) \<and> \<not> dl_onfinish (dialog_done s)"
  using dialog_reachable_ok [OF assms] by (simp add: dialog_done_def preview_closed_def)

end
