(* ===== verification/Interaction.thy ===== *)
theory Interaction
  imports Ui_State
begin

text \<open>
  How the page reacts to its reader: the keyboard shortcuts with what they do to the layout, the
  selection and the server (\<open>web/src/hooks/useLayoutState.ts\<close>, \<open>useKeyboardShortcuts.ts\<close>), the
  listbox menu with the focus and its listener (\<open>useListboxMenu.ts\<close>), the handle that resizes the list
  (\<open>useResizeHandle.ts\<close>), the sound (\<open>lib/sound.ts\<close>, \<open>useSoundSetting.ts\<close>) and copying
  (\<open>useCopyToClipboard.ts\<close>). The browser's events are the steps.
\<close>

section \<open>Layout and shortcuts\<close>

record desk =
  dk_layout :: layout
  dk_page :: inbox_page
  dk_storage :: storage
  dk_searchFocused :: bool

definition hidden_key :: string where "hidden_key = ''mailpeek:sidebar-hidden''"
definition collapsed_key :: string where "collapsed_key = ''mailpeek:header-collapsed''"

definition useLayoutState :: "inbox_page \<Rightarrow> storage \<Rightarrow> desk" where
  "useLayoutState p s =
     (let (listHidden, s1) = useStoredToggle hidden_key False s;
          (detailsCollapsed, s2) = useStoredToggle collapsed_key False s1
      in \<lparr>dk_layout = \<lparr>ly_tab = Html, ly_showDetail = False, ly_listHidden = listHidden,
            ly_detailsCollapsed = detailsCollapsed, ly_resizing = False\<rparr>,
          dk_page = p, dk_storage = s2, dk_searchFocused = False\<rparr>)"

text \<open>
  What changes the selection is followed by a render, whose effect asks the server for the message now selected
  unless it is cached (\<open>useMessage\<close>): the request is in the list of fetches until \<open>desk_answered\<close>.
\<close>

definition desk_render :: "desk \<Rightarrow> desk" where
  "desk_render d = d\<lparr>dk_page := page_render (dk_page d)\<rparr>"

definition desk_open :: "string \<Rightarrow> desk \<Rightarrow> desk" where
  "desk_open i d = (case layout_open i (dk_layout d, ip_selection (dk_page d)) of (l, sel) \<Rightarrow>
     desk_render (d\<lparr>dk_layout := l, dk_page := (dk_page d)\<lparr>ip_selection := sel\<rparr>\<rparr>))"

text \<open>The server answers the \<open>k\<close>-th request for a message.\<close>

definition desk_answered :: "'w fetcher \<Rightarrow> nat \<Rightarrow> desk \<times> 'w \<times> browser \<Rightarrow> desk \<times> 'w \<times> browser" where
  "desk_answered fetch k = (\<lambda>(d, s).
     if length (mk_fetches (ip_message (dk_page d))) \<le> k then (d, s)
     else (case web_getMessage fetch (fst (mk_fetches (ip_message (dk_page d)) ! k)) s of (r, s') \<Rightarrow>
       (d\<lparr>dk_page := (dk_page d)\<lparr>ip_message := message_settle k r (ip_message (dk_page d))\<rparr>\<rparr>, s')))"

definition desk_back :: "desk \<Rightarrow> desk" where
  "desk_back d = d\<lparr>dk_layout := layout_back (dk_layout d)\<rparr>"

definition setTab :: "tab \<Rightarrow> desk \<Rightarrow> desk" where
  "setTab t d = d\<lparr>dk_layout := (dk_layout d)\<lparr>ly_tab := t\<rparr>\<rparr>"

definition toggleList :: "desk \<Rightarrow> desk" where
  "toggleList d = (case flip_toggle hidden_key (ly_listHidden (dk_layout d), dk_storage d) of (v, s) \<Rightarrow>
     d\<lparr>dk_layout := (dk_layout d)\<lparr>ly_listHidden := v\<rparr>, dk_storage := s\<rparr>)"

definition toggleDetails :: "desk \<Rightarrow> desk" where
  "toggleDetails d = (case flip_toggle collapsed_key (ly_detailsCollapsed (dk_layout d), dk_storage d) of (v, s) \<Rightarrow>
     d\<lparr>dk_layout := (dk_layout d)\<lparr>ly_detailsCollapsed := v\<rparr>, dk_storage := s\<rparr>)"

definition desk_ids :: "desk \<Rightarrow> string list" where
  "desk_ids d = map ws_id (page_messages (dk_page d))"

definition desk_action :: "'w fetcher \<Rightarrow> shortcut \<Rightarrow> desk \<times> 'w \<times> browser \<Rightarrow> desk \<times> 'w \<times> browser" where
  "desk_action fetch a = (\<lambda>(d, s). case a of
     Open_message i \<Rightarrow> (desk_open i d, s)
   | Focus_search \<Rightarrow> (d\<lparr>dk_searchFocused := True\<rparr>, s)
   | Toggle_list \<Rightarrow> (toggleList d, s)
   | Remove_message i \<Rightarrow> (case page_remove fetch i (dk_page d) s of (p, s') \<Rightarrow> (desk_render (d\<lparr>dk_page := p\<rparr>), s')))"

text \<open>A key press anywhere on the page.\<close>

definition keydown :: "'w fetcher \<Rightarrow> key_event \<Rightarrow> desk \<times> 'w \<times> browser \<Rightarrow> desk \<times> 'w \<times> browser" where
  "keydown fetch e ds = (case onKey (desk_ids (fst ds)) (page_selected (dk_page (fst ds))) e of
     (None, _) \<Rightarrow> ds | (Some a, _) \<Rightarrow> desk_action fetch a ds)"

section \<open>The menu on the page\<close>

text \<open>Where the focus is: on the button, on an option of the open list, or outside the menu.\<close>

datatype focus = On_trigger | On_option int | Outside

record listbox =
  lb_menu :: menu
  lb_focus :: focus
  lb_listening :: bool
  lb_chosen :: "string list"

definition useListboxMenu :: listbox where
  "useListboxMenu = \<lparr>lb_menu = \<lparr>mn_open = False, mn_active = 0\<rparr>, lb_focus = Outside, lb_listening = False, lb_chosen = []\<rparr>"

text \<open>
  A new state is rendered, and the effects whose dependencies changed run: the active option of an open menu
  is focused, and the listener on the document is there exactly for an open one. The options are in
  the document only while the menu is open: a focused one that goes takes the focus with it.
\<close>

definition menu_commit :: "string list \<Rightarrow> menu \<Rightarrow> listbox \<Rightarrow> listbox" where
  "menu_commit options m b =
     (let gone = ((case lb_focus b of On_option _ \<Rightarrow> True | _ \<Rightarrow> False) \<and> \<not> mn_open m);
          b1 = b\<lparr>lb_menu := m, lb_focus := (if gone then Outside else lb_focus b)\<rparr>;
          changed = (mn_open m, mn_active m) \<noteq> (mn_open (lb_menu b), mn_active (lb_menu b));
          b2 = (if changed \<and> mn_open m \<and> at_index options (mn_active m) \<noteq> None
                then b1\<lparr>lb_focus := On_option (mn_active m)\<rparr> else b1)
      in if mn_open m \<noteq> mn_open (lb_menu b) then b2\<lparr>lb_listening := mn_open m\<rparr> else b2)"

text \<open>\<open>hide(true)\<close> moves the focus to the button before the state is rendered.\<close>

definition hide_refocus :: "string list \<Rightarrow> listbox \<Rightarrow> listbox" where
  "hide_refocus options b = menu_commit options (menu_hide (lb_menu b)) (b\<lparr>lb_focus := On_trigger\<rparr>)"

inductive menu_step :: "string list \<Rightarrow> string \<Rightarrow> listbox \<Rightarrow> listbox \<Rightarrow> bool" for options val where
  click_trigger: "menu_step options val b (menu_commit options (menu_toggle options val (lb_menu b)) (b\<lparr>lb_focus := On_trigger\<rparr>))"
| trigger_key: "lb_focus b = On_trigger \<Longrightarrow>
    menu_step options val b (menu_commit options (onTriggerKeyDown options val k (lb_menu b)) b)"
| list_key: "lb_focus b = On_option i \<Longrightarrow> k \<noteq> ''Escape'' \<Longrightarrow>
    menu_step options val b (menu_commit options (onListKeyDown options k (lb_menu b)) b)"
| escape_key: "lb_focus b = On_option i \<Longrightarrow> menu_step options val b (hide_refocus options b)"
| choose_option: "mn_open (lb_menu b) \<Longrightarrow> choice \<in> set options \<Longrightarrow>
    menu_step options val b (hide_refocus options (b\<lparr>lb_chosen := lb_chosen b @ [choice]\<rparr>))"
| pointer_outside: "lb_listening b \<Longrightarrow> menu_step options val b (menu_commit options (menu_outside False (lb_menu b)) b)"
| focus_outside: "menu_step options val b (menu_commit options (menu_outside False (lb_menu b)) (b\<lparr>lb_focus := Outside\<rparr>))"
| focus_trigger: "menu_step options val b (b\<lparr>lb_focus := On_trigger\<rparr>)"

inductive menu_reachable :: "string list \<Rightarrow> string \<Rightarrow> listbox \<Rightarrow> bool" for options val where
  menu_begin: "menu_reachable options val useListboxMenu"
| menu_further: "menu_reachable options val b \<Longrightarrow> menu_step options val b b' \<Longrightarrow> menu_reachable options val b'"

inductive_cases menu_step_cases: "menu_step options val b b'"

section \<open>The handle\<close>

text \<open>
  The drag under way, whether the handle is on the page, what \<open>onDraggingChange\<close> told the layout, the
  class on the document's element, and the preferred width. The drag is state of the component and goes
  with it.
\<close>

record handle =
  rh_drag :: "drag option"
  rh_mounted :: bool
  rh_resizing :: bool
  rh_class :: bool
  rh_preferred :: int

definition setDragging :: "drag option \<Rightarrow> handle \<Rightarrow> handle" where
  "setDragging d h = h\<lparr>rh_drag := d, rh_resizing := (d \<noteq> None), rh_class := (d \<noteq> None)\<rparr>"

definition handle_endDrag :: "handle \<Rightarrow> handle" where
  "handle_endDrag h = (if rh_drag h \<noteq> None then setDragging (endDrag (rh_drag h)) h else h)"

definition onResize :: "int \<Rightarrow> rat \<Rightarrow> handle \<Rightarrow> handle" where
  "onResize innerWidth w h = h\<lparr>rh_preferred := setWidth innerWidth w\<rparr>"

datatype handle_event = Pointer_down int rat | Pointer_move rat | Pointer_up | Pointer_cancel | Double_click
  | Key_down string | Unmount | Mount

definition handle_step :: "int \<Rightarrow> handle_event \<Rightarrow> handle \<Rightarrow> handle" where
  "handle_step innerWidth e h = (case e of
     Mount \<Rightarrow> if rh_mounted h then h else h\<lparr>rh_mounted := True, rh_drag := None\<rparr>
   | _ \<Rightarrow> if \<not> rh_mounted h then h else (case e of
       Pointer_down button x \<Rightarrow> if button \<noteq> 0 then h
         else setDragging (onPointerDown button x (sidebar_width (rh_preferred h) innerWidth) (rh_drag h)) h
     | Pointer_move x \<Rightarrow> (case onPointerMove x (rh_drag h) of None \<Rightarrow> h | Some w \<Rightarrow> onResize innerWidth w h)
     | Pointer_up \<Rightarrow> handle_endDrag h
     | Pointer_cancel \<Rightarrow> handle_endDrag h
     | Double_click \<Rightarrow> onResize innerWidth (of_int sidebarDefault) h
     | Key_down k \<Rightarrow> (case onKeyDown_resize k (sidebar_width (rh_preferred h) innerWidth) of
         None \<Rightarrow> h | Some w \<Rightarrow> onResize innerWidth (of_int w) h)
     | Unmount \<Rightarrow> h\<lparr>rh_mounted := False, rh_drag := None\<rparr>
     | Mount \<Rightarrow> h))"

definition handle_run :: "int \<Rightarrow> handle_event list \<Rightarrow> handle \<Rightarrow> handle" where
  "handle_run innerWidth es h = fold (handle_step innerWidth) es h"

definition useResizeHandle :: "int \<Rightarrow> handle" where
  "useResizeHandle preferred =
     \<lparr>rh_drag = None, rh_mounted = True, rh_resizing = False, rh_class = False, rh_preferred = preferred\<rparr>"

section \<open>Sound\<close>

datatype audio_state = Suspended | Running | Closed

text \<open>A note: its frequency, when it starts and stops, and the gain over time.\<close>

record sound_note =
  nt_frequency :: rat
  nt_start :: rat
  nt_stop :: rat
  nt_gain :: "(rat \<times> rat) list"

record audio =
  au_ctx :: "audio_state option"
  au_resuming :: bool
  au_lastPlayed :: int
  au_played :: "int list"
  au_notes :: "sound_note list"

definition silent :: audio where
  "silent = \<lparr>au_ctx = None, au_resuming = False, au_lastPlayed = 0, au_played = [], au_notes = []\<rparr>"

text \<open>\<open>created\<close>: the state of a new \<open>AudioContext\<close>, \<open>None\<close> when making one throws.\<close>

definition unlockAudio :: "audio_state option \<Rightarrow> audio \<Rightarrow> audio" where
  "unlockAudio created a =
     (let a = (if au_ctx a = None then a\<lparr>au_ctx := created\<rparr> else a)
      in if au_ctx a = Some Suspended then a\<lparr>au_resuming := True\<rparr> else a)"

text \<open>The browser grants a resumption that was asked for.\<close>

definition audio_resumed :: "audio \<Rightarrow> audio" where
  "audio_resumed a = (if au_resuming a \<and> au_ctx a = Some Suspended then a\<lparr>au_ctx := Some Running, au_resuming := False\<rparr> else a)"

definition chime_note :: "rat \<Rightarrow> rat \<times> rat \<Rightarrow> sound_note" where
  "chime_note start n = (case n of (frequency, delay) \<Rightarrow> (let t = start + delay in
     \<lparr>nt_frequency = frequency, nt_start = t, nt_stop = t + 4 / 10,
      nt_gain = [(1 / 10000, t), (12 / 100, t + 1 / 100), (1 / 10000, t + 35 / 100)]\<rparr>))"

definition playChime :: "int \<Rightarrow> rat \<Rightarrow> audio \<Rightarrow> audio" where
  "playChime now currentTime a =
     (if au_ctx a \<noteq> Some Running \<or> now - au_lastPlayed a < 1000 then a
      else a\<lparr>au_lastPlayed := now, au_played := au_played a @ [now],
        au_notes := au_notes a @ map (chime_note currentTime) [(65925 / 100, 0), (880, 9 / 100)]\<rparr>)"

definition sound_key :: string where "sound_key = ''mailpeek:sound''"

text \<open>The setting, and what a press of a key or the pointer does: there is a listener only while it is on.\<close>

definition useSoundSetting :: "storage \<Rightarrow> bool \<times> storage" where
  "useSoundSetting s = useStoredToggle sound_key True s"

definition sound_gesture :: "bool \<Rightarrow> audio_state option \<Rightarrow> audio \<Rightarrow> audio" where
  "sound_gesture enabled created a = (if enabled then unlockAudio created a else a)"

definition chime :: "bool \<Rightarrow> int \<Rightarrow> rat \<Rightarrow> audio \<Rightarrow> audio" where
  "chime enabled now currentTime a = (if enabled then playChime now currentTime a else a)"

text \<open>The steps: an event of the server rings, the reader does something, the setting changes, the browser resumes.\<close>

datatype sound_event = Rings int rat | Gesture "audio_state option" | Sound_toggled | Resumed

fun sound_run :: "sound_event list \<Rightarrow> bool \<Rightarrow> audio \<Rightarrow> bool \<times> audio" where
  "sound_run [] enabled a = (enabled, a)"
| "sound_run (Rings now t # es) enabled a = sound_run es enabled (chime enabled now t a)"
| "sound_run (Gesture created # es) enabled a = sound_run es enabled (sound_gesture enabled created a)"
| "sound_run (Sound_toggled # es) enabled a = sound_run es (\<not> enabled) a"
| "sound_run (Resumed # es) enabled a = sound_run es enabled (audio_resumed a)"

section \<open>Copying\<close>

text \<open>The clipboard, whether the page may use its interface, and whether the browser lets it write.\<close>

record clipboard =
  cb_content :: string
  cb_api :: bool
  cb_secure :: bool
  cb_writable :: bool

text \<open>\<open>False\<close> when the promise rejects; \<open>execCommand\<close> reports a failure only in its result.\<close>

definition writeClipboard :: "string \<Rightarrow> clipboard \<Rightarrow> bool \<times> clipboard" where
  "writeClipboard val c =
     (let written = (if cb_writable c then c\<lparr>cb_content := val\<rparr> else c)
      in if cb_api c \<and> cb_secure c then (cb_writable c, written) else (True, written))"

record copying =
  cp_copied :: bool
  cp_timer :: bool

definition copy :: "string \<Rightarrow> copying \<times> clipboard \<Rightarrow> copying \<times> clipboard" where
  "copy val = (\<lambda>(s, c). case writeClipboard val c of
     (False, c') \<Rightarrow> (s, c') | (True, c') \<Rightarrow> (\<lparr>cp_copied = True, cp_timer = True\<rparr>, c'))"

definition copy_reset :: "copying \<Rightarrow> copying" where
  "copy_reset c = (if cp_timer c then \<lparr>cp_copied = False, cp_timer = False\<rparr> else c)"

section \<open>Walking the list\<close>

definition plain_key :: "string \<Rightarrow> key_event" where
  "plain_key k = \<lparr>ke_key = k, ke_meta = False, ke_ctrl = False, ke_alt = False, ke_ignored = False\<rparr>"

lemma findIndex_distinct:
  assumes "distinct xs" "i < length xs"
  shows "findIndex (\<lambda>x. x = xs ! i) xs = int i"
proof -
  have "xs ! i \<notin> set (take i xs)" using assms by (auto simp: in_set_conv_nth nth_eq_iff_index_eq)
  then have "findIndex (\<lambda>x. x = xs ! i) (take i xs @ xs ! i # drop (Suc i) xs) = int (length (take i xs))"
    by (intro findIndex_split) auto
  with assms(2) show ?thesis by (simp flip: id_take_nth_drop)
qed

lemma move_to:
  assumes "distinct ids" "[] \<notin> set ids" "i < length ids"
  shows "move ids (Some (ids ! i)) delta =
    Some (Open_message (ids ! nat (min (max (int i + delta) 0) (int (length ids) - 1))))"
proof -
  let ?j = "min (max (int i + delta) 0) (int (length ids) - 1)"
  have j: "0 \<le> ?j" "?j < int (length ids)" using assms(3) by auto
  then have "ids ! nat ?j \<in> set ids" "ids ! i \<in> set ids" using assms(3) by (auto simp: nat_less_iff intro!: nth_mem)
  then have "ids ! nat ?j \<noteq> []" "ids ! i \<noteq> []" using assms(2) by metis+
  moreover have "at_index ids ?j = Some (ids ! nat ?j)" using j by (simp add: at_index_def)
  ultimately show ?thesis
    by (simp add: move_def truthy_def findIndex_distinct [OF assms(1,3)] Let_def)
qed

lemma render_simps [simp]:
  "page_messages (page_render p) = page_messages p" "page_selected (page_render p) = page_selected p"
  "dk_layout (desk_render d) = dk_layout d" "dk_page (desk_render d) = page_render (dk_page d)"
  by (simp_all add: page_render_def desk_render_def page_selected_def page_messages_def selectedId_render Let_def)

text \<open>
  The message pane follows the selection: it is for the selected message, the only request that was not cancelled
  is for that message, and that message is cached, asked for, or was answered.
\<close>

definition pane_follows :: "inbox_page \<Rightarrow> bool" where
  "pane_follows p \<longleftrightarrow> mk_id (ip_message p) = page_selected p \<and>
     (\<forall>(i, cancelled) \<in> set (mk_fetches (ip_message p)). \<not> cancelled \<longrightarrow> page_selected p = Some i) \<and>
     (\<forall>i. page_selected p = Some i \<longrightarrow> map_of (mk_cache (ip_message p)) i \<noteq> None \<or>
        (i, False) \<in> set (mk_fetches (ip_message p)) \<or> sm_id (mk_state (ip_message p)) = Some i)"

lemma map_of_filter_key: "P i \<Longrightarrow> map_of (filter (\<lambda>(k, _). P k) xs) i = map_of xs i"
  by (induction xs) auto

lemma selected_member: "page_selected p = Some i \<Longrightarrow> i \<in> set (map ws_id (page_messages p))"
  using selectedId_cases [of "page_messages p" "ip_selection p"] by (simp add: page_selected_def)

lemma render_follows:
  assumes "[] \<notin> set (map ws_id (page_messages p))" "mk_id (ip_message p) = page_selected p \<Longrightarrow> pane_follows p"
  shows "pane_follows (page_render p)"
proof -
  let ?ids = "map ws_id (page_messages p)" and ?mk = "ip_message p" and ?sel = "page_selected p"
  have m: "ip_message (page_render p) = pruneMessageCache ?ids (if mk_id ?mk = ?sel then ?mk else message_effect ?sel ?mk)"
    by (simp add: page_render_def page_selected_def page_messages_def selectedId_render Let_def)
  have kept: "map_of (filter (\<lambda>(k, _). k \<in> set ?ids) c) i = map_of c i" if "?sel = Some i" for c :: "(string \<times> web_message) list" and i
    by (rule map_of_filter_key) (rule selected_member [OF that])
  have ne: "?sel = Some i \<Longrightarrow> i \<noteq> []" for i using selected_member [of p i] assms(1) by metis
  show ?thesis
  proof (cases "mk_id ?mk = ?sel")
    case True
    with assms(2) kept show ?thesis unfolding pane_follows_def m by (auto simp: pruneMessageCache_def)
  next
    case False
    then show ?thesis unfolding pane_follows_def m
      using kept ne by (auto simp: pruneMessageCache_def message_effect_def Let_def truthy_def split: option.splits)
  qed
qed

lemma desk_open_selects:
  assumes "i \<in> set (desk_ids d)"
  shows "page_selected (dk_page (desk_open i d)) = Some i" "desk_ids (desk_open i d) = desk_ids d"
    "ly_showDetail (dk_layout (desk_open i d))"
  using assms selectedId_member [of i "page_messages (dk_page d)" "ip_selection (dk_page d)"]
  by (auto simp: desk_open_def layout_open_def desk_ids_def) (auto simp: page_selected_def page_messages_def)

lemma desk_open_follows:
  assumes "i \<in> set (desk_ids d)" "[] \<notin> set (desk_ids d)" "pane_follows (dk_page d)"
  shows "pane_follows (dk_page (desk_open i d))"
proof -
  obtain l sel where o: "layout_open i (dk_layout d, ip_selection (dk_page d)) = (l, sel)" by fastforce
  let ?p = "(dk_page d)\<lparr>ip_selection := sel\<rparr>"
  have "dk_page (desk_open i d) = page_render ?p" by (simp add: desk_open_def o)
  moreover have "pane_follows ?p" if "mk_id (ip_message ?p) = page_selected ?p"
    using that assms(3) by (simp add: pane_follows_def)
  moreover have "page_messages ?p = page_messages (dk_page d)" by (simp add: page_messages_def)
  ultimately show ?thesis using render_follows [of ?p] assms(2) by (simp add: desk_ids_def)
qed

definition walk_keys :: "(string \<times> int) list" where
  "walk_keys = [(''j'', 1), (''ArrowDown'', 1), (''k'', -1), (''ArrowUp'', -1)]"

lemma keydown_walk:
  assumes "(k, delta) \<in> set walk_keys" "distinct (desk_ids d)" "[] \<notin> set (desk_ids d)" "i < length (desk_ids d)"
    "page_selected (dk_page d) = Some (desk_ids d ! i)"
  shows "keydown fetch (plain_key k) (d, s) =
    (desk_open (desk_ids d ! nat (min (max (int i + delta) 0) (int (length (desk_ids d)) - 1))) d, s)"
proof -
  have "onKey (desk_ids d) (Some (desk_ids d ! i)) (plain_key k) = (move (desk_ids d) (Some (desk_ids d ! i)) delta, True)"
    using assms(1) by (auto simp: walk_keys_def onKey_def plain_key_def shortcut_of_def)
  with move_to [OF assms(2-4), of delta] assms(4,5) show ?thesis by (auto simp: keydown_def desk_action_def)
qed

fun press_times :: "nat \<Rightarrow> 'w fetcher \<Rightarrow> string \<Rightarrow> desk \<times> 'w \<times> browser \<Rightarrow> desk \<times> 'w \<times> browser" where
  "press_times 0 fetch k ds = ds"
| "press_times (Suc n) fetch k ds = press_times n fetch k (keydown fetch (plain_key k) ds)"

lemma walk_down:
  assumes "(k, 1) \<in> set walk_keys" "distinct (desk_ids d)" "[] \<notin> set (desk_ids d)" "i < length (desk_ids d)"
    "page_selected (dk_page d) = Some (desk_ids d ! i)" "pane_follows (dk_page d)"
  shows "\<exists>d'. press_times n fetch k (d, s) = (d', s) \<and> desk_ids d' = desk_ids d \<and> pane_follows (dk_page d') \<and>
    page_selected (dk_page d') = Some (desk_ids d ! min (i + n) (length (desk_ids d) - 1))"
  using assms
proof (induction n arbitrary: d i)
  case 0
  then have "min i (length (desk_ids d) - 1) = i" by simp
  with 0 show ?case by simp
next
  case (Suc n)
  let ?j = "min (i + 1) (length (desk_ids d) - 1)"
  let ?d = "desk_open (desk_ids d ! ?j) d"
  have "nat (min (max (int i + 1) 0) (int (length (desk_ids d)) - 1)) = ?j" using Suc.prems(4) by auto
  with keydown_walk [OF Suc.prems(1-5)] have k: "keydown fetch (plain_key k) (d, s) = (?d, s)" by simp
  have j: "?j < length (desk_ids d)" using Suc.prems(4) by auto
  note opened = desk_open_selects [OF nth_mem [OF j]] desk_open_follows [OF nth_mem [OF j] Suc.prems(3,6)]
  have "min (?j + n) (length (desk_ids d) - 1) = min (i + Suc n) (length (desk_ids d) - 1)" by auto
  with Suc.IH [of ?d ?j] Suc.prems opened j k show ?case by auto
qed

lemma walk_up:
  assumes "(k, -1) \<in> set walk_keys" "distinct (desk_ids d)" "[] \<notin> set (desk_ids d)" "i < length (desk_ids d)"
    "page_selected (dk_page d) = Some (desk_ids d ! i)" "pane_follows (dk_page d)"
  shows "\<exists>d'. press_times n fetch k (d, s) = (d', s) \<and> desk_ids d' = desk_ids d \<and> pane_follows (dk_page d') \<and>
    page_selected (dk_page d') = Some (desk_ids d ! (i - n))"
  using assms
proof (induction n arbitrary: d i)
  case (Suc n)
  let ?d = "desk_open (desk_ids d ! (i - 1)) d"
  have "nat (min (max (int i + -1) 0) (int (length (desk_ids d)) - 1)) = i - 1" using Suc.prems(4) by auto
  with keydown_walk [OF Suc.prems(1-5)] have k: "keydown fetch (plain_key k) (d, s) = (?d, s)" by simp
  have j: "i - 1 < length (desk_ids d)" using Suc.prems(4) by auto
  note opened = desk_open_selects [OF nth_mem [OF j]] desk_open_follows [OF nth_mem [OF j] Suc.prems(3,6)]
  from Suc.IH [of ?d "i - 1"] Suc.prems opened j k show ?case by auto
qed simp

section \<open>The menu's invariant\<close>

definition listbox_ok :: "string list \<Rightarrow> listbox \<Rightarrow> bool" where
  "listbox_ok options b \<longleftrightarrow> lb_listening b = mn_open (lb_menu b) \<and>
     (mn_open (lb_menu b) \<longrightarrow> 0 \<le> mn_active (lb_menu b) \<and> mn_active (lb_menu b) < int (length options) \<and> lb_focus b \<noteq> Outside) \<and>
     (\<forall>i. lb_focus b = On_option i \<longrightarrow> mn_open (lb_menu b) \<and> i = mn_active (lb_menu b)) \<and>
     set (lb_chosen b) \<subseteq> set options"

lemma menu_commit_ok:
  assumes "lb_listening b = mn_open (lb_menu b)" "set (lb_chosen b) \<subseteq> set options"
    "mn_open m \<Longrightarrow> 0 \<le> mn_active m \<and> mn_active m < int (length options) \<and> lb_focus b \<noteq> Outside"
    "\<And>i. lb_focus b = On_option i \<Longrightarrow> mn_open (lb_menu b) \<and> i = mn_active (lb_menu b)"
  shows "listbox_ok options (menu_commit options m b)"
  using assms by (auto simp: listbox_ok_def menu_commit_def Let_def at_index_def split: focus.splits)

lemma hide_refocus_ok:
  assumes "listbox_ok options b"
  shows "listbox_ok options (hide_refocus options b)" "lb_focus (hide_refocus options b) = On_trigger"
    "\<not> mn_open (lb_menu (hide_refocus options b))" "lb_chosen (hide_refocus options b) = lb_chosen b"
  using assms unfolding hide_refocus_def
  by (auto intro!: menu_commit_ok simp: listbox_ok_def menu_hide_def) (auto simp: menu_commit_def Let_def menu_hide_def)

lemma menu_range:
  assumes "options \<noteq> []"
  shows "0 \<le> mn_active (menu_show options val m) \<and> mn_active (menu_show options val m) < int (length options)"
    "0 \<le> mn_active m \<Longrightarrow> mn_active m < int (length options) \<Longrightarrow>
      0 \<le> mn_active (onListKeyDown options k m) \<and> mn_active (onListKeyDown options k m) < int (length options)"
proof -
  have n: "1 \<le> int (length options)" using assms by (cases options) auto
  with findIndex_lt [of "\<lambda>x. x = val" options]
  show "0 \<le> mn_active (menu_show options val m) \<and> mn_active (menu_show options val m) < int (length options)"
    using assms by (simp add: menu_show_def)
  assume "0 \<le> mn_active m" "mn_active m < int (length options)"
  with n menu_move_cases [of "length options" k "mn_active m"]
  show "0 \<le> mn_active (onListKeyDown options k m) \<and> mn_active (onListKeyDown options k m) < int (length options)"
    by (auto simp: onListKeyDown_def menu_hide_def split: option.splits)
qed

lemma menu_open_simps [simp]:
  "mn_open (menu_show options val m)" "\<not> mn_open (menu_hide m)" "mn_active (menu_hide m) = mn_active m"
  by (simp_all add: menu_show_def menu_hide_def)

lemma menu_step_ok:
  assumes "menu_step options val b b'" "options \<noteq> []" "listbox_ok options b"
  shows "listbox_ok options b'"
proof -
  note ok = assms(3) [unfolded listbox_ok_def]
  from assms(1) show ?thesis
  proof cases
    case click_trigger
    show ?thesis unfolding click_trigger
      by (rule menu_commit_ok) (use ok menu_range(1) [OF assms(2)] in \<open>auto simp: menu_toggle_def split: if_splits\<close>)
  next
    case (trigger_key k)
    show ?thesis unfolding trigger_key(1)
      by (rule menu_commit_ok)
         (use ok trigger_key(2) menu_range(1) [OF assms(2)] in \<open>auto simp: onTriggerKeyDown_def split: if_splits\<close>)
  next
    case (list_key i k)
    with ok have "0 \<le> mn_active (lb_menu b)" "mn_active (lb_menu b) < int (length options)" by auto
    note range = menu_range(2) [OF assms(2) this, of k]
    show ?thesis unfolding list_key(1) by (rule menu_commit_ok) (use ok list_key(2) range in auto)
  next
    case (escape_key i)
    with assms(3) hide_refocus_ok(1) show ?thesis by simp
  next
    case (choose_option choice)
    with ok have "listbox_ok options (b\<lparr>lb_chosen := lb_chosen b @ [choice]\<rparr>)" by (simp add: listbox_ok_def)
    with choose_option hide_refocus_ok(1) show ?thesis by simp
  next
    case pointer_outside
    show ?thesis unfolding pointer_outside(1) by (rule menu_commit_ok) (use ok in \<open>auto simp: menu_outside_def\<close>)
  next
    case focus_outside
    show ?thesis unfolding focus_outside by (rule menu_commit_ok) (use ok in \<open>auto simp: menu_outside_def\<close>)
  next
    case focus_trigger
    with ok show ?thesis by (simp add: listbox_ok_def)
  qed
qed

lemma menu_reachable_ok: "menu_reachable options val b \<Longrightarrow> options \<noteq> [] \<Longrightarrow> listbox_ok options b"
proof (induction rule: menu_reachable.induct)
  case menu_begin
  show ?case by (simp add: useListboxMenu_def listbox_ok_def)
next
  case (menu_further b b')
  show ?case by (rule menu_step_ok [OF menu_further.hyps(2) menu_further.prems menu_further.IH [OF menu_further.prems]])
qed

section \<open>The handle's flags\<close>

definition handle_ok :: "handle \<Rightarrow> bool" where
  "handle_ok h \<longleftrightarrow> rh_mounted h \<and> rh_resizing h = (rh_drag h \<noteq> None) \<and> rh_class h = (rh_drag h \<noteq> None)"

lemmas handle_defs = handle_step_def handle_endDrag_def setDragging_def endDrag_def onResize_def onPointerDown_def

lemma handle_step_ok: "handle_ok h \<Longrightarrow> e \<noteq> Unmount \<Longrightarrow> handle_ok (handle_step v e h)"
  by (cases e) (auto simp: handle_ok_def handle_defs split: option.split)

lemma handle_run_ok: "handle_ok h \<Longrightarrow> Unmount \<notin> set es \<Longrightarrow> handle_ok (handle_run v es h)"
  unfolding handle_run_def by (induction es arbitrary: h) (auto simp: handle_step_ok)

lemma handle_step_width:
  "sidebarMin \<le> rh_preferred h \<and> rh_preferred h \<le> sidebarMax \<Longrightarrow>
   sidebarMin \<le> rh_preferred (handle_step v e h) \<and> rh_preferred (handle_step v e h) \<le> sidebarMax"
  using fit_bounds [of "bound w" v for w] bound_bounds
  by (cases e) (auto simp: handle_defs setWidth_def split: option.split)

text \<open>Without a new press of the pointer nothing takes the class off again.\<close>

definition stuck :: "handle \<Rightarrow> bool" where
  "stuck h \<longleftrightarrow> rh_class h \<and> rh_resizing h \<and> rh_drag h = None"

lemma handle_step_stuck: "stuck h \<Longrightarrow> (\<forall>x. e \<noteq> Pointer_down 0 x) \<Longrightarrow> stuck (handle_step v e h)"
  by (cases e) (auto simp: stuck_def handle_defs onPointerMove_def split: option.split)

lemma handle_run_stuck: "stuck h \<Longrightarrow> (\<forall>x. Pointer_down 0 x \<notin> set es) \<Longrightarrow> stuck (handle_run v es h)"
  unfolding handle_run_def by (induction es arbitrary: h) (simp_all, metis handle_step_stuck)

section \<open>The chimes\<close>

text \<open>The times are a second apart, the last one is remembered, and there are two notes for each.\<close>

definition chime_ok :: "audio \<Rightarrow> bool" where
  "chime_ok a \<longleftrightarrow> sorted_wrt (\<lambda>a b. a + 1000 \<le> b) (au_played a) \<and> (\<forall>t \<in> set (au_played a). t \<le> au_lastPlayed a) \<and>
     length (au_notes a) = 2 * length (au_played a)"

lemma playChime_ok: "chime_ok a \<Longrightarrow> chime_ok (playChime now t a)"
  by (auto simp: chime_ok_def playChime_def sorted_wrt_append not_less)

lemma sound_run_ok: "chime_ok a \<Longrightarrow> chime_ok (snd (sound_run es enabled a))"
proof (induction es enabled a rule: sound_run.induct)
  case (2 now t es enabled a)
  then show ?case using playChime_ok by (simp add: chime_def)
qed (auto simp: chime_ok_def sound_gesture_def unlockAudio_def audio_resumed_def Let_def)

lemma sound_run_append:
  "sound_run (es @ fs) enabled a = sound_run fs (fst (sound_run es enabled a)) (snd (sound_run es enabled a))"
  by (induction es enabled a rule: sound_run.induct) auto

text \<open>Before the first gesture there is no audio context.\<close>

lemma no_gesture_no_context:
  "au_ctx a = None \<Longrightarrow> (\<forall>c. Gesture c \<notin> set es) \<Longrightarrow> au_ctx (snd (sound_run es enabled a)) = None"
  by (induction es enabled a rule: sound_run.induct)
     (auto simp: chime_def playChime_def audio_resumed_def)

lemma silent_without_context:
  "au_ctx a = None \<Longrightarrow> (\<forall>c. Gesture c \<notin> set es) \<Longrightarrow> au_played (snd (sound_run es enabled a)) = au_played a"
  by (induction es enabled a rule: sound_run.induct)
     (auto simp: chime_def playChime_def audio_resumed_def)

section \<open>The properties\<close>

text \<open>
  C33: The keyboard walks the list, and the message pane follows: from the message at position \<open>i\<close>, pressing j or the
  down arrow \<open>n\<close> times selects the message \<open>n\<close> further, stopping at the last, and k or the up arrow the one \<open>n\<close>
  before, stopping at the first. Afterwards the pane is for the message selected, which is asked of the server
  unless it is known, the requests for messages passed over are cancelled, and the mail itself is untouched.
\<close>

theorem keyboard_walks_list:
  assumes "distinct (desk_ids d)" "[] \<notin> set (desk_ids d)" "i < length (desk_ids d)"
    "page_selected (dk_page d) = Some (desk_ids d ! i)" "pane_follows (dk_page d)"
    "down = ''j'' \<or> down = ''ArrowDown''" "up = ''k'' \<or> up = ''ArrowUp''"
  shows "page_selected (dk_page (fst (press_times n fetch down (d, s)))) =
      Some (desk_ids d ! min (i + n) (length (desk_ids d) - 1)) \<and>
    page_selected (dk_page (fst (press_times n fetch up (d, s)))) = Some (desk_ids d ! (i - n)) \<and>
    pane_follows (dk_page (fst (press_times n fetch down (d, s)))) \<and>
    pane_follows (dk_page (fst (press_times n fetch up (d, s)))) \<and>
    snd (press_times n fetch down (d, s)) = s \<and> snd (press_times n fetch up (d, s)) = s"
proof -
  have "(down, 1) \<in> set walk_keys" "(up, -1) \<in> set walk_keys" using assms(6,7) by (auto simp: walk_keys_def)
  with walk_down [OF _ assms(1-5), of down n fetch s] walk_up [OF _ assms(1-5), of up n fetch s] show ?thesis by auto
qed

definition page_with :: "web_summary list \<Rightarrow> selection \<Rightarrow> inbox_page" where
  "page_with msgs sel = \<lparr>ip_list = (useMessages [])\<lparr>hk_current := \<lparr>ls_messages = msgs, ls_total = 3, ls_nextCursor = None,
       ls_loaded = True, ls_error = None\<rparr>\<rparr>,
     ip_selection = sel, ip_arrived = [], ip_message = new_message_hook, ip_search = [], ip_sound = False, ip_chimes = 0\<rparr>"

definition sample_desk :: desk where
  "sample_desk = useLayoutState (page_with (map summary_named [''a'', ''b'', ''c'']) \<lparr>sl_chosen = Some ''b'', sl_seen = [''b'']\<rparr>)
     \<lparr>sg_blocked = False, sg_items = []\<rparr>"

lemma page_with_simps [simp]:
  "page_messages (page_with msgs sel) = msgs" "ip_selection (page_with msgs sel) = sel"
  by (simp_all add: page_with_def page_messages_def)

lemma sample_desk_simps:
  "desk_ids sample_desk = [''a'', ''b'', ''c'']" "page_selected (dk_page sample_desk) = Some ''b''"
  "page_messages (dk_page sample_desk) = map summary_named [''a'', ''b'', ''c'']"
  by (simp_all add: sample_desk_def useLayoutState_def desk_ids_def page_selected_def selectedId_def summary_named_def split_beta)

lemma rendered_desk:
  "desk_ids (desk_render sample_desk) = [''a'', ''b'', ''c'']" "page_selected (dk_page (desk_render sample_desk)) = Some ''b''"
  "pane_follows (dk_page (desk_render sample_desk))"
proof -
  show ids: "desk_ids (desk_render sample_desk) = [''a'', ''b'', ''c'']" "page_selected (dk_page (desk_render sample_desk)) = Some ''b''"
    using sample_desk_simps by (simp_all add: desk_ids_def)
  have "mk_id (ip_message (dk_page sample_desk)) = None"
    by (simp add: sample_desk_def useLayoutState_def page_with_def new_message_hook_def split_beta)
  then have "pane_follows (page_render (dk_page sample_desk))"
    using sample_desk_simps by (intro render_follows) (auto simp: desk_ids_def)
  then show "pane_follows (dk_page (desk_render sample_desk))" by simp
qed

theorem keyboard_walks_list_witness:
  "page_selected (dk_page (fst (press_times 5 (\<lambda>_ _ w. (Inl Network, w)) ''j'' (desk_render sample_desk, ((), idle_browser))))) = Some ''c'' \<and>
   page_selected (dk_page (fst (press_times 1 (\<lambda>_ _ w. (Inl Network, w)) ''k'' (desk_render sample_desk, ((), idle_browser))))) = Some ''a''"
  using keyboard_walks_list [of "desk_render sample_desk" 1 "''j''" "''k''" 5 "\<lambda>_ _ w. (Inl Network, w)" "((), idle_browser)"]
    keyboard_walks_list [of "desk_render sample_desk" 1 "''j''" "''k''" 1 "\<lambda>_ _ w. (Inl Network, w)" "((), idle_browser)"]
  by (simp add: rendered_desk del: render_simps)

text \<open>The server's answer to the request for the selected message is what the pane then shows.\<close>

theorem answered_pane_shows:
  assumes "k < length (mk_fetches (ip_message (dk_page d)))" "mk_fetches (ip_message (dk_page d)) ! k = (i, False)"
    "pane_follows (dk_page d)" "i \<noteq> []" "web_getMessage fetch i s = (Inr m, s')"
  shows "useMessage (ip_message (dk_page (fst (desk_answered fetch k (d, s))))) = (Some m, None, False)"
proof -
  have "(i, False) \<in> set (mk_fetches (ip_message (dk_page d)))" using assms(1,2) by (metis nth_mem)
  with assms(3) have "mk_id (ip_message (dk_page d)) = Some i" by (auto simp: pane_follows_def)
  with assms(1,2,4,5) show ?thesis
    by (simp add: desk_answered_def message_settle_def useMessage_def truthy_def map_of_obj_set)
qed

text \<open>
  Pressing Delete asks the server to delete exactly the selected message, and when the list comes back without
  it the message below is selected, at the end of the list the one above.
\<close>

theorem delete_key_moves_on:
  assumes "page_messages (dk_page d) = upper @ m # rest" "distinct (desk_ids d)" "ws_id m \<noteq> []"
    "page_selected (dk_page d) = Some (ws_id m)" "keydown fetch (plain_key ''Delete'') (d, s) = (d', s')"
    "page_messages p' = upper @ rest" "ip_selection p' = ip_selection (dk_page d')"
  shows "s' = snd (web_deleteMessage fetch (ws_id m) s) \<and>
    page_selected p' = (case rest of b # _ \<Rightarrow> Some (ws_id b)
      | [] \<Rightarrow> if upper = [] then None else Some (ws_id (last upper)))"
proof -
  have new: "ws_id m \<notin> ws_id ` set upper" using assms(1,2) by (auto simp: desk_ids_def)
  have "onKey (desk_ids d) (Some (ws_id m)) (plain_key ''Delete'') = (Some (Remove_message (ws_id m)), True)"
    using assms(3) by (simp add: onKey_def plain_key_def shortcut_of_def truthy_def)
  with assms(4,5) have r: "s' = snd (web_deleteMessage fetch (ws_id m) s)"
    "ip_selection (dk_page d') = selection_render (page_messages (dk_page d)) (page_loaded (dk_page d))
       (choose_id (neighbourOf (page_messages (dk_page d)) (ws_id m)) (ip_selection (dk_page d)))"
    by (auto simp: keydown_def desk_action_def page_remove_def Let_def)
       (simp add: page_render_def page_messages_def page_loaded_def refresh_def Let_def)
  have "findIndex (\<lambda>x. ws_id x = ws_id m) (upper @ m # rest) = int (length upper)"
    using new by (intro findIndex_split) (auto simp: image_iff)
  then have n: "neighbourOf (upper @ m # rest) (ws_id m) = (case rest of b # _ \<Rightarrow> Some (ws_id b)
      | [] \<Rightarrow> if upper = [] then None else Some (ws_id (last upper)))"
    by (simp add: neighbourOf_def at_index_app split: list.splits) (simp add: at_index_def)
  have "page_selected p' = neighbourOf (upper @ m # rest) (ws_id m)"
  proof (cases "upper @ rest = []")
    case True
    with n assms(6) show ?thesis by (simp add: page_selected_def selectedId_def at_index_def)
  next
    case False
    with n obtain i where i: "neighbourOf (upper @ m # rest) (ws_id m) = Some i" "i \<in> ws_id ` set (upper @ rest)"
      by (auto split: list.splits if_splits)
    let ?sel = "choose_id (Some i) (ip_selection (dk_page d))"
    have "i \<in> ws_id ` set (page_messages (dk_page d))" using i(2) assms(1) by auto
    then have "selectedId (page_messages (dk_page d)) ?sel = Some i" by (rule selectedId_member)
    moreover have "sl_chosen ?sel = Some i" by (simp add: choose_id_def)
    ultimately have "selection_render (page_messages (dk_page d)) (page_loaded (dk_page d)) ?sel = ?sel"
      by (simp add: selection_render_def Let_def)
    with r(2) i(1) assms(1,7) have "ip_selection p' = ?sel" by simp
    with selectedId_member [OF i(2)] assms(6) i(1) show ?thesis by (simp add: page_selected_def)
  qed
  with n r(1) show ?thesis by simp
qed

theorem delete_key_moves_on_witness:
  "let after = keydown (\<lambda>_ _ w. (Inl Network, w)) (plain_key ''Delete'')
       (sample_desk, (), \<lparr>bw_signingOut = False, bw_pathname = ''/'', bw_search = [], bw_assigned = []\<rparr>);
     p' = page_with (map summary_named [''a'', ''c'']) (ip_selection (dk_page (fst after)))
   in page_selected p' = Some ''c''"
proof -
  let ?s = "((), \<lparr>bw_signingOut = False, bw_pathname = ''/'', bw_search = [], bw_assigned = []\<rparr>)"
  let ?after = "keydown (\<lambda>_ _ w. (Inl Network, w)) (plain_key ''Delete'') (sample_desk, ?s)"
  have "page_selected (page_with (map summary_named [''a'', ''c'']) (ip_selection (dk_page (fst ?after)))) =
      (case [summary_named ''c''] of b # _ \<Rightarrow> Some (ws_id b)
       | [] \<Rightarrow> if [summary_named ''a''] = [] then None else Some (ws_id (last [summary_named ''a''])))"
    by (rule delete_key_moves_on [THEN conjunct2, of sample_desk "[summary_named ''a'']" "summary_named ''b''" _
          "\<lambda>_ _ w. (Inl Network, w)" ?s "fst ?after" "snd ?after"])
       (simp_all add: sample_desk_simps, simp_all add: summary_named_def)
  then show ?thesis by (simp add: Let_def) (simp add: summary_named_def)
qed

text \<open>
  C34: Whatever the reader does, an open menu listens for presses elsewhere, has the focus and an active option
  of its own, a closed one listens no more and holds no focus on an option, and only options are
  reported as chosen; Escape and choosing give the focus back to the button.
\<close>

theorem menu_keeps_focus:
  assumes "menu_reachable options val b" "options \<noteq> []"
  shows "lb_listening b = mn_open (lb_menu b) \<and>
    (mn_open (lb_menu b) \<longrightarrow> 0 \<le> mn_active (lb_menu b) \<and> mn_active (lb_menu b) < int (length options) \<and> lb_focus b \<noteq> Outside) \<and>
    (\<forall>i. lb_focus b = On_option i \<longrightarrow> mn_open (lb_menu b) \<and> i = mn_active (lb_menu b)) \<and>
    set (lb_chosen b) \<subseteq> set options \<and>
    lb_focus (hide_refocus options b) = On_trigger \<and> \<not> mn_open (lb_menu (hide_refocus options b))"
  using menu_reachable_ok [OF assms] hide_refocus_ok(2,3) unfolding listbox_ok_def by blast

theorem menu_keeps_focus_witness:
  "let options = [''auto'', ''fr-FR''];
       b = menu_commit options (onListKeyDown options ''ArrowDown'' (menu_show options ''auto'' (lb_menu useListboxMenu)))
         (menu_commit options (menu_toggle options ''auto'' (lb_menu useListboxMenu)) (useListboxMenu\<lparr>lb_focus := On_trigger\<rparr>))
   in lb_listening b = mn_open (lb_menu b) \<and> lb_focus b = On_option 1 \<and> lb_focus (hide_refocus options b) = On_trigger"
proof -
  let ?o = "[''auto'', ''fr-FR'']"
  let ?b1 = "menu_commit ?o (menu_toggle ?o ''auto'' (lb_menu useListboxMenu)) (useListboxMenu\<lparr>lb_focus := On_trigger\<rparr>)"
  have menu: "lb_menu ?b1 = menu_show ?o ''auto'' (lb_menu useListboxMenu)"
    by (simp add: menu_commit_def menu_toggle_def useListboxMenu_def Let_def)
  have focus: "lb_focus ?b1 = On_option 0"
    by (simp add: menu_commit_def menu_toggle_def menu_show_def useListboxMenu_def Let_def at_index_def)
  let ?b = "menu_commit ?o (onListKeyDown ?o ''ArrowDown'' (lb_menu ?b1)) ?b1"
  have "menu_reachable ?o ''auto'' ?b"
    by (rule menu_further [OF menu_further [OF menu_begin click_trigger]]) (rule list_key [OF focus], simp)
  note kept = menu_keeps_focus [OF this list.distinct(2)]
  have "lb_focus (menu_commit ?o (onListKeyDown ?o ''ArrowDown'' (lb_menu c)) c) = On_option 1"
    if "lb_menu c = menu_show ?o ''auto'' (lb_menu useListboxMenu)" for c
    by (simp add: that menu_commit_def onListKeyDown_def menu_show_def menu_move_def Let_def at_index_def)
  from this [OF menu] kept show ?thesis unfolding menu Let_def by blast
qed

text \<open>
  C35: While the handle stays on the page, the page is marked as being resized exactly during a drag. When the handle goes
  in the middle of one, because the list is hidden or emptied, the mark stays: nothing but a later press
  on a handle takes it off.
\<close>

theorem resize_mark_follows_drag:
  assumes "Unmount \<notin> set es" "\<forall>x. Pointer_down 0 x \<notin> set fs"
  shows "rh_class (handle_run v es (useResizeHandle w)) = (rh_drag (handle_run v es (useResizeHandle w)) \<noteq> None) \<and>
    rh_resizing (handle_run v es (useResizeHandle w)) = rh_class (handle_run v es (useResizeHandle w)) \<and>
    (rh_drag (handle_run v es (useResizeHandle w)) \<noteq> None \<longrightarrow>
       rh_class (handle_run v (es @ Unmount # fs) (useResizeHandle w)) \<and>
       rh_drag (handle_run v (es @ Unmount # fs) (useResizeHandle w)) = None)"
proof -
  let ?h = "handle_run v es (useResizeHandle w)"
  have ok: "handle_ok ?h"
    by (rule handle_run_ok [OF _ assms(1)]) (simp add: handle_ok_def useResizeHandle_def)
  have run: "handle_run v (es @ Unmount # fs) (useResizeHandle w) = handle_run v fs (handle_step v Unmount ?h)"
    by (simp add: handle_run_def)
  have "rh_drag ?h \<noteq> None \<Longrightarrow> stuck (handle_step v Unmount ?h)"
    using ok by (simp add: stuck_def handle_ok_def handle_step_def)
  from handle_run_stuck [OF this assms(2)] ok show ?thesis unfolding run by (auto simp: handle_ok_def stuck_def)
qed

theorem resize_mark_follows_drag_witness:
  "rh_class (handle_run 1000 ([Pointer_down 0 300] @ Unmount # [Mount, Pointer_up]) (useResizeHandle 360)) \<and>
   rh_drag (handle_run 1000 ([Pointer_down 0 300] @ Unmount # [Mount, Pointer_up]) (useResizeHandle 360)) = None"
proof -
  have "rh_drag (handle_run 1000 [Pointer_down 0 300] (useResizeHandle 360)) \<noteq> None"
    by (simp add: handle_run_def handle_step_def useResizeHandle_def setDragging_def onPointerDown_def)
  with resize_mark_follows_drag [of "[Pointer_down 0 300]" "[Mount, Pointer_up]" 1000 360] show ?thesis by simp
qed

text \<open>
  However messages arrive and the setting is switched, chimes are at least a second apart, of two notes each,
  and there is none before the reader has touched the page.
\<close>

theorem chimes_spaced:
  assumes "\<forall>c. Gesture c \<notin> set before"
  shows "sorted_wrt (\<lambda>a b. a + 1000 \<le> b) (au_played (snd (sound_run es enabled silent))) \<and>
    length (au_notes (snd (sound_run es enabled silent))) = 2 * length (au_played (snd (sound_run es enabled silent))) \<and>
    au_played (snd (sound_run before enabled silent)) = []"
proof -
  have "chime_ok silent" by (simp add: chime_ok_def silent_def)
  from sound_run_ok [OF this] silent_without_context [of silent before enabled] assms show ?thesis
    by (simp add: chime_ok_def) (simp add: silent_def)
qed

theorem chimes_spaced_witness:
  "au_played (snd (sound_run [Rings 5000 0] True silent)) = [] \<and>
   au_played (snd (sound_run [Gesture (Some Running), Rings 5000 0, Rings 5500 1, Rings 7000 2] True silent)) = [5000, 7000]"
  using chimes_spaced [of "[Rings 5000 0]" "[]" True]
  by (simp add: silent_def sound_gesture_def unlockAudio_def chime_def playChime_def)

text \<open>
  Without the clipboard's interface a failure to copy goes unnoticed: the reader is told that the text was
  copied.
\<close>

theorem copy_failure_unnoticed:
  "copy val (s, \<lparr>cb_content = old, cb_api = False, cb_secure = sec, cb_writable = False\<rparr>) =
    (\<lparr>cp_copied = True, cp_timer = True\<rparr>, \<lparr>cb_content = old, cb_api = False, cb_secure = sec, cb_writable = False\<rparr>)"
  by (simp add: copy_def writeClipboard_def)

text \<open>With it, what is shown as copied is what the clipboard holds.\<close>

theorem copied_is_copied:
  assumes "cb_api c" "cb_secure c" "\<not> cp_copied s" "cp_copied (fst (copy val (s, c)))"
  shows "cb_content (snd (copy val (s, c))) = val"
  using assms by (auto simp: copy_def writeClipboard_def split: bool.splits if_splits)

end
