(* ===== verification/Broker.thy ===== *)
theory Broker
  imports Store Inbox_State
begin

text \<open>
  How a change of the store reaches the page: the broker of events (\<open>internal/events/broker.go\<close>), the handler of
  the event stream (\<open>internal/api/sse.go\<close>) and what the page's listeners make of it. The broker's mutex
  makes each of its operations atomic; the handler runs beside it in steps of its own, so a
  publication can fall between any two of them. Writing to the client may fail at any time.
\<close>

section \<open>The broker\<close>

definition bufferSize :: nat where "bufferSize = 64"

text \<open>A channel with its count of missed events; \<open>sb_listed\<close>: it is in the broker's set, and so open.\<close>

record subscription =
  sb_buffer :: "event list"
  sb_missed :: nat
  sb_listed :: bool

record broker =
  bk_subs :: "subscription list"
  bk_closed :: bool

definition NewBroker :: broker where
  "NewBroker = \<lparr>bk_subs = [], bk_closed = False\<rparr>"

definition Subscribe :: "broker \<Rightarrow> nat \<times> broker" where
  "Subscribe b = (length (bk_subs b),
     b\<lparr>bk_subs := bk_subs b @ [\<lparr>sb_buffer = [], sb_missed = 0, sb_listed = \<not> bk_closed b\<rparr>]\<rparr>)"

definition upd_sub :: "nat \<Rightarrow> (subscription \<Rightarrow> subscription) \<Rightarrow> broker \<Rightarrow> broker" where
  "upd_sub i f b = b\<lparr>bk_subs := (bk_subs b)[i := f (bk_subs b ! i)]\<rparr>"

definition remove_sub :: "nat \<Rightarrow> broker \<Rightarrow> broker" where
  "remove_sub i b = upd_sub i (\<lambda>s. s\<lparr>sb_listed := False\<rparr>) b"

definition offer :: "event \<Rightarrow> subscription \<Rightarrow> subscription" where
  "offer e s =
     (if \<not> sb_listed s then s
      else if length (sb_buffer s) < bufferSize then s\<lparr>sb_buffer := sb_buffer s @ [e]\<rparr>
      else s\<lparr>sb_missed := sb_missed s + 1\<rparr>)"

definition Publish :: "event \<Rightarrow> broker \<Rightarrow> broker" where
  "Publish e b = b\<lparr>bk_subs := map (offer e) (bk_subs b)\<rparr>"

definition Subscribers :: "broker \<Rightarrow> nat" where
  "Subscribers b = length (filter sb_listed (bk_subs b))"

definition Close :: "broker \<Rightarrow> broker" where
  "Close b = b\<lparr>bk_closed := True, bk_subs := map (\<lambda>s. s\<lparr>sb_listed := False\<rparr>) (bk_subs b)\<rparr>"

text \<open>\<open>Missed\<close> swaps the count with zero; receiving from the channel takes the oldest event.\<close>

definition Missed :: "nat \<Rightarrow> broker \<Rightarrow> nat \<times> broker" where
  "Missed i b = (sb_missed (bk_subs b ! i), upd_sub i (\<lambda>s. s\<lparr>sb_missed := 0\<rparr>) b)"

definition receive :: "nat \<Rightarrow> broker \<Rightarrow> broker" where
  "receive i b = upd_sub i (\<lambda>s. s\<lparr>sb_buffer := tl (sb_buffer s)\<rparr>) b"

section \<open>The stream\<close>

datatype frame = Greeting | Ping | Event_frame event | Resync_frame

definition event_type :: "event \<Rightarrow> string" where
  "event_type e = (case e of MessageCreated _ \<Rightarrow> ''message.created'' | MessageDeleted _ \<Rightarrow> ''message.deleted''
     | MessagesCleared \<Rightarrow> ''messages.cleared'')"

definition event_id :: "event \<Rightarrow> string" where
  "event_id e = (case e of MessageCreated i \<Rightarrow> i | MessageDeleted i \<Rightarrow> i | MessagesCleared \<Rightarrow> [])"

text \<open>What is written: the payload has an \<open>id\<close> when the event has one.\<close>

definition frame_text :: "frame \<Rightarrow> string" where
  "frame_text f = (case f of
     Greeting \<Rightarrow> ''retry: 2000\<newline>: connected\<newline>\<newline>''
   | Ping \<Rightarrow> '': ping\<newline>\<newline>''
   | Resync_frame \<Rightarrow> ''event: resync\<newline>data: {}\<newline>\<newline>''
   | Event_frame e \<Rightarrow> ''event: '' @ event_type e @ ''\<newline>data: '' @
       (if event_id e = [] then ''{}'' else ''{'' @ json_string ''id'' @ '':'' @ json_string (event_id e) @ ''}'') @ ''\<newline>\<newline>'')"

text \<open>
  Where the handler is: greeting the client, waiting in its \<open>select\<close>, writing an event it has received, about
  to ask what was missed, writing the resynchronisation, or returned. The log interleaves what was
  published since the subscription with what was written.
\<close>

datatype phase = Greet | Waiting | Writing event | Checking | Resyncing | Returned

datatype log_item = Published event | Written frame

record stream =
  sr_sub :: nat
  sr_phase :: phase
  sr_log :: "log_item list"

type_synonym sse = "broker \<times> stream"

definition my_sub :: "sse \<Rightarrow> subscription" where
  "my_sub s = bk_subs (fst s) ! sr_sub (snd s)"

definition begin_stream :: "broker \<Rightarrow> sse" where
  "begin_stream b = (case Subscribe b of (i, b') \<Rightarrow> (b', \<lparr>sr_sub = i, sr_phase = Greet, sr_log = []\<rparr>))"

definition go_to :: "phase \<Rightarrow> stream \<Rightarrow> stream" where
  "go_to p h = h\<lparr>sr_phase := p\<rparr>"

definition write_frame :: "frame \<Rightarrow> phase \<Rightarrow> stream \<Rightarrow> stream" where
  "write_frame f p h = h\<lparr>sr_phase := p, sr_log := sr_log h @ [Written f]\<rparr>"

text \<open>Returning runs the deferred \<open>sub.Close()\<close>.\<close>

definition return_stream :: "sse \<Rightarrow> sse" where
  "return_stream s = (remove_sub (sr_sub (snd s)) (fst s), go_to Returned (snd s))"

inductive sse_step :: "sse \<Rightarrow> sse \<Rightarrow> bool" where
  greet: "sr_phase h = Greet \<Longrightarrow> sse_step (b, h) (b, write_frame Greeting Waiting h)"
| ping: "sr_phase h = Waiting \<Longrightarrow> sse_step (b, h) (b, write_frame Ping Waiting h)"
| take_event: "sr_phase h = Waiting \<Longrightarrow> sb_buffer (my_sub (b, h)) = e # es \<Longrightarrow>
    sse_step (b, h) (receive (sr_sub h) b, go_to (Writing e) h)"
| write_event: "sr_phase h = Writing e \<Longrightarrow> sse_step (b, h) (b, write_frame (Event_frame e) Checking h)"
| check_missed: "sr_phase h = Checking \<Longrightarrow> Missed (sr_sub h) b = (n, b') \<Longrightarrow>
    sse_step (b, h) (b', go_to (if 0 < n then Resyncing else Waiting) h)"
| write_resync: "sr_phase h = Resyncing \<Longrightarrow> sse_step (b, h) (b, write_frame Resync_frame Waiting h)"
| channel_closed: "sr_phase h = Waiting \<Longrightarrow> sb_buffer (my_sub (b, h)) = [] \<Longrightarrow> \<not> sb_listed (my_sub (b, h)) \<Longrightarrow>
    sse_step (b, h) (return_stream (b, h))"
| client_gone: "sr_phase h \<noteq> Returned \<Longrightarrow> sse_step (b, h) (return_stream (b, h))"
| publishes: "sse_step (b, h) (Publish e b, h\<lparr>sr_log := sr_log h @ [Published e]\<rparr>)"
| other_subscribes: "sse_step (b, h) (snd (Subscribe b), h)"
| other_leaves: "i \<noteq> sr_sub h \<Longrightarrow> sse_step (b, h) (remove_sub i b, h)"
| other_receives: "i \<noteq> sr_sub h \<Longrightarrow> sse_step (b, h) (receive i b, h)"
| other_checks: "i \<noteq> sr_sub h \<Longrightarrow> sse_step (b, h) (snd (Missed i b), h)"
| broker_closes: "sse_step (b, h) (Close b, h)"

inductive sse_reachable :: "sse \<Rightarrow> bool" where
  stream_begins: "sse_reachable (begin_stream b)"
| stream_further: "sse_reachable s \<Longrightarrow> sse_step s s' \<Longrightarrow> sse_reachable s'"

section \<open>At the page\<close>

text \<open>The listener a frame reaches, with what \<open>JSON.parse\<close> makes of its data.\<close>

definition client_event :: "event \<Rightarrow> mailpeek_event \<times> string option" where
  "client_event e = (case e of MessageCreated i \<Rightarrow> (Message_created, (if i = [] then None else Some i))
     | MessageDeleted i \<Rightarrow> (Message_deleted, (if i = [] then None else Some i)) | MessagesCleared \<Rightarrow> (Messages_cleared, None))"

definition client_hears :: "frame list \<Rightarrow> heard" where
  "client_hears fs = List.map_filter (\<lambda>f. case f of Event_frame e \<Rightarrow> Some (client_event e)
     | Resync_frame \<Rightarrow> Some (Resync, None) | _ \<Rightarrow> None) fs"

section \<open>What is in the log\<close>

definition published :: "log_item list \<Rightarrow> event list" where
  "published lg = List.map_filter (\<lambda>x. case x of Published e \<Rightarrow> Some e | _ \<Rightarrow> None) lg"

definition frames :: "log_item list \<Rightarrow> frame list" where
  "frames lg = List.map_filter (\<lambda>x. case x of Written f \<Rightarrow> Some f | _ \<Rightarrow> None) lg"

definition told :: "frame list \<Rightarrow> event list" where
  "told fs = List.map_filter (\<lambda>f. case f of Event_frame e \<Rightarrow> Some e | _ \<Rightarrow> None) fs"

lemma map_filter_append [simp]: "List.map_filter f (xs @ ys) = List.map_filter f xs @ List.map_filter f ys"
  by (simp add: map_filter_def)

lemma log_simps [simp]:
  "published [] = []" "published (lg @ [Published e]) = published lg @ [e]" "published (lg @ [Written f]) = published lg"
  "frames [] = []" "frames (lg @ [Published e]) = frames lg" "frames (lg @ [Written f]) = frames lg @ [f]"
  "told [] = []" "told (fs @ [Event_frame e]) = told fs @ [e]" "told (fs @ [Greeting]) = told fs"
  "told (fs @ [Ping]) = told fs" "told (fs @ [Resync_frame]) = told fs"
  by (simp_all add: published_def frames_def told_def map_filter_simps)

lemma frames_member: "f \<in> set (frames lg) \<longleftrightarrow> Written f \<in> set lg"
  by (induction lg rule: rev_induct) (auto simp: frames_def map_filter_simps split: log_item.splits)

text \<open>
  Every change published is answered later in the log by its own event or by a resynchronisation, unless
  it is still pending or (\<open>off\<close>) a resynchronisation is due.
\<close>

definition noticed :: "bool \<Rightarrow> event set \<Rightarrow> log_item list \<Rightarrow> bool" where
  "noticed off pend lg \<longleftrightarrow> off \<or> (\<forall>as e bs. lg = as @ Published e # bs \<longrightarrow>
     Written Resync_frame \<in> set bs \<or> Written (Event_frame e) \<in> set bs \<or> e \<in> pend)"

lemma noticed_True [simp]: "noticed True pend lg"
  by (simp add: noticed_def)

lemma snoc_split:
  "lg @ [x] = as @ y # bs \<longleftrightarrow> (\<exists>bs'. bs = bs' @ [x] \<and> lg = as @ y # bs') \<or> (bs = [] \<and> as = lg \<and> x = y)"
  by (cases bs rule: rev_cases) auto

lemma noticedD:
  "noticed off pend lg \<Longrightarrow> lg = as @ Published e # bs \<Longrightarrow>
     off \<or> Written Resync_frame \<in> set bs \<or> Written (Event_frame e) \<in> set bs \<or> e \<in> pend"
  by (auto simp: noticed_def)

lemma noticedI:
  "(\<And>as e bs. lg = as @ Published e # bs \<Longrightarrow>
     off \<or> Written Resync_frame \<in> set bs \<or> Written (Event_frame e) \<in> set bs \<or> e \<in> pend) \<Longrightarrow> noticed off pend lg"
  unfolding noticed_def by blast

lemma noticed_written:
  assumes "noticed off pend lg" "pend \<subseteq> pend' \<union> {e. f = Event_frame e}"
  shows "noticed off pend' (lg @ [Written f])"
proof (rule noticedI)
  fix as e bs
  assume "lg @ [Written f] = as @ Published e # bs"
  then obtain bs' where "bs = bs' @ [Written f]" "lg = as @ Published e # bs'" by (auto simp: snoc_split)
  with noticedD [OF assms(1) this(2)] assms(2)
  show "off \<or> Written Resync_frame \<in> set bs \<or> Written (Event_frame e) \<in> set bs \<or> e \<in> pend'" by auto
qed

lemma noticed_resync: "noticed off pend (lg @ [Written Resync_frame])"
  by (rule noticedI) (auto simp: snoc_split)

lemma noticed_published:
  assumes "noticed off pend lg" "off \<or> e \<in> pend"
  shows "noticed off pend (lg @ [Published e])"
proof (rule noticedI)
  fix as x bs
  assume "lg @ [Published e] = as @ Published x # bs"
  then consider bs' where "bs = bs' @ [Published e]" "lg = as @ Published x # bs'" | "x = e" by (auto simp: snoc_split)
  then show "off \<or> Written Resync_frame \<in> set bs \<or> Written (Event_frame x) \<in> set bs \<or> x \<in> pend"
  proof cases
    case 1
    from noticedD [OF assms(1) 1(2)] 1(1) show ?thesis by auto
  qed (use assms(2) in auto)
qed

lemma noticed_mono: "noticed off pend lg \<Longrightarrow> (off \<Longrightarrow> off') \<Longrightarrow> pend \<subseteq> pend' \<Longrightarrow> noticed off' pend' lg"
  by (rule noticedI) (use noticedD in blast)

text \<open>What has been taken or buffered but not written, and whether a resynchronisation is due.\<close>

definition in_hand :: "phase \<Rightarrow> event list" where
  "in_hand p = (case p of Writing e \<Rightarrow> [e] | _ \<Rightarrow> [])"

definition due :: "phase \<Rightarrow> nat \<Rightarrow> bool" where
  "due p missed \<longleftrightarrow> 0 < missed \<or> p = Resyncing"

text \<open>
  The invariant of one stream, from its phase, its channel's buffer and count, whether it is listed, and the log: missed
  events leave something to read, listed streams notice everything and lose nothing without a resynchronisation
  being due or written, and what is told is in the order published.
\<close>

definition stream_ok :: "phase \<Rightarrow> event list \<Rightarrow> nat \<Rightarrow> bool \<Rightarrow> log_item list \<Rightarrow> bool" where
  "stream_ok p buf missed listed lg \<longleftrightarrow>
     (0 < missed \<longrightarrow> buf \<noteq> [] \<or> p = Checking \<or> in_hand p \<noteq> [] \<or> p = Returned) \<and>
     (listed \<longrightarrow> noticed (due p missed) (set (in_hand p @ buf)) lg) \<and>
     (listed \<and> \<not> due p missed \<and> Resync_frame \<notin> set (frames lg) \<longrightarrow> told (frames lg) @ in_hand p @ buf = published lg) \<and>
     subseq (told (frames lg) @ in_hand p @ buf) (published lg)"

lemma in_hand_simps [simp]:
  "in_hand Greet = []" "in_hand Waiting = []" "in_hand (Writing e) = [e]" "in_hand Checking = []"
  "in_hand Resyncing = []" "in_hand Returned = []"
  by (simp_all add: in_hand_def)

lemma stream_ok_begin: "stream_ok Greet [] 0 listed []"
  by (simp add: stream_ok_def due_def noticed_def)

lemma stream_ok_comment:
  assumes "stream_ok p buf missed listed lg" "p = Greet \<or> p = Waiting" "f = Greeting \<or> f = Ping"
  shows "stream_ok Waiting buf missed listed (lg @ [Written f])"
proof -
  have "due p missed = due Waiting missed" "in_hand p = []" using assms(2) by (auto simp: due_def)
  with assms noticed_written [of "due Waiting missed" "set buf" lg "set buf" f] show ?thesis
    by (auto simp: stream_ok_def)
qed

lemma stream_ok_take:
  assumes "stream_ok Waiting (e # es) missed listed lg"
  shows "stream_ok (Writing e) es missed listed lg"
  using assms by (auto simp: stream_ok_def due_def)

lemma stream_ok_write:
  assumes "stream_ok (Writing e) buf missed listed lg"
  shows "stream_ok Checking buf missed listed (lg @ [Written (Event_frame e)])"
proof -
  have "listed \<Longrightarrow> noticed (due Checking missed) (set buf) (lg @ [Written (Event_frame e)])"
    by (rule noticed_written [of _ "insert e (set buf)"]) (use assms in \<open>auto simp: stream_ok_def due_def\<close>)
  with assms show ?thesis by (simp add: stream_ok_def due_def)
qed

lemma stream_ok_check:
  assumes "stream_ok Checking buf missed listed lg"
  shows "stream_ok (if 0 < missed then Resyncing else Waiting) buf 0 listed lg"
  by (cases "0 < missed") (use assms in \<open>simp_all add: stream_ok_def due_def\<close>)

lemma stream_ok_resync:
  assumes "stream_ok Resyncing buf missed listed lg"
  shows "stream_ok Waiting buf missed listed (lg @ [Written Resync_frame])"
  using assms noticed_resync by (simp add: stream_ok_def)

lemma stream_ok_return:
  assumes "stream_ok p buf missed listed lg"
  shows "stream_ok Returned buf missed False lg"
proof -
  have "subseq (told (frames lg) @ buf) (told (frames lg) @ in_hand p @ buf)"
    by (intro list_emb_append_mono list_emb_append2) simp_all
  with assms show ?thesis by (auto simp: stream_ok_def intro: subseq_order.trans)
qed

lemma stream_ok_publish:
  assumes "stream_ok p buf missed listed lg"
  shows "stream_ok p (if listed \<and> length buf < bufferSize then buf @ [e] else buf)
    (if listed \<and> \<not> length buf < bufferSize then missed + 1 else missed) listed (lg @ [Published e])"
proof -
  consider "\<not> listed" | "listed" "length buf < bufferSize" | "listed" "\<not> length buf < bufferSize" by blast
  then show ?thesis
  proof cases
    case 1
    with assms show ?thesis by (auto simp: stream_ok_def)
  next
    case 2
    have "noticed (due p missed) (set (in_hand p @ buf @ [e])) (lg @ [Published e])"
      by (rule noticed_published, rule noticed_mono) (use assms 2 in \<open>auto simp: stream_ok_def\<close>)
    moreover have "subseq (told (frames lg) @ in_hand p @ buf @ [e]) (published lg @ [e])"
      using assms list_emb_append_mono [of _ "told (frames lg) @ in_hand p @ buf" "published lg" "[e]" "[e]"]
      by (simp add: stream_ok_def)
    ultimately show ?thesis using assms 2 by (auto simp: stream_ok_def)
  next
    case 3
    then have "buf \<noteq> []" by (auto simp: bufferSize_def)
    moreover have "noticed (due p (missed + 1)) pend (lg @ [Published e])" for pend
      by (simp add: noticed_def due_def)
    ultimately show ?thesis using assms 3 by (auto simp: stream_ok_def due_def)
  qed
qed

lemma stream_ok_unlist: "stream_ok p buf missed listed lg \<Longrightarrow> stream_ok p buf missed False lg"
  by (simp add: stream_ok_def)

definition sse_ok :: "sse \<Rightarrow> bool" where
  "sse_ok s \<longleftrightarrow> sr_sub (snd s) < length (bk_subs (fst s)) \<and>
     stream_ok (sr_phase (snd s)) (sb_buffer (my_sub s)) (sb_missed (my_sub s)) (sb_listed (my_sub s)) (sr_log (snd s))"

lemma upd_sub_simps [simp]:
  "length (bk_subs (upd_sub i f b)) = length (bk_subs b)"
  "i < length (bk_subs b) \<Longrightarrow> bk_subs (upd_sub i f b) ! i = f (bk_subs b ! i)"
  "i \<noteq> j \<Longrightarrow> bk_subs (upd_sub i f b) ! j = bk_subs b ! j"
  by (simp_all add: upd_sub_def)

lemmas stream_defs = my_sub_def go_to_def write_frame_def return_stream_def

text \<open>Steps of others leave this stream as it was.\<close>

lemma sse_ok_cong:
  assumes "sse_ok (b, h)" "length (bk_subs b) \<le> length (bk_subs b')" "my_sub (b', h) = my_sub (b, h)"
  shows "sse_ok (b', h)"
  using assms by (auto simp: sse_ok_def)

lemma return_stream_ok: "sse_ok s \<Longrightarrow> sse_ok (return_stream s)"
  by (cases s) (auto simp: sse_ok_def stream_defs remove_sub_def intro: stream_ok_return)

lemma sse_step_ok:
  assumes "sse_step s s'" "sse_ok s"
  shows "sse_ok s'"
  using assms(1)
proof cases
  case (greet h b)
  with assms(2) stream_ok_comment show ?thesis by (auto simp: sse_ok_def stream_defs)
next
  case (ping h b)
  with assms(2) stream_ok_comment show ?thesis by (auto simp: sse_ok_def stream_defs)
next
  case (take_event h b e es)
  with assms(2) stream_ok_take show ?thesis by (auto simp: sse_ok_def stream_defs receive_def)
next
  case (write_event h e b)
  with assms(2) stream_ok_write show ?thesis by (auto simp: sse_ok_def stream_defs)
next
  case (check_missed h b n b')
  with assms(2) stream_ok_check [of "sb_buffer (my_sub s)" "sb_missed (my_sub s)" "sb_listed (my_sub s)" "sr_log h"]
  show ?thesis by (auto simp: sse_ok_def stream_defs Missed_def split: if_splits)
next
  case (write_resync h b)
  with assms(2) stream_ok_resync show ?thesis by (auto simp: sse_ok_def stream_defs)
next
  case (channel_closed h b)
  with assms(2) return_stream_ok show ?thesis by simp
next
  case (client_gone h b)
  with assms(2) return_stream_ok show ?thesis by simp
next
  case (publishes b h e)
  with assms(2) stream_ok_publish [of "sr_phase h" "sb_buffer (my_sub s)" "sb_missed (my_sub s)" "sb_listed (my_sub s)" "sr_log h" e]
  show ?thesis by (auto simp: sse_ok_def stream_defs Publish_def offer_def split: if_splits)
next
  case (other_subscribes b h)
  with assms(2) show ?thesis by (auto intro!: sse_ok_cong [of b] simp: Subscribe_def my_sub_def nth_append sse_ok_def)
next
  case (other_leaves i h b)
  with assms(2) show ?thesis by (auto intro!: sse_ok_cong [of b] simp: remove_sub_def my_sub_def)
next
  case (other_receives i h b)
  with assms(2) show ?thesis by (auto intro!: sse_ok_cong [of b] simp: receive_def my_sub_def)
next
  case (other_checks i h b)
  with assms(2) show ?thesis by (auto intro!: sse_ok_cong [of b] simp: Missed_def my_sub_def)
next
  case (broker_closes b h)
  with assms(2) stream_ok_unlist show ?thesis by (auto simp: sse_ok_def stream_defs Close_def)
qed

lemma sse_reachable_ok: "sse_reachable s \<Longrightarrow> sse_ok s"
proof (induction rule: sse_reachable.induct)
  case (stream_begins b)
  show ?case using stream_ok_begin by (simp add: sse_ok_def begin_stream_def stream_defs Subscribe_def)
qed (rule sse_step_ok)

section \<open>The handler comes to rest\<close>

definition at_rest :: "sse \<Rightarrow> bool" where
  "at_rest s \<longleftrightarrow> sr_phase (snd s) = Waiting \<and> sb_buffer (my_sub s) = []"

definition serving :: "sse \<Rightarrow> bool" where
  "serving s \<longleftrightarrow> sb_listed (my_sub s) \<and> sr_phase (snd s) \<noteq> Returned"

definition work_left :: "sse \<Rightarrow> nat" where
  "work_left s = 5 * length (sb_buffer (my_sub s)) +
     (case sr_phase (snd s) of Greet \<Rightarrow> 1 | Waiting \<Rightarrow> 0 | Writing e \<Rightarrow> 4 | Checking \<Rightarrow> 3 | Resyncing \<Rightarrow> 1 | Returned \<Rightarrow> 0)"

lemma handler_progress:
  assumes "sse_ok s" "serving s" "\<not> at_rest s"
  shows "\<exists>s'. sse_step s s' \<and> serving s' \<and> work_left s' < work_left s \<and>
    (\<exists>fs. sr_log (snd s') = sr_log (snd s) @ map Written fs)"
proof -
  obtain b h where s: "s = (b, h)" by (cases s)
  from assms(1) s have i: "sr_sub h < length (bk_subs b)" by (simp add: sse_ok_def)
  have one: "\<exists>fs. lg @ [Written f] = lg @ map Written fs" "\<exists>fs. lg = lg @ map Written fs" for lg f
    by (rule exI [of _ "[f]"], simp) (rule exI [of _ "[]"], simp)
  note defs = serving_def work_left_def stream_defs
  show ?thesis
  proof (cases "sr_phase h")
    case Greet
    with assms s one show ?thesis
      by (intro exI [of _ "(b, write_frame Greeting Waiting h)"]) (auto simp: defs intro: greet [unfolded write_frame_def])
  next
    case Waiting
    with assms(3) s obtain e es where e: "sb_buffer (my_sub (b, h)) = e # es"
      by (cases "sb_buffer (my_sub (b, h))") (auto simp: at_rest_def)
    from take_event [OF Waiting e] assms s i e Waiting one show ?thesis
      by (intro exI [of _ "(receive (sr_sub h) b, go_to (Writing e) h)"]) (auto simp: defs receive_def)
  next
    case (Writing e)
    from write_event [OF Writing] assms s Writing one show ?thesis
      by (intro exI [of _ "(b, write_frame (Event_frame e) Checking h)"]) (auto simp: defs)
  next
    case Checking
    obtain n b' where m: "Missed (sr_sub h) b = (n, b')" by fastforce
    from check_missed [OF Checking m] m assms s i Checking one show ?thesis
      by (intro exI [of _ "(b', go_to (if 0 < n then Resyncing else Waiting) h)"]) (auto simp: defs Missed_def)
  next
    case Resyncing
    from write_resync [OF Resyncing] assms s Resyncing one show ?thesis
      by (intro exI [of _ "(b, write_frame Resync_frame Waiting h)"]) (auto simp: defs)
  next
    case Returned
    with assms s show ?thesis by (simp add: serving_def)
  qed
qed

lemma handler_rests:
  "sse_reachable s \<Longrightarrow> serving s \<Longrightarrow> \<exists>s'. sse_step\<^sup>*\<^sup>* s s' \<and> sse_reachable s' \<and> serving s' \<and> at_rest s' \<and>
     (\<exists>fs. sr_log (snd s') = sr_log (snd s) @ map Written fs)"
proof (induction "work_left s" arbitrary: s rule: less_induct)
  case less
  show ?case
  proof (cases "at_rest s")
    case True
    with less.prems show ?thesis by (intro exI [of _ s]) (auto intro: exI [of _ "[]"])
  next
    case False
    from handler_progress [OF sse_reachable_ok [OF less.prems(1)] less.prems(2) False] obtain s1 fs where
      s1: "sse_step s s1" "serving s1" "work_left s1 < work_left s" "sr_log (snd s1) = sr_log (snd s) @ map Written fs" by blast
    from less.hyps [OF s1(3) stream_further [OF less.prems(1) s1(1)] s1(2)] obtain s2 gs where
      "sse_step\<^sup>*\<^sup>* s1 s2" "sse_reachable s2" "serving s2" "at_rest s2" "sr_log (snd s2) = sr_log (snd s1) @ map Written gs"
      by blast
    with s1 show ?thesis
      by (intro exI [of _ s2]) (auto intro: converse_rtranclp_into_rtranclp exI [of _ "fs @ gs"])
  qed
qed

lemma rest_noticed:
  assumes "sse_ok s" "serving s" "at_rest s" "sr_log (snd s) = as @ Published e # bs"
  shows "Written Resync_frame \<in> set bs \<or> Written (Event_frame e) \<in> set bs"
proof -
  from assms(1,3) have "\<not> due (sr_phase (snd s)) (sb_missed (my_sub s))" "in_hand (sr_phase (snd s)) @ sb_buffer (my_sub s) = []"
    by (auto simp: sse_ok_def stream_ok_def at_rest_def due_def)
  with assms(1,2) have "noticed False {} (sr_log (snd s))" by (simp add: sse_ok_def stream_ok_def serving_def)
  from noticedD [OF this assms(4)] show ?thesis by simp
qed

lemma client_hears_told: "Resync_frame \<notin> set fs \<Longrightarrow> client_hears fs = map client_event (told fs)"
  by (induction fs) (auto simp: client_hears_def told_def map_filter_simps split: frame.splits)

section \<open>The properties\<close>

text \<open>
  C14: No change goes unnoticed: whatever was published while a client is connected, however slow it is, the handler
  left to itself comes to rest, and by then every change is followed in the stream by its own event or by a
  resynchronisation, each of which makes the page load its list again.
\<close>

theorem no_change_unnoticed:
  assumes "sse_reachable s" "serving s"
  shows "\<exists>s' fs. sse_step\<^sup>*\<^sup>* s s' \<and> at_rest s' \<and> sr_log (snd s') = sr_log (snd s) @ map Written fs \<and>
    (\<forall>as e bs. sr_log (snd s') = as @ Published e # bs \<longrightarrow>
       Written Resync_frame \<in> set bs \<or> Written (Event_frame e) \<in> set bs)"
proof -
  from handler_rests [OF assms] obtain s' fs where s': "sse_step\<^sup>*\<^sup>* s s'" "sse_reachable s'" "serving s'" "at_rest s'"
    "sr_log (snd s') = sr_log (snd s) @ map Written fs" by blast
  with rest_noticed [OF sse_reachable_ok [OF s'(2)] s'(3,4)] show ?thesis by blast
qed

lemma first_stream: "sse_reachable (begin_stream NewBroker)" "serving (begin_stream NewBroker)"
  "sr_log (snd (begin_stream NewBroker)) = []"
  by (rule stream_begins) (simp_all add: serving_def my_sub_def begin_stream_def Subscribe_def NewBroker_def)

text \<open>A client that is told of one message.\<close>

definition published_once :: sse where
  "published_once = (Publish (MessageCreated ''1'') (fst (begin_stream NewBroker)),
     (snd (begin_stream NewBroker))\<lparr>sr_log := [Published (MessageCreated ''1'')]\<rparr>)"

lemma published_once_reachable: "sse_reachable published_once" "serving published_once"
proof -
  have "sse_step (begin_stream NewBroker) published_once"
    using publishes [of "fst (begin_stream NewBroker)" "snd (begin_stream NewBroker)" "MessageCreated ''1''"]
    by (simp add: published_once_def first_stream)
  then show "sse_reachable published_once" by (rule stream_further [OF first_stream(1)])
  show "serving published_once"
    by (simp add: published_once_def serving_def my_sub_def begin_stream_def Subscribe_def NewBroker_def Publish_def offer_def)
qed

theorem no_change_unnoticed_witness:
  "\<exists>s' fs. sse_step\<^sup>*\<^sup>* published_once s' \<and> at_rest s' \<and>
    sr_log (snd s') = [] @ Published (MessageCreated ''1'') # map Written fs \<and>
    (Resync_frame \<in> set fs \<or> Event_frame (MessageCreated ''1'') \<in> set fs)"
proof -
  have lg: "sr_log (snd published_once) = [Published (MessageCreated ''1'')]" by (simp add: published_once_def)
  from no_change_unnoticed [OF published_once_reachable] obtain s' fs where
    s': "sse_step\<^sup>*\<^sup>* published_once s'" "at_rest s'" "sr_log (snd s') = sr_log (snd published_once) @ map Written fs"
    and told: "\<forall>as e bs. sr_log (snd s') = as @ Published e # bs \<longrightarrow>
      Written Resync_frame \<in> set bs \<or> Written (Event_frame e) \<in> set bs" by blast
  from s'(3) lg have split: "sr_log (snd s') = [] @ Published (MessageCreated ''1'') # map Written fs" by simp
  from told [rule_format, OF this] have "Resync_frame \<in> set fs \<or> Event_frame (MessageCreated ''1'') \<in> set fs" by auto
  with s' split show ?thesis by blast
qed

text \<open>
  C16: The page hears of changes in the order in which they were published and of nothing else; and a handler at rest that
  never had to resynchronise has told it all of them.
\<close>

theorem events_in_order:
  assumes "sse_reachable s"
  shows "subseq (told (frames (sr_log (snd s)))) (published (sr_log (snd s))) \<and>
    (serving s \<longrightarrow> at_rest s \<longrightarrow> Resync_frame \<notin> set (frames (sr_log (snd s))) \<longrightarrow>
       client_hears (frames (sr_log (snd s))) = map client_event (published (sr_log (snd s))))"
proof (intro conjI impI)
  note ok = sse_reachable_ok [OF assms, unfolded sse_ok_def stream_ok_def]
  have "subseq (told (frames (sr_log (snd s)))) (told (frames (sr_log (snd s))) @ in_hand (sr_phase (snd s)) @ sb_buffer (my_sub s))"
    by (rule prefix_imp_subseq) simp
  with ok show "subseq (told (frames (sr_log (snd s)))) (published (sr_log (snd s)))" by (auto intro: subseq_order.trans)
  assume "serving s" "at_rest s" "Resync_frame \<notin> set (frames (sr_log (snd s)))"
  with ok client_hears_told show "client_hears (frames (sr_log (snd s))) = map client_event (published (sr_log (snd s)))"
    by (auto simp: serving_def at_rest_def due_def)
qed

text \<open>The same client, once it has been greeted and told.\<close>

definition told_once :: sse where
  "told_once = (let (b, h) = published_once;
     h = write_frame Greeting Waiting h;
     b = receive (sr_sub h) b; h = write_frame (Event_frame (MessageCreated ''1'')) Checking (go_to (Writing (MessageCreated ''1'')) h)
   in (snd (Missed (sr_sub h) b), go_to Waiting h))"

lemmas run_defs = published_once_def begin_stream_def Subscribe_def NewBroker_def Publish_def offer_def bufferSize_def
  write_frame_def go_to_def receive_def Missed_def upd_sub_def my_sub_def

lemma told_once_reachable: "sse_reachable told_once"
proof -
  obtain b h where p: "published_once = (b, h)" by (cases published_once)
  let ?h1 = "write_frame Greeting Waiting h"
  let ?h2 = "go_to (Writing (MessageCreated ''1'')) ?h1"
  let ?h3 = "write_frame (Event_frame (MessageCreated ''1'')) Checking ?h2"
  let ?b = "receive (sr_sub h) b"
  from p have h: "sr_phase h = Greet" "sb_buffer (my_sub (b, ?h1)) = [MessageCreated ''1'']" "Missed (sr_sub h) ?b = (0, snd (Missed (sr_sub h) ?b))"
    by (auto simp: run_defs)
  have subs: "sr_sub ?h1 = sr_sub h" "sr_phase ?h1 = Waiting" "sr_phase ?h2 = Writing (MessageCreated ''1'')"
    "sr_phase ?h3 = Checking" "sr_sub ?h3 = sr_sub h"
    by (simp_all add: write_frame_def go_to_def)
  have "sse_reachable (b, h)" using published_once_reachable(1) p by simp
  note r1 = stream_further [OF this greet [OF h(1)]]
  from stream_further [OF r1 take_event [OF subs(2) h(2)]] subs(1) have r2: "sse_reachable (?b, ?h2)" by simp
  note r3 = stream_further [OF r2 write_event [OF subs(3)]]
  from stream_further [OF r3 check_missed [OF subs(4)], of 0] h(3) subs(5)
  have "sse_reachable (snd (Missed (sr_sub h) ?b), go_to Waiting ?h3)" by simp
  moreover have "told_once = (snd (Missed (sr_sub h) ?b), go_to Waiting ?h3)" by (simp add: told_once_def p Let_def subs)
  ultimately show ?thesis by simp
qed

theorem events_in_order_witness:
  "client_hears (frames (sr_log (snd told_once))) = [(Message_created, Some ''1'')]"
proof -
  have "serving told_once" "at_rest told_once" "Resync_frame \<notin> set (frames (sr_log (snd told_once)))"
    "published (sr_log (snd told_once)) = [MessageCreated ''1'']"
    by (simp_all add: told_once_def run_defs serving_def at_rest_def frames_def published_def map_filter_simps)
  with events_in_order [OF told_once_reachable] show ?thesis by (simp add: client_event_def)
qed

end
