(* ===== verification/Demo_App.thy ===== *)
theory Demo_App
  imports Ui_State
begin

text \<open>
  The demonstration application of the Playwright example (\<open>examples/playwright/app/server.js\<close>): its
  pages, the two handlers that send mail, and the dispatch of requests. \<open>nodemailer\<close>'s transport is
  the argument \<open>sendMail\<close>, which may fail and changes a world of its own; random bytes and numbers are
  arguments. The lemmas follow a registration from the submitted form through the mail sent to the code
  that the SDK reads from it, and the escaping of what a visitor typed.
\<close>

section \<open>Pages\<close>

definition escape_entity :: "char \<Rightarrow> string" where
  "escape_entity c =
     (if c = CHR ''&'' then ''&amp;'' else if c = CHR ''<'' then ''&lt;'' else if c = CHR ''>'' then ''&gt;''
      else if c = CHR 0x22 then ''&quot;'' else if c = CHR 0x27 then ''&#39;'' else [c])"

definition escape :: "string \<Rightarrow> string" where
  "escape s = concat (map escape_entity s)"

text \<open>\<open>String(v)\<close> of a field that may be \<open>null\<close>.\<close>

definition show_field :: "string option \<Rightarrow> string" where
  "show_field v = nullish v ''null''"

definition html_page :: "string \<Rightarrow> string \<Rightarrow> string" where
  \<open>html_page title body = ''<!doctype html>\<newline><html lang="en"><head><meta charset="utf-8"><title>'' @ escape title @ ''</title>\<newline>'' @
     ''<style>body{font-family:system-ui,sans-serif;max-width:28rem;margin:4rem auto;padding:0 1rem}\<newline>'' @
     ''label,input,button{display:block;width:100%;margin-top:.5rem}input,button{padding:.5rem;font:inherit}</style>\<newline>'' @
     ''</head><body>'' @ body @ ''</body></html>''\<close>

definition form :: "string \<Rightarrow> string \<Rightarrow> string \<Rightarrow> string \<Rightarrow> string" where
  \<open>form title action button extra = html_page title
     (''<h1>'' @ title @ ''</h1><form method="post" action="'' @ action @ ''">'' @ extra @ ''\<newline>'' @
      ''     <label for="email">Email</label><input id="email" name="email" type="email" required>\<newline>'' @
      ''     <button type="submit">'' @ button @ ''</button></form>'')\<close>

section \<open>Handlers\<close>

text \<open>The body's chunks are joined and read as \<open>URLSearchParams\<close>; \<open>None\<close>: a text outside Latin-1.\<close>

definition readForm :: "string list \<Rightarrow> params option" where
  "readForm chunks = those (map (\<lambda>(k, v). Option.bind k (\<lambda>k. map_option (Pair k) v)) (search_params (concat chunks)))"

definition form_get :: "params \<Rightarrow> string \<Rightarrow> string option" where
  "form_get data k = map_of data k"

record outgoing =
  og_from :: string
  og_to :: "string option"
  og_subject :: string
  og_text :: string
  og_html :: "string option"

text \<open>What a request draws: the bytes of \<open>randomBytes(8)\<close> and the number of \<open>randomInt(100000, 1000000)\<close>.\<close>

record draw =
  dw_bytes :: "nat list"
  dw_int :: nat

definition hex :: "nat list \<Rightarrow> string" where
  "hex bytes = concat (map (\<lambda>b. [hex_char (b div 16), hex_char (b mod 16)]) bytes)"

type_synonym 'w transport = "outgoing \<Rightarrow> 'w \<Rightarrow> (string + unit) \<times> 'w"

definition welcome_mail :: "string \<Rightarrow> draw \<Rightarrow> params \<Rightarrow> outgoing" where
  \<open>welcome_mail baseUrl d data =
     (let name = (if truthy (form_get data ''name'') then nullish (form_get data ''name'') [] else ''there'');
          link = baseUrl @ ''/activate/'' @ hex (dw_bytes d)
      in \<lparr>og_from = ''"Acme" <hello@acme.test>'', og_to = form_get data ''email'', og_subject = ''Welcome'',
          og_text = ''Hello '' @ name @ '', welcome to Acme!\<newline>\<newline>Activate your account: '' @ link,
          og_html = Some (''<h1>Welcome to Acme</h1><p>Hello '' @ escape name @ '', welcome to Acme!</p>\<newline>'' @
            ''           <p><a href="'' @ link @ ''">Activate account</a></p>'')\<rparr>)\<close>

definition code_mail :: "draw \<Rightarrow> params \<Rightarrow> outgoing" where
  \<open>code_mail d data = \<lparr>og_from = ''"Acme" <hello@acme.test>'', og_to = form_get data ''email'',
     og_subject = ''Your verification code'',
     og_text = ''Your verification code is '' @ show_nat (dw_int d) @ ''. It expires in 10 minutes.'', og_html = None\<rparr>\<close>

text \<open>A handler resolves with a page or rejects with an error's message.\<close>

definition register :: "'w transport \<Rightarrow> string \<Rightarrow> draw \<Rightarrow> params \<Rightarrow> 'w \<Rightarrow> (string + string) \<times> 'w" where
  "register sendMail baseUrl d data w =
     (case sendMail (welcome_mail baseUrl d data) w of
        (Inl err, w1) \<Rightarrow> (Inl err, w1)
      | (Inr _, w1) \<Rightarrow>
          (case sendMail (code_mail d data) w1 of
             (Inl err, w2) \<Rightarrow> (Inl err, w2)
           | (Inr _, w2) \<Rightarrow>
               (Inr (html_page ''Check your inbox'' (''<h1>Check your inbox</h1><p>We sent a welcome email to '' @
                  escape (show_field (form_get data ''email'')) @ ''.</p>'')), w2)))"

definition reset_mail :: "string \<Rightarrow> draw \<Rightarrow> params \<Rightarrow> outgoing" where
  \<open>reset_mail baseUrl d data =
     (let link = baseUrl @ ''/reset/'' @ hex (dw_bytes d)
      in \<lparr>og_from = ''"Acme" <no-reply@acme.test>'', og_to = form_get data ''email'', og_subject = ''Reset your password'',
          og_text = ''Reset your password: '' @ link,
          og_html = Some (''<p>Someone asked to reset your password.</p><p><a href="'' @ link @ ''">Reset password</a></p>'')\<rparr>)\<close>

definition forgotPassword :: "'w transport \<Rightarrow> string \<Rightarrow> draw \<Rightarrow> params \<Rightarrow> 'w \<Rightarrow> (string + string) \<times> 'w" where
  "forgotPassword sendMail baseUrl d data w =
     (case sendMail (reset_mail baseUrl d data) w of
        (Inl err, w1) \<Rightarrow> (Inl err, w1)
      | (Inr _, w1) \<Rightarrow>
          (Inr (html_page ''Check your inbox'' (''<h1>Check your inbox</h1><p>We sent a reset link to '' @
             escape (show_field (form_get data ''email'')) @ ''.</p>'')), w1))"

section \<open>Requests\<close>

datatype handler = Show_page string | Register | Forgot_password

definition routes :: "(string \<times> handler) list" where
  \<open>routes =
     [(''GET /'', Show_page (html_page ''Acme'' (''<h1>Acme</h1><a href="/register">Register</a> '' @ [CHR 0xB7] @
         '' <a href="/forgot-password">Forgot password</a>''))),
      (''GET /register'', Show_page (form ''Register'' ''/register'' ''Register''
         ''<label for="name">Name</label><input id="name" name="name">'')),
      (''POST /register'', Register),
      (''GET /forgot-password'', Show_page (form ''Forgot password'' ''/forgot-password'' ''Reset password'' [])),
      (''POST /forgot-password'', Forgot_password)]\<close>

definition handler_of :: "string \<Rightarrow> string \<Rightarrow> handler option" where
  \<open>handler_of meth path =
     (let h = map_of routes (meth @ '' '' @ path);
          h = (if h = None \<and> meth = ''GET'' \<and> startsWith path ''/activate/''
               then Some (Show_page (html_page ''Activated'' ''<h1>Account activated</h1>'')) else h)
      in if h = None \<and> meth = ''GET'' \<and> startsWith path ''/reset/''
         then Some (Show_page (html_page ''Reset password''
           ''<h1>Choose a new password</h1><label for="pw">New password</label><input id="pw" type="password">''))
         else h)\<close>

text \<open>
  \<open>new URL(req.url, baseUrl).pathname\<close> of a target that is a path of plain characters: what
  follows a question mark or a hash is cut, and dot segments are resolved. \<open>None\<close> for any other target.
\<close>

definition plain_path_char :: "char \<Rightarrow> bool" where
  "plain_path_char c \<longleftrightarrow> alnum c \<or> c \<in> set ''/-._~!$&()*+,;=:@''"

fun resolve_dots :: "string list \<Rightarrow> string list \<Rightarrow> string list" where
  "resolve_dots acc [] = rev acc"
| "resolve_dots acc (s # ss) =
     (if s = ''..'' then resolve_dots (if ss = [] then [] # tl acc else tl acc) ss
      else if s = ''.'' then resolve_dots (if ss = [] then [] # acc else acc) ss
      else resolve_dots (s # acc) ss)"

definition pathname :: "string \<Rightarrow> string option" where
  "pathname url =
     (let path = takeWhile (\<lambda>c. c \<noteq> CHR ''?'' \<and> c \<noteq> CHR ''#'') url
      in if startsWith path ''/'' \<and> \<not> startsWith path ''//'' \<and> list_all plain_path_char path
         then Some (concat (map (Cons (CHR ''/'')) (resolve_dots [] (split_on (CHR ''/'') (tl path))))) else None)"

record app_request =
  ar_method :: string
  ar_url :: string
  ar_chunks :: "string list"

record app_response =
  ap_status :: nat
  ap_headers :: params
  ap_body :: string

definition not_found :: app_response where
  "not_found = \<lparr>ap_status = 404, ap_headers = [], ap_body = ''Not found''\<rparr>"

definition answer :: "string + string \<Rightarrow> app_response" where
  "answer r = (case r of
     Inr html \<Rightarrow> \<lparr>ap_status = 200, ap_headers = [(''Content-Type'', ''text/html; charset=utf-8'')], ap_body = html\<rparr>
   | Inl message \<Rightarrow> \<lparr>ap_status = 500, ap_headers = [], ap_body = ''Could not send email: '' @ message\<rparr>)"

text \<open>The whole request; \<open>None\<close> when its target or form is outside what \<open>pathname\<close> and \<open>readForm\<close> cover.\<close>

definition serve :: "'w transport \<Rightarrow> string \<Rightarrow> draw \<Rightarrow> app_request \<Rightarrow> 'w \<Rightarrow> (app_response \<times> 'w) option" where
  "serve sendMail baseUrl d req w = Option.bind (pathname (ar_url req)) (\<lambda>path.
     case handler_of (ar_method req) path of
       None \<Rightarrow> Some (not_found, w)
     | Some (Show_page html) \<Rightarrow> Some (answer (Inr html), w)
     | Some Register \<Rightarrow> map_option (\<lambda>data. apfst answer (register sendMail baseUrl d data w)) (readForm (ar_chunks req))
     | Some Forgot_password \<Rightarrow> map_option (\<lambda>data. apfst answer (forgotPassword sendMail baseUrl d data w)) (readForm (ar_chunks req)))"

section \<open>Replacing a fixed text\<close>

fun replace_lit :: "string \<Rightarrow> string \<Rightarrow> string \<Rightarrow> string" where
  "replace_lit w t [] = []"
| "replace_lit w t (c # s) =
     (if prefix w (c # s) \<and> w \<noteq> [] then t @ replace_lit w t (drop (length w - 1) s) else c # replace_lit w t s)"

lemma rmatch_lit: "rmatch (lit w) (MS b s caps) = (if prefix w s then [MS (rev w @ b) (drop (length w) s) caps] else [])"
proof (induction w arbitrary: b s)
  case Nil
  show ?case by (simp add: lit_def)
next
  case (Cons c w)
  show ?case
  proof (cases w)
    case Nil
    then show ?thesis by (cases s) (auto simp: lit_def chr_def)
  next
    case (Cons d w')
    then have "lit (c # w) = Seq (chr c) (lit w)" by (simp add: lit_def)
    with Cons.IH show ?thesis by (cases s) (auto simp: chr_def)
  qed
qed

lemma segments_lit: "w \<noteq> [] \<Longrightarrow>
  concat (map (\<lambda>(g, m). g @ t) (fst (segments (lit w) b s))) @ snd (segments (lit w) b s) = replace_lit w t s"
proof (induction w t s arbitrary: b rule: replace_lit.induct)
  case (1 w t)
  then show ?case by (simp add: segments_None rmatch_lit)
next
  case (2 w t c s)
  have push: "concat (map (\<lambda>(g, m). g @ t) (fst (push_gap c p))) @ snd (push_gap c p) =
      c # concat (map (\<lambda>(g, m). g @ t) (fst p)) @ snd p" for p :: "(string \<times> rmatch_result) list \<times> string"
    by (cases "(c, p)" rule: push_gap.cases) auto
  show ?case
  proof (cases "prefix w (c # s)")
    case True
    let ?r = "drop (length w - 1) s"
    from True 2(3) have r: "drop (length w) (c # s) = ?r" by (cases w) auto
    have found: "between (MS b (c # s) []) (MS (rev w @ b) ?r []) = w" by (simp add: between_def)
    have "search (lit w) b (c # s) = Some ([], \<lparr>m_text = w, m_caps = []\<rparr>, rev w @ b, ?r)"
      using True r found by (simp add: rmatch_lit)
    from segments_Some [OF this] 2(1) [of "rev w @ b"] True 2(3) show ?thesis by simp
  next
    case False
    then have "rmatch (lit w) (MS b (c # s) []) = []" by (simp add: rmatch_lit)
    from segments_skip [OF this] push 2(2) [of "c # b"] False 2(3) show ?thesis by simp
  qed
qed

lemma replace_all_lit: "w \<noteq> [] \<Longrightarrow> replace_all (lit w) (\<lambda>_. t) s = replace_lit w t s"
  using segments_lit by (simp add: replace_all_def Let_def)

text \<open>
  A text made of pieces, in which an ampersand only starts a piece: replacing \<open>w\<close> replaces the
  pieces that are \<open>w\<close>.
\<close>

lemma replace_lit_plain: "CHR ''&'' \<notin> set u \<Longrightarrow> replace_lit (CHR ''&'' # v) t (u @ rest) = u @ replace_lit (CHR ''&'' # v) t rest"
  by (induction u) auto

definition apart :: "string \<Rightarrow> string \<Rightarrow> bool" where
  "apart w p \<longleftrightarrow> p \<noteq> [] \<and> CHR ''&'' \<notin> set (tl p) \<and> \<not> prefix w p \<and> \<not> prefix p w"

lemma replace_lit_apart:
  assumes "apart (CHR ''&'' # v) p"
  shows "replace_lit (CHR ''&'' # v) t (p @ rest) = p @ replace_lit (CHR ''&'' # v) t rest"
proof -
  from assms obtain c u where p: "p = c # u" "CHR ''&'' \<notin> set u" by (cases p) (auto simp: apart_def)
  from assms have "\<not> prefix (CHR ''&'' # v) (p @ rest)" by (metis apart_def prefix_append prefix_prefix prefix_same_cases prefixI)
  with p replace_lit_plain [of u] show ?thesis by auto
qed

lemma replace_lit_self: "replace_lit (c # v) t ((c # v) @ rest) = t @ replace_lit (c # v) t rest"
  by simp

lemma replace_pieces:
  assumes "\<forall>c \<in> set s. g c = CHR ''&'' # v \<and> h c = t \<or> h c = g c \<and> apart (CHR ''&'' # v) (g c)"
  shows "replace_lit (CHR ''&'' # v) t (concat (map g s)) = concat (map h s)"
  using assms
proof (induction s)
  case (Cons c s)
  then have IH: "replace_lit (CHR ''&'' # v) t (concat (map g s)) = concat (map h s)" by simp
  from Cons.prems consider "g c = CHR ''&'' # v" "h c = t" | "h c = g c" "apart (CHR ''&'' # v) (g c)" by auto
  then show ?case
    by cases (use IH replace_lit_self replace_lit_apart in \<open>simp_all del: replace_lit.simps\<close>)
qed simp

text \<open>Patterns that start with an angle bracket find nothing in a text without one.\<close>

lemma search_no_bracket:
  assumes "CHR ''<'' \<notin> set s" "\<And>b. rmatch re (MS b [] []) = []" "\<And>b c r. c \<noteq> CHR ''<'' \<Longrightarrow> rmatch re (MS b (c # r) []) = []"
  shows "search re b s = None"
  using assms(1) by (induction s arbitrary: b) (auto simp: assms(2,3))

lemma replace_no_bracket:
  assumes "CHR ''<'' \<notin> set s" "\<And>b. rmatch re (MS b [] []) = []" "\<And>b c r. c \<noteq> CHR ''<'' \<Longrightarrow> rmatch re (MS b (c # r) []) = []"
  shows "replace_all re f s = s"
  using search_no_bracket [OF assms, of "[]"] by (simp add: replace_all_def segments_None)

lemma lower_char_bracket: "lower_char c = CHR ''<'' \<longleftrightarrow> c = CHR ''<''"
proof
  assume "lower_char c = CHR ''<''"
  then have "(of_char (lower_char c) :: nat) = 60" by simp
  then have "(of_char c :: nat) = of_char (CHR ''<'')" by (simp add: of_char_lower_char Let_def split: if_splits)
  then show "c = CHR ''<''" by (simp only: of_char_eq_iff)
qed (simp add: js_eval)

lemma tags_no_bracket:
  assumes "CHR ''<'' \<notin> set s"
  shows "replace_all hidden_block f s = s" "replace_all line_end f s = s" "replace_all tag f s = s"
  by (rule replace_no_bracket [OF assms]; simp add: hidden_block_def line_end_def tag_def chr_def litI_def chrI_def lit_def lower_char_bracket js_eval)+

section \<open>Escaping\<close>

definition markup :: "char \<Rightarrow> bool" where
  "markup c \<longleftrightarrow> c = CHR ''<'' \<or> c = CHR ''>'' \<or> c = CHR 0x22 \<or> c = CHR 0x27"

lemma escape_no_markup: "c \<in> set (escape s) \<Longrightarrow> \<not> markup c"
  by (auto simp: escape_def escape_entity_def markup_def split: if_splits)

lemma escape_append [simp]: "escape (s @ t) = escape s @ escape t" "escape [] = []"
  by (simp_all add: escape_def)

lemma filter_markup_escape [simp]: "filter markup (escape s) = []"
  using escape_no_markup by (simp add: filter_empty_conv)

lemma page_markup: "filter markup (html_page t (a @ escape x @ b)) = filter markup (html_page t (a @ b))"
  by (simp only: html_page_def filter_append filter_markup_escape append_Nil)

text \<open>The entities of the characters in \<open>cs\<close>, the others already turned back.\<close>

definition entity_unless :: "char list \<Rightarrow> char \<Rightarrow> string" where
  "entity_unless cs c = (if c \<in> set cs then [c] else escape_entity c)"

lemma unescape_step:
  assumes "escape_entity x = CHR ''&'' # v" "CHR ''&'' \<notin> set s"
    and "\<forall>c \<in> {CHR ''<'', CHR ''>'', CHR 0x22, CHR 0x27}. c \<noteq> x \<longrightarrow> apart (CHR ''&'' # v) (escape_entity c)"
  shows "replace_lit (CHR ''&'' # v) [x] (concat (map (entity_unless cs) s)) = concat (map (entity_unless (x # cs)) s)"
proof (rule replace_pieces, intro ballI)
  fix c assume c: "c \<in> set s"
  have single: "apart (CHR ''&'' # v) [c]" using c assms(2) by (auto simp: apart_def)
  show "entity_unless cs c = CHR ''&'' # v \<and> entity_unless (x # cs) c = [x] \<or>
      entity_unless (x # cs) c = entity_unless cs c \<and> apart (CHR ''&'' # v) (entity_unless cs c)"
  proof (cases "c \<in> set cs \<or> c \<notin> {CHR ''<'', CHR ''>'', CHR 0x22, CHR 0x27}")
    case True
    with single assms(2) c show ?thesis by (auto simp: entity_unless_def escape_entity_def)
  next
    case False
    with assms(1,3) show ?thesis by (auto simp: entity_unless_def)
  qed
qed

lemma unescape_skip:
  assumes "CHR ''&'' \<notin> set s" "\<forall>c \<in> {CHR ''<'', CHR ''>'', CHR 0x22, CHR 0x27}. apart (CHR ''&'' # v) (escape_entity c)"
  shows "replace_lit (CHR ''&'' # v) t (concat (map (entity_unless cs) s)) = concat (map (entity_unless cs) s)"
proof (rule replace_pieces, intro ballI disjI2 conjI refl)
  fix c assume "c \<in> set s"
  with assms show "apart (CHR ''&'' # v) (entity_unless cs c)"
    by (cases "c \<in> {CHR ''<'', CHR ''>'', CHR 0x22, CHR 0x27}")
       (auto simp: entity_unless_def apart_def escape_entity_def)
qed

lemma htmlToText_escape:
  assumes "CHR ''&'' \<notin> set s"
  shows "htmlToText (escape s) = s"
proof -
  have "CHR ''<'' \<notin> set (escape s)" using escape_no_markup by (auto simp: markup_def)
  note tags = tags_no_bracket [OF this]
  have all: "escape s = concat (map (entity_unless []) s)" by (simp add: escape_def entity_unless_def [abs_def])
  let ?e = "\<lambda>cs. concat (map (entity_unless cs) s)"
  have steps: "replace_lit ''&nbsp;'' '' '' (?e []) = ?e []" "replace_lit ''&amp;'' ''&'' (?e []) = ?e []"
    "replace_lit ''&lt;'' ''<'' (?e []) = ?e ''<''" "replace_lit ''&gt;'' ''>'' (?e ''<'') = ?e ''><''"
    "replace_lit ''&quot;'' [CHR 0x22] (?e ''><'') = ?e (CHR 0x22 # ''><'')"
    "replace_lit ''&#39;'' [CHR 0x27] (?e (CHR 0x22 # ''><'')) = ?e (CHR 0x27 # CHR 0x22 # ''><'')"
    by (rule unescape_skip [OF assms] unescape_step [OF _ assms]; simp add: escape_entity_def apart_def)+
  have "?e (CHR 0x27 # CHR 0x22 # ''><'') = concat (map (\<lambda>c. [c]) s)"
    using assms by (intro arg_cong [where f = concat] map_cong) (auto simp: entity_unless_def escape_entity_def)
  then show ?thesis
    unfolding htmlToText_def Let_def tags by (simp add: replace_all_lit all steps del: replace_lit.simps)
qed

section \<open>The submitted form\<close>

lemma percent_decode_form: "percent_decode (form_encode s) = utf8_encode s"
proof (induction s)
  case (Cons c s)
  consider "c = CHR '' ''" | "c \<noteq> CHR '' ''" "form_safe c" | "c \<noteq> CHR '' ''" "\<not> form_safe c" by blast
  then show ?case
  proof cases
    case 1
    with Cons show ?thesis by (simp add: form_encode_def form_char_def utf8_encode_def)
  next
    case 2
    with Cons safe_plain(2) [of c] show ?thesis
      by (simp add: form_encode_def form_char_def escape_char_def utf8_encode_def)
  next
    case 3
    with Cons percent_decode_percents [of "utf8_char c" "form_encode s"] utf8_byte show ?thesis
      by (simp add: form_encode_def form_char_def escape_char_def utf8_encode_def del: percent_decode.simps)
  qed
qed (simp add: form_encode_def utf8_encode_def)

lemma readForm_toString: "concat chunks = params_toString ps \<Longrightarrow> readForm chunks = Some ps"
proof -
  let ?pair = "\<lambda>(k, v). form_encode k @ ''='' @ form_encode v"
  assume chunks: "concat chunks = params_toString ps"
  have pair: "search_pair (?pair p) = (Some (fst p), Some (snd p))" for p
  proof -
    have "\<forall>x \<in> set (form_encode (fst p)). x \<noteq> CHR ''=''" using form_plain [of _ "fst p"] by auto
    then have "cut (CHR ''='') (?pair p) = (form_encode (fst p), form_encode (snd p))"
      by (simp add: cut_def takeWhile_append2 dropWhile_append2 case_prod_unfold)
    then show ?thesis by (simp add: search_pair_def percent_decode_form)
  qed
  have "\<not> startsWith (params_toString ps) ''?''"
  proof (cases ps)
    case (Cons p ps')
    have "\<forall>x \<in> set (?pair p). x \<noteq> CHR ''?''" using form_plain [of _ "fst p"] form_plain [of _ "snd p"] by (auto simp: case_prod_unfold)
    moreover have "?pair p \<noteq> []" by (simp add: case_prod_unfold)
    ultimately show ?thesis
      using Cons join_Cons [of "map ?pair ps'" "''&''" "?pair p"]
      by (cases "?pair p"; cases "ps' = []") (auto simp: params_toString_def)
  qed (simp add: params_toString_def)
  moreover have "filter (\<lambda>p. p \<noteq> []) (split_on (CHR ''&'') (params_toString ps)) = map ?pair ps"
  proof (cases "ps = []")
    case False
    have "\<forall>x \<in> set (map ?pair ps). CHR ''&'' \<notin> set x" using form_plain [of "CHR ''&''"] by auto
    with False have "split_on (CHR ''&'') (params_toString ps) = map ?pair ps"
      unfolding params_toString_def by (intro split_on_join) auto
    then show ?thesis by (auto simp: filter_id_conv)
  qed (simp add: params_toString_def)
  ultimately have "search_params (concat chunks) = map (\<lambda>p. (Some (fst p), Some (snd p))) ps"
    using pair by (simp add: search_params_def chunks)
  then have "readForm chunks = those (map Some ps)" by (simp add: readForm_def comp_def)
  moreover have "those (map Some xs) = Some xs" for xs :: params by (induction xs) simp_all
  ultimately show ?thesis by simp
qed

section \<open>The code in the mail\<close>

lemma digits_of: "is_digit c \<Longrightarrow> is_word c \<and> c \<noteq> CHR ''.''"
  by (auto simp: is_word_def is_digit_def)

lemma show_nat_length6: "100000 \<le> n \<Longrightarrow> n < 1000000 \<Longrightarrow> length (show_nat n) = 6"
  by (simp add: show_nat.simps div_less_iff_less_mult flip: div_mult2_eq)

lemma code_guessed:
  assumes "length d = 6" "\<forall>x \<in> set d. is_digit x"
  shows "guessCode (''Your verification code is '' @ d @ ''. It expires in 10 minutes.'') = Some d"
proof -
  let ?s = "''Your verification code is '' @ d @ ''. It expires in 10 minutes.''"
  let ?rest = "'' code is '' @ d @ ''. It expires in 10 minutes.''"
  have k: "search keyword [] ?s = Some (''Your '', \<lparr>m_text = ''verification'', m_caps = []\<rparr>, rev ''Your verification'', ?rest)"
    by (simp add: keyword_def rx_eval js_eval)
  from assms(1) obtain a b c e f g where d: "d = [a, b, c, e, f, g]"
    by (auto simp: length_Suc_conv numeral_eq_Suc)
  with assms(2) have digits: "is_digit a" "is_digit b" "is_digit c" "is_digit e" "is_digit f" "is_digit g" by auto
  have "search codeToken [] ?rest = Some ('' code is '', \<lparr>m_text = d, m_caps = [(1, d)]\<rparr>, rev d @ rev '' code is '', ''. It expires in 10 minutes.'')"
    using digits [THEN digits_of] digits by (simp add: d codeToken_def codeToken_body_def code_char_def code_end_def rx_eval js_eval)
  then have t: "first_group codeToken ?rest = Some d"
    by (simp add: first_group_def match_first_def m_group_def)
  have "slice ?s 17 77 = ?rest" by (simp add: d slice_def rel_index_def)
  with t have "guess_loop ?s ((5, \<lparr>m_text = ''verification'', m_caps = []\<rparr>) # ks) = Some d" for ks
    using d by (simp add: truthy_def)
  with segments_Some [OF k] show ?thesis by (simp add: guessCode_def matchAll_def)
qed

lemma trim_ne: "c \<in> set s \<Longrightarrow> \<not> is_space c \<Longrightarrow> trim s \<noteq> []"
  by (auto simp: trim_def trimStart_def trimEnd_def dropWhile_eq_Nil_conv) (metis dropWhile_eq_Nil_conv in_set_conv_decomp set_rev takeWhile_dropWhile_id Un_iff set_append set_takeWhileD)

lemma findCode_text:
  assumes "d_text data = Some s" "c \<in> set s" "\<not> is_space c" "guessCode s = Some code" "code \<noteq> []"
  shows "findCode (new_Email data) None = Inr code"
  using assms trim_ne [OF assms(2,3)] by (simp add: findCode_def code_text_def new_Email_def nullish_def Let_def)

lemma code_mail_found:
  assumes "100000 \<le> dw_int d" "dw_int d < 1000000" "d_text data = Some (og_text (code_mail d sent))"
  shows "findCode (new_Email data) None = Inr (show_nat (dw_int d))"
proof (rule findCode_text [OF assms(3)])
  show "CHR ''Y'' \<in> set (og_text (code_mail d sent))" "\<not> is_space (CHR ''Y'')" by (simp_all add: code_mail_def js_eval)
  show "guessCode (og_text (code_mail d sent)) = Some (show_nat (dw_int d))"
    using code_guessed [OF show_nat_length6 [OF assms(1,2)]] show_nat_digits by (simp only: code_mail_def outgoing.simps) blast
qed (rule show_nat_ne)

section \<open>The properties\<close>

text \<open>
  C31: Whoever submits the registration form is written to at exactly the address typed: the welcome mail, then, if
  the transport took it, the mail with the code, from which the SDK's \<open>findCode\<close> reads exactly the
  number that was drawn. The answer is a page, or status 500 with the transport's error.
\<close>

theorem registration_code_is_found:
  assumes "ar_method req = ''POST''" "pathname (ar_url req) = Some ''/register''"
    "concat (ar_chunks req) = params_toString [(''name'', name), (''email'', to)]"
    "100000 \<le> dw_int d" "dw_int d < 1000000"
  shows "\<exists>welcome code html.
    og_to welcome = Some to \<and> og_to code = Some to \<and>
    serve sendMail baseUrl d req w = Some (case sendMail welcome w of
        (Inl err, w1) \<Rightarrow> (answer (Inl err), w1)
      | (Inr _, w1) \<Rightarrow> (case sendMail code w1 of
            (Inl err, w2) \<Rightarrow> (answer (Inl err), w2)
          | (Inr _, w2) \<Rightarrow> (answer (Inr html), w2))) \<and>
    (\<forall>data. d_text data = Some (og_text code) \<longrightarrow> findCode (new_Email data) None = Inr (show_nat (dw_int d)))"
proof (intro exI conjI allI impI)
  let ?form = "[(''name'', name), (''email'', to)]"
  let ?page = "html_page ''Check your inbox'' (''<h1>Check your inbox</h1><p>We sent a welcome email to '' @
    escape (show_field (form_get ?form ''email'')) @ ''.</p>'')"
  have "handler_of ''POST'' ''/register'' = Some Register" by (simp add: handler_of_def routes_def)
  with assms(1,2) readForm_toString [OF assms(3)]
  have "serve sendMail baseUrl d req w = Some (apfst answer (register sendMail baseUrl d ?form w))" by (simp add: serve_def)
  then show "serve sendMail baseUrl d req w = Some (case sendMail (welcome_mail baseUrl d ?form) w of
        (Inl err, w1) \<Rightarrow> (answer (Inl err), w1)
      | (Inr _, w1) \<Rightarrow> (case sendMail (code_mail d ?form) w1 of
            (Inl err, w2) \<Rightarrow> (answer (Inl err), w2)
          | (Inr _, w2) \<Rightarrow> (answer (Inr ?page), w2)))"
    by (simp add: register_def split: prod.splits sum.splits)
  show "og_to (welcome_mail baseUrl d ?form) = Some to" "og_to (code_mail d ?form) = Some to"
    by (simp_all add: welcome_mail_def code_mail_def form_get_def Let_def)
qed (rule code_mail_found [OF assms(4,5)])

definition sample_request :: app_request where
  "sample_request = \<lparr>ar_method = ''POST'', ar_url = ''/x/../register?a=1'',
     ar_chunks = [params_toString [(''name'', ''Ann''), (''email'', ''ann@acme.test'')]]\<rparr>"

definition sample_draw :: draw where
  "sample_draw = \<lparr>dw_bytes = [1, 2, 3, 4, 5, 6, 7, 255], dw_int = 123456\<rparr>"

definition data_with_text :: "string \<Rightarrow> message_data" where
  "data_with_text s = \<lparr>d_id = ''7'', d_messageId = None, d_from = \<lparr>a_name = None, a_address = ''a@x''\<rparr>,
     d_to = None, d_cc = None, d_replyTo = None, d_subject = [], d_date = None, d_text = Some s,
     d_html = None, d_headers = None, d_attachments = None, d_links = None, d_envelope = None, d_size = 1,
     d_createdAt = []\<rparr>"

theorem registration_code_is_found_witness:
  "\<exists>welcome code html. og_to welcome = Some ''ann@acme.test'' \<and> og_to code = Some ''ann@acme.test'' \<and>
    serve (\<lambda>m ms. (Inr (), ms @ [m])) ''http://localhost:3000'' sample_draw sample_request [] =
      Some (answer (Inr html), [welcome, code]) \<and>
    findCode (new_Email (data_with_text (og_text code))) None = Inr ''123456''"
proof -
  have path: "pathname (ar_url sample_request) = Some ''/register''"
    by (simp add: pathname_def sample_request_def plain_path_char_def js_eval)
  have bounds: "100000 \<le> dw_int sample_draw" "dw_int sample_draw < 1000000" "show_nat (dw_int sample_draw) = ''123456''"
    by (simp_all add: sample_draw_def js_eval)
  have req: "ar_method sample_request = ''POST''"
    "concat (ar_chunks sample_request) = params_toString [(''name'', ''Ann''), (''email'', ''ann@acme.test'')]"
    by (simp_all add: sample_request_def)
  from registration_code_is_found [OF req(1) path req(2) bounds(1,2), of "\<lambda>m ms. (Inr (), ms @ [m])" "''http://localhost:3000''" "[]"]
  show ?thesis by (fastforce simp: bounds(3) data_with_text_def)
qed

text \<open>
  What the application escapes is inert in HTML: the page answering a registration has the same markup whatever was
  typed, and the SDK's \<open>htmlToText\<close> reads an escaped text back as it was, when it has no ampersand. With
  one it need not: entities are decoded twice, because the ampersand's comes first.
\<close>

theorem escaped_text_is_inert:
  "(register sendMail baseUrl d sent w = (Inr html, w') \<longrightarrow>
      filter markup html = filter markup (html_page ''Check your inbox'' (''<h1>Check your inbox</h1><p>We sent a welcome email to '' @ ''.</p>''))) \<and>
   (CHR ''&'' \<notin> set s \<longrightarrow> htmlToText (escape s) = s) \<and> htmlToText (escape ''&lt;'') = ''<''"
proof (intro conjI impI htmlToText_escape)
  assume "register sendMail baseUrl d sent w = (Inr html, w')"
  then have "html = html_page ''Check your inbox'' (''<h1>Check your inbox</h1><p>We sent a welcome email to '' @
      escape (show_field (form_get sent ''email'')) @ ''.</p>'')"
    by (auto simp: register_def split: prod.splits sum.splits)
  then show "filter markup html = filter markup (html_page ''Check your inbox'' (''<h1>Check your inbox</h1><p>We sent a welcome email to '' @ ''.</p>''))"
    by (simp only: page_markup)
next
  have "CHR ''<'' \<notin> set (escape ''&lt;'')" by (simp add: escape_def escape_entity_def)
  note tags = tags_no_bracket [OF this]
  show "htmlToText (escape ''&lt;'') = ''<''"
    unfolding htmlToText_def Let_def tags by (simp add: replace_all_lit) (simp add: escape_def escape_entity_def)
qed

theorem escaped_text_is_inert_witness:
  "filter markup (html_page ''Check your inbox'' (''<h1>Check your inbox</h1><p>We sent a welcome email to '' @ escape ''<b>'' @ ''.</p>'')) =
     filter markup (html_page ''Check your inbox'' (''<h1>Check your inbox</h1><p>We sent a welcome email to '' @ ''.</p>'')) \<and>
   htmlToText (escape ''<b>'') = ''<b>''"
proof -
  let ?html = "html_page ''Check your inbox'' (''<h1>Check your inbox</h1><p>We sent a welcome email to '' @ escape ''<b>'' @ ''.</p>'')"
  have "register (\<lambda>_ w. (Inr (), w)) [] sample_draw [(''email'', ''<b>'')] () = (Inr ?html, ())"
    by (simp only: register_def split_conv prod.case sum.case form_get_def show_field_def map_of.simps nullish_def option.case fun_upd_same fst_conv snd_conv)
  with escaped_text_is_inert [of "\<lambda>_ w. (Inr (), w)" "[]" sample_draw "[(''email'', ''<b>'')]" "()" ?html "()" "''<b>''"]
  show ?thesis by (simp only:) simp
qed

end
