(* ===== verification/List_Sync.thy ===== *)
theory List_Sync
  imports Messages_Hook
begin

text \<open>
  The message list beside a store that changes. Mail arrives and is deleted at any time; each change is announced by an
  event that reaches the hook later, as a call of \<open>refresh\<close>; a request is answered from
  any state the store had since it was sent, and the two requests of a full load from different ones. The
  invariant says when the list is up to date; the properties are that a list at rest is, and
  that scrolling it goes on to the end.
\<close>

section \<open>The page beside the server\<close>

text \<open>
  \<open>pw_due\<close>: the changes whose event has not reached the hook; \<open>pw_seen i\<close>: the states of the store
  since load \<open>i\<close> was started, newest first.
\<close>

record page_world =
  pw_hook :: hook
  pw_store :: store_state
  pw_due :: nat
  pw_seen :: "nat \<Rightarrow> store_state list"

text \<open>The hook goes on; a load it starts has seen only the present state of the store.\<close>

definition remember :: "hook \<Rightarrow> page_world \<Rightarrow> page_world" where
  "remember h w = w\<lparr>pw_hook := h,
     pw_seen := (\<lambda>i. if hk_started (pw_hook w) \<le> i then [pw_store w] else pw_seen w i)\<rparr>"

definition opened :: "string \<Rightarrow> store_state \<Rightarrow> page_world" where
  "opened q s = \<lparr>pw_hook = useMessages q, pw_store = s, pw_due = 0, pw_seen = (\<lambda>_. [s])\<rparr>"

text \<open>The store changes to any well-formed one; an event, or one that stands for several, calls \<open>refresh\<close>.\<close>

definition changed :: "store_state \<Rightarrow> page_world \<Rightarrow> page_world" where
  "changed s w = w\<lparr>pw_store := s, pw_due := pw_due w + 1, pw_seen := (\<lambda>i. s # pw_seen w i)\<rparr>"

definition announced :: "nat \<Rightarrow> page_world \<Rightarrow> page_world" where
  "announced k w = w\<lparr>pw_hook := refresh (pw_hook w), pw_due := pw_due w - k\<rparr>"

definition answer_from :: "store_state \<Rightarrow> store_state \<Rightarrow> load \<Rightarrow> outcome" where
  "answer_from s1 s2 l = Answer (page_answer s1 (ld_query l) (ld_limit l) (ld_cursor l)) (count_answer s2 (ld_query l))"

inductive world_step :: "page_world \<Rightarrow> page_world \<Rightarrow> bool" where
  mail_changes: "store_ok s \<Longrightarrow> world_step w (changed s w)"
| told: "hk_mounted (pw_hook w) \<Longrightarrow> k \<le> pw_due w \<Longrightarrow> world_step w (announced k w)"
| timer: "hk_mounted (pw_hook w) \<Longrightarrow> world_step w (remember (timer_fires (pw_hook w)) w)"
| scrolled: "hk_mounted (pw_hook w) \<Longrightarrow> world_step w (remember (loadMore (pw_hook w)) w)"
| searched: "hk_mounted (pw_hook w) \<Longrightarrow> world_step w (remember (set_query q (pw_hook w)) w)"
| replied: "l \<in> set (hk_loads (pw_hook w)) \<Longrightarrow> {s1, s2} \<subseteq> set (pw_seen w (ld_id l)) \<Longrightarrow>
    world_step w (w\<lparr>pw_hook := settle (ld_id l) (answer_from s1 s2 l) (pw_hook w)\<rparr>)"
| failed: "l \<in> set (hk_loads (pw_hook w)) \<Longrightarrow>
    world_step w (w\<lparr>pw_hook := settle (ld_id l) (Failure e) (pw_hook w)\<rparr>)"
| left_page: "hk_mounted (pw_hook w) \<Longrightarrow> world_step w (w\<lparr>pw_hook := unmount (pw_hook w)\<rparr>)"

inductive world_reachable :: "page_world \<Rightarrow> bool" where
  opens: "store_ok s \<Longrightarrow> world_reachable (opened q s)"
| runs: "world_reachable w \<Longrightarrow> world_step w w' \<Longrightarrow> world_reachable w'"

text \<open>Nothing is under way: every change was announced, no refresh is due, no load runs, none failed.\<close>

definition at_rest :: "page_world \<Rightarrow> bool" where
  "at_rest w \<longleftrightarrow> hk_mounted (pw_hook w) \<and> pw_due w = 0 \<and> live_loads (pw_hook w) = [] \<and> \<not> hk_pending (pw_hook w) \<and>
     ls_error (hk_current (pw_hook w)) = None"

section \<open>Answers\<close>

text \<open>The list is the beginning of the store's, with the cursor and the total that go with it.\<close>

definition up_to :: "nat \<Rightarrow> store_state \<Rightarrow> hook \<Rightarrow> bool" where
  "up_to n s h \<longleftrightarrow> 0 < n \<and> ls_messages (hk_current h) = take n (stored_listing s (hk_query h)) \<and>
     ls_nextCursor (hk_current h) = stored_cursor s (hk_query h) n \<and> ls_total (hk_current h) = count_answer s (hk_query h) \<and>
     ls_loaded (hk_current h)"

lemma up_to_cong:
  "hk_current h' = hk_current h \<Longrightarrow> hk_query h' = hk_query h \<Longrightarrow> up_to n s h' = up_to n s h"
  by (simp add: up_to_def)

lemma good_store: "store_ok s \<Longrightarrow> \<exists>g. s = Rep_good_store g"
  by (metis Rep_good_store_cases mem_Collect_eq)

lemma shows_full:
  assumes "store_ok s" "\<not> ld_aborted l" "\<not> ld_append l" "0 < ld_limit l" "ld_cursor l = None" "ld_query l = hk_query h"
  shows "up_to (ld_limit l) s (finish_load l (answer_from s s l) h)"
proof -
  obtain g where g: "s = Rep_good_store g" using good_store [OF assms(1)] by blast
  have "may_answer (page_answer s) (count_answer s) l (answer_from s s l)" by (simp add: may_answer_def answer_from_def)
  with stored.finish_full [OF assms(2-6)] show ?thesis
    unfolding g answer_from_def by (fastforce simp: up_to_def stored.shows_first_def Let_def)
qed

lemma shows_append:
  assumes "store_ok s" "\<not> ld_aborted l" "ld_append l" "0 < ld_limit l" "ld_query l = hk_query h"
    "ld_messages l = ls_messages (hk_current h)" "ld_cursor l = ls_nextCursor (hk_current h)" "ld_cursor l \<noteq> None"
    "up_to n s h"
  shows "up_to (length (ls_messages (hk_current h)) + ld_limit l) s (finish_load l (answer_from s s l) h)"
proof -
  obtain g where g: "s = Rep_good_store g" using good_store [OF assms(1)] by blast
  have "may_answer (page_answer s) (count_answer s) l (answer_from s s l)" by (simp add: may_answer_def answer_from_def)
  moreover have "stored.shows_first g n h" using assms(9) by (simp add: up_to_def stored.shows_first_def Let_def g)
  ultimately show ?thesis using stored.finish_append [OF assms(2-8)]
    unfolding g answer_from_def by (fastforce simp: up_to_def stored.shows_first_def Let_def)
qed

lemma shows_more:
  assumes "store_ok s" "up_to n s h"
  shows "hasMore h \<longleftrightarrow> length (ls_messages (hk_current h)) < length (stored_listing s (hk_query h))"
    "ls_total (hk_current h) = int (length (stored_listing s (hk_query h)))"
    "ls_messages (hk_current h) = take (length (ls_messages (hk_current h))) (stored_listing s (hk_query h))"
proof -
  obtain g where g: "s = Rep_good_store g" using good_store [OF assms(1)] by blast
  from assms(2) stored.cursor_iff [of g "hk_query h" n] stored.count_law [of g "hk_query h"]
  show "hasMore h \<longleftrightarrow> length (ls_messages (hk_current h)) < length (stored_listing s (hk_query h))"
    "ls_total (hk_current h) = int (length (stored_listing s (hk_query h)))"
    "ls_messages (hk_current h) = take (length (ls_messages (hk_current h))) (stored_listing s (hk_query h))"
    by (auto simp: up_to_def hasMore_def g)
qed

text \<open>Whatever state it is from, a page with a cursor is full.\<close>

lemma page_full:
  assumes "store_ok s" "0 < n" "mp_nextCursor (page_answer s q n c) \<noteq> None"
  shows "length (mp_messages (page_answer s q n c)) = n"
  using assms(2,3) by (auto simp: page_answer_def Page_spec [OF assms(1)] cursor_text_def Let_def split: if_splits)

section \<open>The invariant\<close>

text \<open>A load that, answered now, would make the list one of the current generation.\<close>

definition current_load :: "hook \<Rightarrow> load \<Rightarrow> bool" where
  "current_load h l \<longleftrightarrow> (if ld_append l then hk_synced h = int (hk_generation h) else ld_generation l = hk_generation h)"

text \<open>
  Once every change is announced, a list of the current generation is up to date, and a load for the current
  generation has seen no other state of the store than the present one.
\<close>

definition fresh :: "page_world \<Rightarrow> bool" where
  "fresh w \<longleftrightarrow> (let h = pw_hook w in
     (hk_synced h = int (hk_generation h) \<longrightarrow> (\<exists>n. up_to n (pw_store w) h)) \<and>
     (\<forall>l \<in> set (live_loads h). current_load h l \<longrightarrow> set (pw_seen w (ld_id l)) \<subseteq> {pw_store w}))"

definition not_waiting :: "hook \<Rightarrow> bool" where
  "not_waiting h \<longleftrightarrow> (hk_mounted h \<and> ls_nextCursor (hk_current h) \<noteq> None \<and> length (ls_messages (hk_current h)) < hk_wanted h \<longrightarrow>
     live_loads h \<noteq> [])"

definition in_sync :: "page_world \<Rightarrow> bool" where
  "in_sync w \<longleftrightarrow> store_ok (pw_store w) \<and> loads_ok (pw_hook w) \<and> sync_ok (pw_hook w) \<and> not_waiting (pw_hook w) \<and>
     (\<forall>l \<in> set (hk_loads (pw_hook w)). \<forall>s \<in> set (pw_seen w (ld_id l)). store_ok s) \<and>
     (pw_due w = 0 \<longrightarrow> fresh w)"

lemma in_syncI:
  assumes "store_ok (pw_store w)" "loads_ok (pw_hook w)" "sync_ok (pw_hook w)" "not_waiting (pw_hook w)"
    "\<And>l s. l \<in> set (hk_loads (pw_hook w)) \<Longrightarrow> s \<in> set (pw_seen w (ld_id l)) \<Longrightarrow> store_ok s"
    "pw_due w = 0 \<Longrightarrow> fresh w"
  shows "in_sync w"
  using assms by (simp add: in_sync_def)

text \<open>A load that starts is for the present: it has seen no other state.\<close>

lemma start_world:
  assumes ok: "store_ok (pw_store w)" "loads_pre h" "hk_synced h \<le> int (hk_generation h)" "hk_started h = hk_started (pw_hook w)"
    and seen: "\<And>l s. l \<in> set (hk_loads h) \<Longrightarrow> s \<in> set (pw_seen w (ld_id l)) \<Longrightarrow> store_ok s"
    and fresh: "pw_due w = 0 \<Longrightarrow> hk_synced h = int (hk_generation h) \<Longrightarrow> \<exists>n. up_to n (pw_store w) h"
  shows "in_sync (remember (start_load h) w)"
proof (rule in_syncI)
  let ?w = "remember (start_load h) w"
  have hook: "pw_hook ?w = start_load h" "pw_store ?w = pw_store w" "pw_due ?w = pw_due w"
    "pw_seen ?w i = (if hk_started h \<le> i then [pw_store w] else pw_seen w i)" for i
    using ok(4) by (simp_all add: remember_def)
  note live = start_load_live [OF ok(2)]
  show "store_ok (pw_store ?w)" using ok(1) by (simp add: hook)
  show "loads_ok (pw_hook ?w)" using start_load_ok [OF ok(2)] by (simp add: hook)
  show "sync_ok (pw_hook ?w)" using start_load_sync [OF ok(2,3)] by (simp add: hook)
  show "not_waiting (pw_hook ?w)" using live by (simp add: hook not_waiting_def)
  show "store_ok s" if l: "l \<in> set (hk_loads (pw_hook ?w))" and s: "s \<in> set (pw_seen ?w (ld_id l))" for l s
  proof (cases "hk_started h \<le> ld_id l")
    case True
    with s ok(1) show ?thesis by (simp add: hook)
  next
    case False
    have "l \<in> set (hk_loads (abort_current h))"
      using l False by (auto simp: hook start_load_loads load_of_def Let_def)
    then have "ld_id l \<in> set (map ld_id (hk_loads (abort_current h)))" by (simp only: set_map imageI)
    then have "ld_id l \<in> set (map ld_id (hk_loads h))" by (simp only: abort_ids)
    then obtain k where "k \<in> set (hk_loads h)" "ld_id k = ld_id l" by auto
    with seen [of k s] s False show ?thesis by (simp add: hook)
  qed
  show "fresh ?w" if "pw_due ?w = 0"
  proof -
    have "ld_id (load_of h) = hk_started h" by (simp add: load_of_def Let_def)
    then show ?thesis using fresh that live up_to_cong [of "start_load h" h] by (simp add: fresh_def hook)
  qed
qed

text \<open>A change of the hook that starts nothing.\<close>

lemma loads_ok_started: "loads_ok h \<Longrightarrow> l \<in> set (hk_loads h) \<Longrightarrow> ld_id l < hk_started h"
  by (simp add: loads_ok_def)

lemma remember_idle: "in_sync w \<Longrightarrow> in_sync (remember (pw_hook w) w)"
  using loads_ok_started [of "pw_hook w"]
  by (auto simp: in_sync_def remember_def fresh_def Let_def live_loads_iff split: if_splits)

lemma timer_world:
  assumes "in_sync w" "hk_mounted (pw_hook w)"
  shows "in_sync (remember (timer_fires (pw_hook w)) w)"
proof (cases "hk_pending (pw_hook w)")
  case True
  let ?h = "(pw_hook w)\<lparr>hk_pending := False\<rparr>"
  have "in_sync (remember (start_load ?h) w)"
  proof (rule start_world)
    show "loads_pre ?h" using assms loads_ok_pre [of "pw_hook w"] by (simp add: in_sync_def loads_pre_def)
  qed (use assms up_to_cong [of ?h "pw_hook w"] in \<open>auto simp: in_sync_def sync_ok_def fresh_def Let_def\<close>)
  with True show ?thesis by (simp add: timer_fires_def)
next
  case False
  with remember_idle [OF assms(1)] show ?thesis by (simp add: timer_fires_def)
qed

lemma scroll_world:
  assumes "in_sync w" "hk_mounted (pw_hook w)"
  shows "in_sync (remember (loadMore (pw_hook w)) w)"
proof (cases "loadMore (pw_hook w) = pw_hook w")
  case False
  let ?h = "(pw_hook w)\<lparr>hk_wanted := length (ls_messages (hk_current (pw_hook w))) + PAGE_SIZE\<rparr>"
  have "in_sync (remember (start_load ?h) w)"
  proof (rule start_world)
    show "loads_pre ?h" using assms loads_ok_pre [of "pw_hook w"] by (simp add: in_sync_def loads_pre_def)
  qed (use assms up_to_cong [of ?h "pw_hook w"] in \<open>auto simp: in_sync_def sync_ok_def fresh_def Let_def\<close>)
  moreover have "loadMore (pw_hook w) = start_load ?h" using False by (auto simp: loadMore_def Let_def)
  ultimately show ?thesis by simp
qed (use remember_idle [OF assms(1)] in simp)

lemma search_world:
  assumes "in_sync w" "hk_mounted (pw_hook w)"
  shows "in_sync (remember (set_query q (pw_hook w)) w)"
  unfolding set_query_def
proof (rule start_world)
  show "loads_pre ((pw_hook w)\<lparr>hk_query := q, hk_wanted := PAGE_SIZE, hk_generation := hk_generation (pw_hook w) + 1\<rparr>)"
    using assms loads_ok_pre [of "pw_hook w"] by (simp add: in_sync_def loads_pre_def)
qed (use assms in \<open>auto simp: in_sync_def sync_ok_def\<close>)

lemma told_world:
  assumes "in_sync w" "hk_mounted (pw_hook w)"
  shows "in_sync (announced k w)"
proof -
  let ?h = "pw_hook w"
  have s: "sync_ok (refresh ?h)"
    by (rule hook_step_sync [where served = "page_answer (pw_store w)" and count = "count_answer (pw_store w)", OF refreshes [OF assms(2)]])
      (use assms in \<open>simp_all add: in_sync_def\<close>)
  have r: "hk_loads (refresh ?h) = hk_loads ?h" "hk_current (refresh ?h) = hk_current ?h" "hk_wanted (refresh ?h) = hk_wanted ?h"
    "hk_mounted (refresh ?h) = hk_mounted ?h" "hk_synced (refresh ?h) = hk_synced ?h"
    "hk_generation (refresh ?h) = hk_generation ?h + 1"
    by (simp_all add: refresh_def)
  have "hk_synced ?h \<le> int (hk_generation ?h)" "\<And>l. l \<in> set (live_loads ?h) \<Longrightarrow> ld_generation l \<le> hk_generation ?h"
    using assms(1) by (auto simp: in_sync_def sync_ok_def)
  then have "fresh (announced k w)" by (force simp: fresh_def Let_def announced_def r current_load_def)
  moreover have "pw_hook (announced k w) = refresh ?h" "pw_store (announced k w) = pw_store w" "pw_seen (announced k w) = pw_seen w"
    by (simp_all add: announced_def)
  ultimately show ?thesis using assms s by (intro in_syncI) (auto simp: in_sync_def r not_waiting_def)
qed

lemma change_world: "in_sync w \<Longrightarrow> store_ok s \<Longrightarrow> in_sync (changed s w)"
  by (auto simp: in_sync_def changed_def)

lemma leave_world:
  assumes "in_sync w" "hk_mounted (pw_hook w)"
  shows "in_sync (w\<lparr>pw_hook := unmount (pw_hook w)\<rparr>)"
proof -
  let ?h = "pw_hook w"
  have s: "sync_ok (unmount ?h)" "loads_ok (unmount ?h)"
    using assms hook_step_sync [OF leaves [of ?h "page_answer (pw_store w)" "count_answer (pw_store w)"]] unmount_ok [of ?h]
    by (auto simp: in_sync_def)
  have u: "live_loads (unmount ?h) = []" "hk_current (unmount ?h) = hk_current ?h" "hk_query (unmount ?h) = hk_query ?h"
    "hk_synced (unmount ?h) = hk_synced ?h" "hk_generation (unmount ?h) = hk_generation ?h" "\<not> hk_mounted (unmount ?h)"
    using live_unmount [of ?h] assms by (simp_all add: in_sync_def) (simp_all add: unmount_def)
  have ids: "ld_id ` set (hk_loads (unmount ?h)) = ld_id ` set (hk_loads ?h)"
    using abort_ids(1) [of ?h] by (simp add: unmount_def flip: set_map)
  let ?w = "w\<lparr>pw_hook := unmount ?h\<rparr>"
  show ?thesis
  proof (rule in_syncI)
    show "store_ok s" if l: "l \<in> set (hk_loads (pw_hook ?w))" "s \<in> set (pw_seen ?w (ld_id l))" for l s
    proof -
      have "ld_id l \<in> ld_id ` set (hk_loads (unmount ?h))" using l(1) by simp
      then obtain k where "k \<in> set (hk_loads ?h)" "ld_id k = ld_id l" unfolding ids by auto
      moreover have "s \<in> set (pw_seen w (ld_id l))" using l(2) by simp
      ultimately show ?thesis using assms(1) unfolding in_sync_def by metis
    qed
    show "fresh ?w" if "pw_due ?w = 0"
      using assms(1) that u up_to_cong [OF u(2,3)] by (simp add: in_sync_def fresh_def Let_def)
    show "not_waiting (pw_hook ?w)" using u(6) by (simp add: not_waiting_def)
    show "store_ok (pw_store ?w)" using assms(1) by (simp add: in_sync_def)
  qed (use s in simp_all)
qed

text \<open>An answer: one that counts is for the present when the load is.\<close>

lemma live_load_facts:
  assumes "loads_ok h" "l \<in> set (hk_loads h)" "\<not> ld_aborted l"
  shows "0 < ld_limit l" "ld_query l = hk_query h"
    "ld_append l \<Longrightarrow> ld_messages l = ls_messages (hk_current h) \<and> ld_cursor l = ls_nextCursor (hk_current h) \<and> ld_cursor l \<noteq> None \<and>
       ld_limit l = hk_wanted h - length (ls_messages (hk_current h))"
    "\<not> ld_append l \<Longrightarrow> ld_cursor l = None \<and> ld_limit l = max (hk_wanted h) PAGE_SIZE"
  using assms unfolding loads_ok_def by blast+

lemma answer_fresh:
  assumes ok: "in_sync w" and l: "l \<in> set (hk_loads (pw_hook w))" "\<not> ld_aborted l"
    and s: "{s1, s2} \<subseteq> set (pw_seen w (ld_id l))" and due: "pw_due w = 0"
    and sy: "hk_synced (finish_load l (answer_from s1 s2 l) (dropped l (pw_hook w))) = int (hk_generation (pw_hook w))"
  shows "\<exists>n. up_to n (pw_store w) (finish_load l (answer_from s1 s2 l) (dropped l (pw_hook w)))"
proof -
  let ?h = "pw_hook w" and ?d = "dropped l (pw_hook w)"
  have lo: "loads_ok ?h" and st: "store_ok (pw_store w)" and fr: "fresh w" using ok due by (simp_all add: in_sync_def)
  note f = live_load_facts [OF lo l]
  have "current_load ?h l" using sy l(2) by (auto simp: current_load_def finish_load_def answer_from_def split: if_splits)
  then have "set (pw_seen w (ld_id l)) \<subseteq> {pw_store w}" using fr l by (simp add: fresh_def Let_def live_loads_iff)
  with s have eq: "s1 = pw_store w" "s2 = pw_store w" by auto
  show ?thesis
  proof (cases "ld_append l")
    case True
    with sy l(2) have "hk_synced ?h = int (hk_generation ?h)" by (simp add: finish_load_def answer_from_def)
    with fr obtain n where "up_to n (pw_store w) ?h" by (auto simp: fresh_def Let_def)
    then have "up_to n (pw_store w) ?d" by (simp add: up_to_cong [of ?d ?h])
    have "ld_query l = hk_query ?d" "ld_messages l = ls_messages (hk_current ?d)"
      "ld_cursor l = ls_nextCursor (hk_current ?d)" "ld_cursor l \<noteq> None"
      unfolding dropped_simps using f(2) f(3) [OF True] by blast+
    from shows_append [OF st l(2) True f(1) this \<open>up_to n (pw_store w) ?d\<close>] show ?thesis unfolding eq by blast
  next
    case False
    from shows_full [OF st l(2) False f(1), of ?d] f(2) f(4) [OF False] show ?thesis unfolding eq by auto
  qed
qed

lemma answer_not_waiting:
  assumes ok: "in_sync w" and l: "l \<in> set (hk_loads (pw_hook w))" "\<not> ld_aborted l" and s: "s1 \<in> set (pw_seen w (ld_id l))"
  shows "not_waiting (finish_load l (answer_from s1 s2 l) (dropped l (pw_hook w)))"
proof -
  have lo: "loads_ok (pw_hook w)" and s1: "store_ok s1" using ok l(1) s by (auto simp: in_sync_def)
  note f = live_load_facts [OF lo l]
  have full: "mp_nextCursor pg \<noteq> None \<Longrightarrow> length (mp_messages pg) = ld_limit l"
    if "pg = page_answer s1 (ld_query l) (ld_limit l) (ld_cursor l)" for pg
    using page_full [OF s1 f(1), of "ld_query l" "ld_cursor l"] that by simp
  show ?thesis
  proof (cases "ld_append l")
    case True
    with f(3) [OF True] full [OF refl] l(2) show ?thesis by (auto simp: not_waiting_def finish_load_def answer_from_def)
  next
    case False
    with f(4) [OF False] full [OF refl] l(2) show ?thesis by (auto simp: not_waiting_def finish_load_def answer_from_def)
  qed
qed

lemma settle_world:
  assumes ok: "in_sync w" and l: "l \<in> set (hk_loads (pw_hook w))"
    and a: "answer = answer_from s1 s2 l \<and> {s1, s2} \<subseteq> set (pw_seen w (ld_id l)) \<or> (\<exists>e. answer = Failure e)"
  shows "in_sync (w\<lparr>pw_hook := settle (ld_id l) answer (pw_hook w)\<rparr>)"
proof (rule in_syncI)
  let ?h = "pw_hook w"
  let ?w = "w\<lparr>pw_hook := settle (ld_id l) answer ?h\<rparr>"
  have lo: "loads_ok ?h" and so: "sync_ok ?h" and st: "store_ok (pw_store w)" and nw: "not_waiting ?h"
    using ok by (simp_all add: in_sync_def)
  note eq = settle_eq [OF lo l, of answer]
  show "store_ok (pw_store ?w)" "loads_ok (pw_hook ?w)" "sync_ok (pw_hook ?w)"
    using st settle_ok [OF lo l] settle_sync [OF lo so l] by simp_all
  show "store_ok s" if "k \<in> set (hk_loads (pw_hook ?w))" "s \<in> set (pw_seen ?w (ld_id k))" for k s
    using ok that by (auto simp: in_sync_def eq dropped_def)
  have live: "ld_aborted l \<or> live_loads (settle (ld_id l) answer ?h) = []"
    using live_dropped [OF lo l] by (auto simp: eq)
  have fail: "finish_load l (Failure e) (dropped l ?h) = (if ld_aborted l then dropped l ?h else
      (dropped l ?h)\<lparr>hk_wanted := length (ls_messages (hk_current ?h)),
        hk_current := (hk_current ?h)\<lparr>ls_loaded := True, ls_error := Some (describeError e)\<rparr>\<rparr>)" for e
    by (simp add: finish_load_def)
  have gone: "live_loads (dropped l ?h) = live_loads ?h" if "ld_aborted l" by (rule live_dropped_aborted [OF that lo l])
  show "not_waiting (pw_hook ?w)"
  proof (cases "ld_aborted l")
    case True
    with nw gone show ?thesis by (simp add: eq finish_load_def not_waiting_def)
  next
    case False
    with a answer_not_waiting [OF ok l False] show ?thesis by (auto simp: eq fail) (simp add: not_waiting_def)
  qed
  show "fresh ?w" if "pw_due ?w = 0"
  proof (cases "ld_aborted l")
    case True
    have "fresh w" using ok that by (simp add: in_sync_def)
    with True gone up_to_cong [of "dropped l ?h" ?h] show ?thesis
      by (simp add: eq finish_load_def fresh_def Let_def current_load_def)
  next
    case False
    have fr: "fresh w" using ok that by (simp add: in_sync_def)
    have "\<exists>n. up_to n (pw_store w) (settle (ld_id l) answer ?h)"
      if sy: "hk_synced (settle (ld_id l) answer ?h) = int (hk_generation (settle (ld_id l) answer ?h))"
      using a
    proof
      assume A: "answer = answer_from s1 s2 l \<and> {s1, s2} \<subseteq> set (pw_seen w (ld_id l))"
      with answer_fresh [OF ok l False, of s1 s2] sy \<open>pw_due ?w = 0\<close> show ?thesis by (simp add: settle_eq [OF lo l])
    next
      assume "\<exists>e. answer = Failure e"
      then obtain e where e: "answer = Failure e" by blast
      with sy fr False obtain n where "up_to n (pw_store w) ?h" by (auto simp: settle_eq [OF lo l] fail fresh_def Let_def)
      then have "up_to n (pw_store w) (settle (ld_id l) answer ?h)" using e False by (simp add: settle_eq [OF lo l] fail up_to_def)
      then show ?thesis by blast
    qed
    with live False show ?thesis by (simp add: fresh_def Let_def)
  qed
qed

lemma opened_in_sync: "store_ok s \<Longrightarrow> in_sync (opened q s)"
proof -
  assume s: "store_ok s"
  let ?h = "\<lparr>hk_current = \<lparr>ls_messages = [], ls_total = 0, ls_nextCursor = None, ls_loaded = False,
       ls_error = None\<rparr>, hk_wanted = PAGE_SIZE, hk_generation = 1, hk_synced = -1, hk_controller = None,
     hk_pending = False, hk_query = q, hk_loads = [], hk_started = 0, hk_mounted = True\<rparr>"
  let ?w = "\<lparr>pw_hook = ?h, pw_store = s, pw_due = 0, pw_seen = (\<lambda>_. [s])\<rparr>"
  have "in_sync (remember (start_load ?h) ?w)" by (rule start_world) (simp_all add: s loads_pre_def)
  moreover have "remember (start_load ?h) ?w = opened q s" by (simp add: remember_def opened_def useMessages_def set_query_def)
  ultimately show ?thesis by simp
qed

lemma step_in_sync: "world_step w w' \<Longrightarrow> in_sync w \<Longrightarrow> in_sync w'"
proof (induction rule: world_step.induct)
  case (replied l w s1 s2)
  then show ?case by (intro settle_world [of _ _ _ s1 s2]) auto
next
  case (failed l w e)
  then show ?case by (intro settle_world) auto
qed (auto intro: change_world told_world timer_world scroll_world search_world leave_world)

lemma reachable_in_sync: "world_reachable w \<Longrightarrow> in_sync w"
  by (induction rule: world_reachable.induct) (auto intro: opened_in_sync step_in_sync)

lemma rest_up_to:
  assumes "world_reachable w" "at_rest w"
  shows "hk_synced (pw_hook w) = int (hk_generation (pw_hook w))" "\<exists>n. up_to n (pw_store w) (pw_hook w)"
  using reachable_in_sync [OF assms(1)] assms(2) by (auto simp: in_sync_def sync_ok_def at_rest_def fresh_def Let_def)

section \<open>A page that is resynchronised\<close>

text \<open>The page opens on one store, is answered, and follows a change to another.\<close>

definition page_loaded_from :: "store_state \<Rightarrow> page_world" where
  "page_loaded_from s = (let w = opened [] s in
     w\<lparr>pw_hook := settle 0 (Answer (page_answer s [] PAGE_SIZE None) (count_answer s [])) (pw_hook w)\<rparr>)"

lemma first_load: "hk_loads (useMessages q) = [\<lparr>ld_id = 0, ld_aborted = False, ld_append = False, ld_query = q,
    ld_messages = [], ld_cursor = None, ld_limit = PAGE_SIZE, ld_generation = 1\<rparr>]"
  by (simp add: useMessages_def set_query_def start_load_loads load_of_def wants_append_def Let_def) (simp add: abort_current_def)

lemma page_loaded_reachable:
  assumes "store_ok s"
  shows "world_reachable (page_loaded_from s)"
proof -
  let ?l = "\<lparr>ld_id = 0, ld_aborted = False, ld_append = False, ld_query = [], ld_messages = [], ld_cursor = None,
    ld_limit = PAGE_SIZE, ld_generation = 1\<rparr>"
  have "world_step (opened [] s) ((opened [] s)\<lparr>pw_hook := settle (ld_id ?l) (answer_from s s ?l) (pw_hook (opened [] s))\<rparr>)"
    by (rule replied) (simp_all add: opened_def first_load)
  from runs [OF opens [OF assms] this] show ?thesis by (simp add: page_loaded_from_def answer_from_def Let_def)
qed

lemma page_loaded_simps:
  "at_rest (page_loaded_from s)" "pw_store (page_loaded_from s) = s" "hk_query (pw_hook (page_loaded_from s)) = []"
  by (simp_all add: page_loaded_from_def opened_def at_rest_def Let_def settle_def first_load finish_load_def live_loads_def)
     (simp_all add: useMessages_def set_query_def)

text \<open>After the change was announced, the timer fires and the new load is answered.\<close>

definition resynced :: "store_state \<Rightarrow> page_world \<Rightarrow> page_world" where
  "resynced s w = (let w2 = announced (Suc 0) (changed s w); w3 = remember (timer_fires (pw_hook w2)) w2;
       l = last (hk_loads (pw_hook w3))
     in w3\<lparr>pw_hook := settle (ld_id l) (answer_from s s l) (pw_hook w3)\<rparr>)"

lemma resynced_reachable:
  assumes "world_reachable w" "at_rest w" "store_ok s"
  shows "world_reachable (resynced s w)" "at_rest (resynced s w)" "pw_store (resynced s w) = s"
    "hk_query (pw_hook (resynced s w)) = hk_query (pw_hook w)"
proof -
  let ?w2 = "announced (Suc 0) (changed s w)"
  let ?h2 = "pw_hook ?w2"
  let ?w3 = "remember (timer_fires ?h2) ?w2"
  let ?h = "?h2\<lparr>hk_pending := False\<rparr>"
  let ?l = "load_of ?h"
  have r1: "world_reachable (changed s w)" by (rule runs [OF assms(1) mail_changes [OF assms(3)]])
  have m: "hk_mounted (pw_hook w)" using assms(2) by (simp add: at_rest_def)
  have r2: "world_reachable ?w2" by (rule runs [OF r1 told]) (simp_all add: changed_def m)
  have m2: "hk_mounted ?h2" using m by (simp add: announced_def changed_def refresh_def)
  have r3: "world_reachable ?w3" by (rule runs [OF r2 timer [OF m2]])
  have h3: "pw_hook ?w3 = start_load ?h" by (simp add: remember_def timer_fires_def announced_def refresh_def)
  have last: "last (hk_loads (pw_hook ?w3)) = ?l" "?l \<in> set (hk_loads (pw_hook ?w3))" "\<not> ld_aborted ?l"
    by (simp_all add: h3 start_load_loads)
  have seen: "set (pw_seen ?w3 (ld_id ?l)) = {s}"
    by (simp add: remember_def load_of_def Let_def announced_def changed_def)
  have res: "resynced s w = ?w3\<lparr>pw_hook := settle (ld_id ?l) (answer_from s s ?l) (pw_hook ?w3)\<rparr>"
    by (simp add: resynced_def Let_def last)
  show "world_reachable (resynced s w)"
    unfolding res by (rule runs [OF r3 replied]) (use last seen in auto)
  have lo: "loads_ok (pw_hook ?w3)" using reachable_in_sync [OF r3] by (simp add: in_sync_def)
  have app: "\<not> ld_append ?l"
    using reachable_in_sync [OF assms(1)] by (simp add: wants_append_def announced_def changed_def refresh_def in_sync_def sync_ok_def)
  have eq: "settle (ld_id ?l) (answer_from s s ?l) (pw_hook ?w3) = finish_load ?l (answer_from s s ?l) (dropped ?l (pw_hook ?w3))"
    by (rule settle_eq [OF lo last(2)])
  have live: "live_loads (settle (ld_id ?l) (answer_from s s ?l) (pw_hook ?w3)) = []"
    using live_dropped [OF lo last(2,3)] by (simp add: eq)
  have "hk_mounted (start_load ?h)" "\<not> hk_pending (start_load ?h)" using m2 by simp_all
  then have f: "hk_mounted (settle (ld_id ?l) (answer_from s s ?l) (pw_hook ?w3))"
    "\<not> hk_pending (settle (ld_id ?l) (answer_from s s ?l) (pw_hook ?w3))"
    "ls_error (hk_current (settle (ld_id ?l) (answer_from s s ?l) (pw_hook ?w3))) = None"
    unfolding h3 eq [unfolded h3] using app last(3) by (simp_all add: finish_load_def answer_from_def)
  have "pw_due ?w3 = 0" using assms(2) by (simp add: at_rest_def remember_def announced_def changed_def)
  with live f show "at_rest (resynced s w)" unfolding res at_rest_def by simp
  show "pw_store (resynced s w) = s" by (simp add: res remember_def announced_def changed_def)
  show "hk_query (pw_hook (resynced s w)) = hk_query (pw_hook w)"
    unfolding res page_world.simps h3 eq [unfolded h3] by (simp add: announced_def changed_def refresh_def)
qed

section \<open>The properties\<close>

text \<open>
  C3: A list at rest shows the truth, however the mail changed before: whatever the interleaving of changes of the store,
  of their events reaching the hook, of scrolling, searching, and of answers drawn from any state since the
  request, or failures, once the event of every change has come, no refresh is due, no load is under way and the
  last one did not fail, the messages are the first ones of the store's present list for the search, in
  its order, without a gap or a duplicate, the total is their number, and \<open>hasMore\<close> says whether any are left.
\<close>

theorem list_at_rest_is_right:
  assumes "world_reachable w" "at_rest w"
  shows "let h = pw_hook w; list = stored_listing (pw_store w) (hk_query h) in
    ls_messages (hk_current h) = take (length (ls_messages (hk_current h))) list \<and>
    ls_total (hk_current h) = int (length list) \<and>
    (hasMore h \<longleftrightarrow> length (ls_messages (hk_current h)) < length list)"
proof -
  have st: "store_ok (pw_store w)" using reachable_in_sync [OF assms(1)] by (simp add: in_sync_def)
  obtain n where "up_to n (pw_store w) (pw_hook w)" using rest_up_to(2) [OF assms] by blast
  from shows_more [OF st this] show ?thesis by (simp add: Let_def)
qed

definition one_mail :: store_state where
  "one_mail = fst (Save zero_message [] (New 10))"

lemma one_mail_facts: "store_ok one_mail" "length (stored_listing one_mail []) = 1"
proof -
  have "store_ok (New 10)" "mm_id zero_message \<notin> set (st_order (New 10))" by (simp_all add: New_ok) (simp add: New_def)
  from Save_spec [OF this, of "[]" one_mail "snd (Save zero_message [] (New 10))"]
  have s: "store_ok one_mail" and m: "\<exists>k. messages_of one_mail = drop k (messages_of (New 10)) @ [zero_message]"
    by (auto simp: one_mail_def)
  show "store_ok one_mail" by (rule s)
  have "messages_of (New 10) = []" by (simp add: New_def messages_of_def entries_def)
  with m have "messages_of one_mail = [zero_message]" by simp
  moreover have "Match (search_filter []) zero_message" by (simp add: Match_iff search_filter_def zero_filter_def)
  ultimately show "length (stored_listing one_mail []) = 1" by (simp add: stored_listing_def)
qed

theorem list_at_rest_is_right_witness:
  "ls_total (hk_current (pw_hook (resynced one_mail (page_loaded_from (New 10))))) = 1"
proof -
  have "store_ok (New 10)" by (simp add: New_ok)
  note l = page_loaded_reachable [OF this]
  note r = resynced_reachable [OF l page_loaded_simps(1) one_mail_facts(1)]
  from list_at_rest_is_right [OF r(1,2)] one_mail_facts(2) show ?thesis by (simp add: Let_def r(3,4) page_loaded_simps)
qed

text \<open>
  C13: Scrolling goes on to the end: when no load is under way, asking for more starts one for the search shown whenever
  \<open>hasMore\<close> says so, even after a failure; and at rest, whatever happened before, it starts one exactly when
  the server has more messages than are shown, whose answer puts the next 50 under them, and does nothing when all are
  shown.
\<close>

theorem loadMore_not_stuck:
  assumes "world_reachable w" "hk_mounted (pw_hook w)" "live_loads (pw_hook w) = []"
  shows "(hasMore (pw_hook w) \<longrightarrow> (\<exists>l. live_loads (loadMore (pw_hook w)) = [l] \<and> ld_query l = hk_query (pw_hook w))) \<and>
    (at_rest w \<longrightarrow>
      (let h = pw_hook w; list = stored_listing (pw_store w) (hk_query h); n = length (ls_messages (hk_current h)) in
       if n < length list
       then \<exists>l. live_loads (loadMore h) = [l] \<and>
         ls_messages (hk_current (settle (ld_id l) (answer_from (pw_store w) (pw_store w) l) (loadMore h))) = take (n + PAGE_SIZE) list
       else loadMore h = h))"
proof -
  let ?h = "pw_hook w" and ?s = "pw_store w"
  let ?n = "length (ls_messages (hk_current ?h))"
  let ?h' = "?h\<lparr>hk_wanted := ?n + PAGE_SIZE\<rparr>"
  have ok: "store_ok ?s" "loads_ok ?h" "not_waiting ?h" using reachable_in_sync [OF assms(1)] by (simp_all add: in_sync_def)
  have pre: "loads_pre ?h'" using loads_ok_pre [OF ok(2) assms(2)] by (simp add: loads_pre_def)
  have starts: "loadMore ?h = start_load ?h'" "live_loads (loadMore ?h) = [load_of ?h']" if "hasMore ?h"
  proof -
    show "loadMore ?h = start_load ?h'"
      using ok(3) assms(2,3) that by (auto simp: not_waiting_def loadMore_def hasMore_def Let_def)
    then show "live_loads (loadMore ?h) = [load_of ?h']" using start_load_live [OF pre] by simp
  qed
  have "let list = stored_listing ?s (hk_query ?h) in
       if ?n < length list
       then \<exists>l. live_loads (loadMore ?h) = [l] \<and>
         ls_messages (hk_current (settle (ld_id l) (answer_from ?s ?s l) (loadMore ?h))) = take (?n + PAGE_SIZE) list
       else loadMore ?h = ?h" if rest: "at_rest w"
  proof -
    obtain k where k: "up_to k ?s ?h" and sy: "hk_synced ?h = int (hk_generation ?h)" using rest_up_to [OF assms(1) rest] by blast
    note more = shows_more [OF ok(1) k]
    show ?thesis
    proof (cases "hasMore ?h")
      case True
      let ?l = "load_of ?h'"
      have l: "?l \<in> set (hk_loads (start_load ?h'))" "\<not> ld_aborted ?l" by (simp_all add: start_load_loads)
      have app: "ld_append ?l" "ld_cursor ?l = ls_nextCursor (hk_current ?h)" "ld_cursor ?l \<noteq> None" "ld_limit ?l = PAGE_SIZE"
        using sy True by (auto simp: load_of_def wants_append_def hasMore_def Let_def)
      let ?d = "dropped ?l (start_load ?h')"
      have "up_to k ?s ?d" using k up_to_cong [of ?d ?h] by simp
      from shows_append [OF ok(1) l(2) app(1) _ _ _ _ app(3) this] app
      have "up_to (?n + PAGE_SIZE) ?s (finish_load ?l (answer_from ?s ?s ?l) ?d)" by simp
      then have "ls_messages (hk_current (settle (ld_id ?l) (answer_from ?s ?s ?l) (start_load ?h'))) =
          take (?n + PAGE_SIZE) (stored_listing ?s (hk_query ?h))"
        by (simp add: settle_eq [OF start_load_ok [OF pre] l(1)] up_to_def)
      with starts [OF True] more(1) True show ?thesis by (simp add: Let_def)
    next
      case False
      then have "loadMore ?h = ?h" by (simp add: loadMore_def hasMore_def)
      with more(1) False show ?thesis by (simp add: Let_def)
    qed
  qed
  then show ?thesis using starts(2) by (auto simp: Let_def)
qed

theorem loadMore_not_stuck_witness:
  "loadMore (pw_hook (resynced one_mail (page_loaded_from (New 10)))) = pw_hook (resynced one_mail (page_loaded_from (New 10)))"
proof -
  let ?w = "resynced one_mail (page_loaded_from (New 10))"
  have "store_ok (New 10)" by (simp add: New_ok)
  note l = page_loaded_reachable [OF this]
  note r = resynced_reachable [OF l page_loaded_simps(1) one_mail_facts(1)]
  have "hk_mounted (pw_hook ?w)" "live_loads (pw_hook ?w) = []" using r(2) by (simp_all add: at_rest_def)
  from loadMore_not_stuck [OF r(1) this] r(2) have "if length (ls_messages (hk_current (pw_hook ?w))) < 1 then True else loadMore (pw_hook ?w) = pw_hook ?w"
    by (simp add: Let_def r(3,4) page_loaded_simps one_mail_facts(2) split: if_splits)
  moreover obtain n where "up_to n one_mail (pw_hook ?w)" using rest_up_to(2) [OF r(1,2)] r(3) by auto
  then have "ls_messages (hk_current (pw_hook ?w)) = take n (stored_listing one_mail [])" "0 < n"
    by (simp_all add: up_to_def r(4) page_loaded_simps)
  with one_mail_facts(2) have "ls_messages (hk_current (pw_hook ?w)) \<noteq> []" by auto
  ultimately show ?thesis by (cases "ls_messages (hk_current (pw_hook ?w))") auto
qed

end
