(* ===== verification/Spec2Isabelle.thy ===== *)
theory Spec2Isabelle
  imports Fixture Text_Check Browser_Effects Interaction Broker Demo_App List_Sync
begin

text \<open>
  \<^bold>\<open>Mailpeek.\<close> Mailpeek is a mail catcher for development and tests: a Go server accepts mail over SMTP,
  keeps it in memory and offers it over a REST API with a stream of events; a TypeScript SDK
  (\<open>packages/client\<close>) waits for, finds and reads messages in tests; a Playwright integration
  (\<open>packages/playwright\<close>) gives every test its own inboxes; a React web interface (\<open>web/src\<close>) shows the
  mail. This development models the SDK, the integration, the logic of the web interface, and
  of the server what those talk to: the store, the filter, the failure rules, the handlers, and the
  events that announce changes.

  \<^bold>\<open>Foundations.\<close>
  \<^item> \<open>Prelude\<close>: strings, objects with ordered keys, numbers as text, list operations with JavaScript's
    indices, and the lemmas the components share (collections \<open>js_eval\<close> and \<open>js_object\<close>).
  \<^item> \<open>JS_Regex\<close>: regular expressions with ECMAScript's backtracking semantics, global scans and
    \<open>lastIndex\<close>; scans lose nothing.
  \<^item> \<open>JS_Date\<close>: calendar, \<open>toISOString\<close>, \<open>Date.parse\<close>, Go's RFC 3339 times, and their round trips.
  \<^item> \<open>Url\<close>: \<open>URLSearchParams\<close>, \<open>encodeURIComponent\<close> and Go's \<open>net/url\<close>; what one side writes the other
    reads.

  \<^bold>\<open>The SDK.\<close>
  \<^item> \<open>Types\<close> (\<open>types.ts\<close>), \<open>Email\<close> (\<open>email.ts\<close>: \<open>findLink\<close>, \<open>hasLink\<close>, headers, attachments, \<open>findCode\<close>): the best
    link is found, a code has the shape of a code and occurs in the text, a number that stands by
    itself is found.
  \<^item> \<open>Diagnose\<close> (\<open>diagnose.ts\<close>): \<open>explainMismatch\<close> against the server's filter, for a \<open>since\<close> both read alike, with a string
    that they read differently.
  \<^item> \<open>Client\<close> (\<open>client.ts\<close>): requests and their errors over an environment of \<open>fetch\<close>, clock and signal;
    \<open>Wait\<close>: \<open>waitFor\<close> and \<open>waitForEmails\<close> as partial functions. The locale \<open>wait_service\<close> is what
    \<open>waitFor\<close> relies on; \<open>Wait_Server\<close> interprets it on the server's handlers and shows that the loops
    return, that cutting a wait into requests is invisible, and what \<open>waitForEmails\<close> collects.
  \<^item> \<open>Inbox\<close> (\<open>inbox.ts\<close>): the locale \<open>inbox_service\<close>, interpreted on the client over the server: an inbox
    sees, waits for, clears and disturbs only its own mail.
  \<^item> \<open>Fixture\<close> (\<open>playwright/src/index.ts\<close>, \<open>server.ts\<close>): the fixture's inboxes, the report of a failed test,
    cleaning up, the options and their defaults, and the command of the web server.
  \<^item> \<open>Demo_App\<close> (\<open>examples/playwright/app/server.js\<close>): the application the example tests. A registration is
    followed from the submitted form to the code the SDK reads from the mail; what is escaped is inert, and the
    SDK's \<open>htmlToText\<close> reads it back except where it decodes an entity twice.

  \<^bold>\<open>The server.\<close>
  \<^item> \<open>Store_Filter\<close> (\<open>mail/message.go\<close>, \<open>store/filter.go\<close>), \<open>Store\<close> (\<open>store/store.go\<close>: saving and eviction, pages
    with cursors, deletion, with the invariant \<open>store_ok\<close>), \<open>Failures\<close> (\<open>failures/failures.go\<close>), \<open>Server\<close>
    (the handlers of \<open>internal/api\<close>, with a clock and the mail still to come).
  \<^item> \<open>Broker\<close> (\<open>events/broker.go\<close>, \<open>api/sse.go\<close>): publishing to bounded channels, and the handler of the event stream
    as a step relation beside it: no change goes unnoticed by a connected client, and what it hears is in order.

  \<^bold>\<open>The web interface.\<close>
  \<^item> \<open>Web_Api\<close> (\<open>api.ts\<close>), \<open>Web_Format\<close> (\<open>lib/errors.ts\<close>, \<open>format.ts\<close>, \<open>tabs.ts\<close>, \<open>html.ts\<close>), \<open>Mime_Highlight\<close>
    (\<open>lib/mimeHighlight.ts\<close>: tokens are the source).
  \<^item> \<open>Live_Events\<close> (\<open>lib/liveEvents.ts\<close>): the connection as a step relation with its invariant.
  \<^item> \<open>Messages_Hook\<close> (\<open>hooks/useMessages.ts\<close>): the list as an asynchronous state machine; the locale
    \<open>page_source\<close> is what one state of the server owes it, interpreted on the store's pages. \<open>List_Sync\<close> puts it beside a
    store that changes at any time, with events and answers under way: the list at rest is the server's, and scrolling
    reaches the end.
  \<^item> \<open>Inbox_State\<close> (selection, arrivals, the message shown), \<open>Ui_State\<close> (settings, layout, menus,
    shortcuts, debouncing): the values and handlers. \<open>Interaction\<close> puts them together with what the browser does: key
    presses with their effect on selection, layout and server, the menu with its focus and listener, the drag of the
    handle, sound and copying, as steps with their invariants.
  \<^item> \<open>Catalogues\<close>, \<open>I18n\<close> (\<open>i18n\<close>, \<open>internal/api/login_i18n.go\<close>): the texts, the choice of a language,
    translation, and the agreement with the server's login page.
  \<^item> \<open>View\<close>, \<open>Message_View\<close>, \<open>Page_View\<close> (\<open>components\<close>, \<open>pages\<close>): the components as functions to trees of
    elements, and theorems about the whole page: it can be shown in every language, mail is
    contained in sandboxed frames (the rest of the page does not depend on its HTML), the list shows the messages.
  \<^item> \<open>Text_Check\<close> (\<open>scripts/check-ui-i18n.mjs\<close>): the gate for literal texts passes exactly when there are none.
  \<^item> \<open>Browser_Effects\<close> (\<open>hooks/useFaviconBadge.ts\<close>, \<open>useFullscreenDialog.ts\<close>): effects that outlive a render.

  \<^bold>\<open>Conventions.\<close> An operation that can fail returns a sum, the error on the left; state is passed
  explicitly, callbacks of the browser are steps of a relation or arguments. Loops that may run for
  ever are \<open>partial_function (option)\<close>, and their properties say that they return. No fuel is used.
  Strings are lists of code units below 256, on which JavaScript's and Go's case mapping and white space
  are written out; the texts of the catalogues are UTF-8 bytes. Times are integers, milliseconds in
  JavaScript and nanoseconds in Go, with Go's 64-bit multiplication where it can overflow.
  \<open>Intl\<close>, random bytes, the clock, the mail transport, the TypeScript parser and \<open>fetch\<close> are parameters; \<open>fetch\<close> is instantiated with the
  server's handlers.

  \<^bold>\<open>Idealisations.\<close> While a client waits, nothing else acts but the mail that is to come: the clock advances
  only in waits, and \<open>fetch\<close> answers before the client's own timeout of a request. The properties of waiting assume
  mail in the order of its times (\<open>world_ok\<close>); sessions that save concurrently could differ by the moment between
  reading the clock and saving. A Date given as \<open>since\<close> is of the years 0 to 9999. \<open>Date.parse\<close> reads ISO 8601 only,
  other strings being invalid dates.

  \<^bold>\<open>Not modelled.\<close> The SMTP protocol and MIME parsing (messages arrive parsed), persistence on disk,
  login sessions, the OpenAPI document; class names and styles of the React components, scrolling, the drawing
  of canvas and animation and the playing of notes, which are the browser's; the script that takes screenshots and the
  end-to-end tests, which only drive a browser.
\<close>

end
